(* ===== verification/Prelude.thy ===== *)
theory Prelude
  imports Main "HOL-Library.Word"
begin

unbundle bit_operations_syntax

text \<open>
  Shared vocabulary of the development. It holds the machine types, the ways a C++ call ends other
  than by returning (\<open>cpp_error\<close>), sequencing of fallible calls (\<open>rbind\<close>), and the list lemmas
  on which the block structured buffers rest: overwriting a stretch of a list (\<open>splice\<close>) and
  reading or overwriting a stretch of one block of a list of equally long blocks.
\<close>

section \<open>Types\<close>

type_synonym byte = "8 word"
type_synonym u16 = "16 word"
type_synonym u32 = "32 word"
type_synonym u64 = "64 word"
type_synonym i8 = "8 word"     \<comment> \<open>two's complement, read with \<open>sint\<close>\<close>
type_synonym i16 = "16 word"
type_synonym i32 = "32 word"
type_synonym i64 = "64 word"

text \<open>
  How a call can end without returning: the exceptions the sources throw, the failed assertions
  (\<open>ASSERT\<close> of macro.h ends in \<open>assert\<close>), and the undefined behaviour a run can reach.
\<close>

datatype cpp_error =
    Out_of_range      \<comment> \<open>\<open>throw std::out_of_range\<close>\<close>
  | Invalid_argument  \<comment> \<open>\<open>throw std::invalid_argument\<close>\<close>
  | Logic_error       \<comment> \<open>\<open>throw std::logic_error\<close>\<close>
  | Assert_failed     \<comment> \<open>\<open>ASSERT\<close>, \<open>assert\<close>\<close>
  | Null_deref        \<comment> \<open>a member access through a null pointer\<close>
  | Out_of_bounds     \<comment> \<open>an access outside an allocated block or a container\<close>
  | Div_by_zero       \<comment> \<open>\<open>%\<close> or \<open>/\<close> by zero\<close>
  | Bad_iterator      \<comment> \<open>\<open>erase(end())\<close>\<close>
  | Bad_shift         \<comment> \<open>a shift by the width of the type or more\<close>
  | Signed_overflow   \<comment> \<open>an \<open>int\<close> result outside its range\<close>
  | Bad_alloc         \<comment> \<open>\<open>std::bad_alloc\<close> or \<open>std::length_error\<close> of an allocation\<close>
  | Bad_cast          \<comment> \<open>\<open>boost::bad_lexical_cast\<close>\<close>
  | Yaml_error        \<comment> \<open>an exception of yaml-cpp\<close>
  | Self_deadlock     \<comment> \<open>a thread locks a non-recursive lock it already holds\<close>

type_synonym 'a result = "cpp_error + 'a"

section \<open>Sequencing\<close>

text \<open>Equivalences that say when a fallible call returns, to take a run that returned apart.\<close>

named_theorems returns

definition rbind :: "'a result \<Rightarrow> ('a \<Rightarrow> 'b result) \<Rightarrow> 'b result" where
  "rbind m f = (case m of Inl e \<Rightarrow> Inl e | Inr x \<Rightarrow> f x)"

lemma rbind_simps [simp]:
  "rbind (Inl e) f = Inl e"
  "rbind (Inr x) f = f x"
  by (simp_all add: rbind_def)

lemma rbind_eq_Inr [returns]: "rbind m f = Inr y \<longleftrightarrow> (\<exists>x. m = Inr x \<and> f x = Inr y)"
  by (cases m) auto

lemma rbind_cong [fundef_cong]:
  "m = m' \<Longrightarrow> (\<And>x. m' = Inr x \<Longrightarrow> f x = f' x) \<Longrightarrow> rbind m f = rbind m' f'"
  by (cases m') auto

text \<open>The same for calls that may not return: \<open>None\<close> is a run without end.\<close>

definition obind :: "'a result option \<Rightarrow> ('a \<Rightarrow> 'b result option) \<Rightarrow> 'b result option" where
  "obind m f = (case m of None \<Rightarrow> None | Some r \<Rightarrow> (case r of Inl e \<Rightarrow> Some (Inl e) | Inr x \<Rightarrow> f x))"

lemma obind_simps [simp]:
  "obind None f = None"
  "obind (Some (Inl e)) f = Some (Inl e)"
  "obind (Some (Inr x)) f = f x"
  by (simp_all add: obind_def)

lemma obind_eq_Some [returns]: "obind m f = Some (Inr y) \<longleftrightarrow> (\<exists>x. m = Some (Inr x) \<and> f x = Some (Inr y))"
  by (auto simp: obind_def split: option.splits sum.splits)

section \<open>Overwriting a stretch of a list\<close>

definition splice_at :: "nat \<Rightarrow> 'a list \<Rightarrow> 'a list \<Rightarrow> 'a list" where
  "splice_at p ys xs = take p xs @ ys @ drop (p + length ys) xs"

lemma splice_at_Nil [simp]: "splice_at p [] xs = xs"
  by (simp add: splice_at_def)

lemma length_splice_at [simp]:
  "p + length ys \<le> length xs \<Longrightarrow> length (splice_at p ys xs) = length xs"
  by (simp add: splice_at_def)

lemma take_splice_at [simp]: "n \<le> p \<Longrightarrow> p \<le> length xs \<Longrightarrow> take n (splice_at p ys xs) = take n xs"
  by (simp add: splice_at_def min_absorb1)

lemma drop_splice_at:
  "p + length ys \<le> n \<Longrightarrow> p + length ys \<le> length xs \<Longrightarrow> drop n (splice_at p ys xs) = drop n xs"
  by (auto simp: splice_at_def)

lemma slice_splice_at [simp]:
  "p \<le> length xs \<Longrightarrow> n = length ys \<Longrightarrow> take n (drop p (splice_at p ys xs)) = ys"
  by (simp add: splice_at_def)

lemma splice_at_append:
  assumes "p + length ys \<le> length xs"
  shows "splice_at (p + length ys) zs (splice_at p ys xs) = splice_at p (ys @ zs) xs"
  using assms by (simp add: splice_at_def ac_simps)

lemma splice_at_appendR:
  "p + length ys \<le> length xs \<Longrightarrow> splice_at p ys (xs @ zs) = splice_at p ys xs @ zs"
  by (simp add: splice_at_def)

lemma splice_at_mid: "p = length us \<Longrightarrow> length ys = length vs \<Longrightarrow> splice_at p ys (us @ vs @ ws) = us @ ys @ ws"
  by (simp add: splice_at_def)

lemma nth_splice_at:
  assumes "p + length ys \<le> length xs" "k < length xs"
  shows "splice_at p ys xs ! k = (if p \<le> k \<and> k < p + length ys then ys ! (k - p) else xs ! k)"
  using assms by (auto simp: splice_at_def nth_append min_def)

section \<open>Lists of equally long blocks\<close>

definition uniform :: "nat \<Rightarrow> 'a list list \<Rightarrow> bool" where
  "uniform B xss \<longleftrightarrow> (\<forall>xs \<in> set xss. length xs = B)"

lemma uniform_simps [simp]:
  "uniform B []"
  "uniform B (xs # xss) \<longleftrightarrow> length xs = B \<and> uniform B xss"
  "uniform B (xss @ yss) \<longleftrightarrow> uniform B xss \<and> uniform B yss"
  by (auto simp: uniform_def)

lemma uniform_nth [simp]: "uniform B xss \<Longrightarrow> i < length xss \<Longrightarrow> length (xss ! i) = B"
  by (simp add: uniform_def)

lemma length_concat_uniform: "uniform B xss \<Longrightarrow> length (concat xss) = length xss * B"
  by (induction xss) auto

lemma uniform_update [simp]: "uniform B xss \<Longrightarrow> length xs = B \<Longrightarrow> uniform B (xss[i := xs])"
  by (auto simp: uniform_def dest: set_update_subset_insert [THEN subsetD])

lemma concat_split_nth:
  assumes "uniform B xss" "i < length xss"
  shows "concat xss = concat (take i xss) @ xss ! i @ concat (drop (Suc i) xss)"
    and "length (concat (take i xss)) = i * B"
proof -
  have "xss = take i xss @ xss ! i # drop (Suc i) xss"
    using assms(2) by (rule id_take_nth_drop)
  then show "concat xss = concat (take i xss) @ xss ! i @ concat (drop (Suc i) xss)"
    by (metis concat.simps(2) concat_append)
  have "uniform B (take i xss)"
    using assms(1) by (auto simp: uniform_def dest: in_set_takeD)
  then show "length (concat (take i xss)) = i * B"
    using assms(2) by (simp add: length_concat_uniform)
qed

text \<open>Overwriting inside one block is overwriting inside the concatenation.\<close>

lemma concat_splice_block:
  assumes "uniform B xss" "i < length xss" "q + length ys \<le> B"
  shows "concat (xss[i := splice_at q ys (xss ! i)]) = splice_at (i * B + q) ys (concat xss)"
proof -
  note split = concat_split_nth [OF assms(1,2)]
  have "concat (xss[i := splice_at q ys (xss ! i)])
      = concat (take i xss) @ splice_at q ys (xss ! i) @ concat (drop (Suc i) xss)"
    using assms(2) by (simp add: upd_conv_take_nth_drop)
  also have "\<dots> = splice_at (i * B + q) ys (concat (take i xss) @ xss ! i @ concat (drop (Suc i) xss))"
    using split(2) assms by (simp add: splice_at_def)
  finally show ?thesis using split(1) by simp
qed

text \<open>Reading inside one block is reading inside the concatenation.\<close>

lemma block_slice:
  assumes "uniform B xss" "i < length xss" "q + n \<le> B"
  shows "take n (drop q (xss ! i)) = take n (drop (i * B + q) (concat xss))"
  using concat_split_nth [OF assms(1,2)] assms by simp

lemma sum_list_int_update:
  "i < length xs \<Longrightarrow> sum_list (xs[i := x]) = sum_list xs + x - (xs ! i :: int)"
proof (induction xs arbitrary: i)
  case (Cons a xs)
  then show ?case by (cases i) auto
qed simp

section \<open>Word lemmas\<close>

lemma bit_word_8_eqI: "(\<And>k. k < 8 \<Longrightarrow> bit (a :: byte) k = bit b k) \<Longrightarrow> a = b"
  by (rule bit_word_eqI) simp

lemma uint64_of_nat_unat [simp]: "n < 2 ^ 64 \<Longrightarrow> unat (of_nat n :: u64) = n"
  by (simp add: unat_of_nat take_bit_nat_eq_self)

text \<open>Base-128 digits and the zigzag fold, on words.\<close>

lemma mask7_numeral: "(0x7F :: 'a::len word) = mask 7" by (simp add: mask_eq_exp_minus_1)

lemma bit_0x80: "bit (0x80 :: 'a::len word) n \<longleftrightarrow> n = 7 \<and> 7 < LENGTH('a)"
  using bit_exp_iff [where 'a = "'a word", of 7 n] by auto

lemma bit_0x80_int: "bit (0x80 :: int) n \<longleftrightarrow> n = 7"
  using bit_exp_iff [where 'a = int, of 7 n] by auto

lemma less_0x80_iff: "8 \<le> LENGTH('a::len) \<Longrightarrow> (x :: 'a word) < 0x80 \<longleftrightarrow> (\<forall>n \<ge> 7. \<not> bit x n)"
proof -
  assume "8 \<le> LENGTH('a)"
  then have "7 < size x" by (simp add: word_size)
  from mask_eq_iff_w2p [OF this] have "x < 0x80 \<longleftrightarrow> x AND mask 7 = x" by simp
  also have "\<dots> \<longleftrightarrow> (\<forall>n \<ge> 7. \<not> bit x n)" by (auto simp: bit_eq_iff bit_simps) (meson bit_imp_le_length not_less)+
  finally show ?thesis .
qed

lemma byte_less_0x80_iff: "(c :: byte) < 0x80 \<longleftrightarrow> \<not> bit c 7"
  by (subst less_0x80_iff) (auto simp: le_eq_less_or_eq dest: bit_imp_le_length)

lemma septet_step: "8 \<le> LENGTH('a::len) \<Longrightarrow> take_bit i v OR push_bit i (ucast (ucast ((drop_bit i v AND 0x7F) OR 0x80) AND 0x7F :: byte)) = (take_bit (i + 7) v :: 'a word)"
  unfolding mask7_numeral
  by (rule bit_word_eqI) (auto simp: bit_0x80 bit_0x80_int bit_simps not_less)

lemma septet_last: "8 \<le> LENGTH('a::len) \<Longrightarrow> drop_bit i v < (0x80 :: 'a word) \<Longrightarrow> take_bit i v OR push_bit i (ucast (ucast (drop_bit i v) :: byte)) = (v :: 'a word)"
proof (rule bit_word_eqI)
  fix n assume a: "8 \<le> LENGTH('a)" "drop_bit i v < (0x80 :: 'a word)" "n < LENGTH('a)"
  then have "n < i + 7" if "bit v n" using less_0x80_iff [of "drop_bit i v"] that
    by (cases "i \<le> n") (auto simp: bit_simps not_less dest!: spec [of _ "n - i"])
  then show "bit (take_bit i v OR push_bit i (ucast (ucast (drop_bit i v) :: byte))) n = bit v n"
    using a(3) by (auto simp: bit_simps not_less less_diff_conv2)
qed

lemma septet_more: "8 \<le> LENGTH('a::len) \<Longrightarrow> \<not> (ucast (((x::'a word) AND 0x7F) OR 0x80) :: byte) < 0x80"
  unfolding byte_less_0x80_iff by (simp add: bit_0x80 bit_0x80_int bit_simps)

lemma septet_done: "8 \<le> LENGTH('a::len) \<Longrightarrow> (x::'a word) < 0x80 \<Longrightarrow> (ucast x :: byte) < 0x80"
  unfolding byte_less_0x80_iff by (subst (asm) less_0x80_iff) (auto simp: bit_simps)

lemma septet_bound: "8 \<le> LENGTH('a::len) \<Longrightarrow> LENGTH('a) \<le> i + 7 \<Longrightarrow> drop_bit i v < (0x80 :: 'a word)"
  by (subst less_0x80_iff) (auto simp: bit_simps dest: bit_imp_le_length)

lemma drop_push_top: "\<not> bit v (LENGTH('a) - 1) \<Longrightarrow> drop_bit 1 (push_bit 1 v) = (v :: 'a::len word)"
proof (rule bit_word_eqI)
  fix n assume "\<not> bit v (LENGTH('a) - 1)" "n < LENGTH('a)"
  then show "bit (drop_bit 1 (push_bit 1 v)) n = bit v n"
    unfolding bit_drop_bit_eq o_def bit_push_bit_iff
    by (cases "n = LENGTH('a) - 1") auto
qed

lemma unzigzag_nonneg: 
  assumes "\<not> bit v (LENGTH('a) - 1)" 
  shows "drop_bit 1 (v * 2) XOR - ((v * 2) AND 1) = (v :: 'a::len word)"
proof -
  have "v * 2 = push_bit 1 v" by (simp add: push_bit_eq_mult)
  moreover have "push_bit 1 v AND 1 = 0"
    by (rule bit_word_eqI, unfold bit_and_iff bit_push_bit_iff bit_1_iff) simp
  ultimately show ?thesis using drop_push_top [OF assms] by simp
qed

lemma unzigzag_neg: 
  assumes "bit v (LENGTH('a) - 1)"
  shows "drop_bit 1 (- v * 2 - 1) XOR - ((- v * 2 - 1) AND 1) = (v :: 'a::len word)"
proof -
  let ?p = "push_bit 1 (NOT v)"
  have p: "?p = - v * 2 - 2" by (simp add: push_bit_eq_mult not_eq_complement algebra_simps)
  have "even ?p" by simp
  then have e: "- v * 2 - 1 = ?p OR 1" unfolding or_one_eq using p by simp
  have "drop_bit 1 (?p OR 1) = drop_bit 1 ?p" by (simp add: drop_bit_or)
  also have "\<dots> = NOT v" using assms by (intro drop_push_top) (simp add: bit_simps)
  finally have "drop_bit 1 (?p OR 1) = NOT v" .
  moreover have "(?p OR 1) AND 1 = 1" 
    by (rule bit_word_eqI, unfold bit_and_iff bit_or_iff bit_push_bit_iff bit_1_iff) auto
  ultimately show ?thesis unfolding e by simp
qed

lemma sint_neg_iff_bit: "sint (v :: 'a::len word) < 0 \<longleftrightarrow> bit v (LENGTH('a) - 1)"
  by (simp add: bit_last_iff)

end
