(* ===== verification/Endian.thy ===== *)
theory Endian
  imports Prelude
begin

unbundle bit_operations_syntax

text \<open>
  windgent/endian.h: the byte order constants, \<open>byteswap\<close> for 2, 4 and 8 byte integers and the two
  host-to-network helpers. The host's byte order, fixed by the preprocessor in the source, is an
  argument \<open>host\<close>, so the facts hold for both kinds of host. \<open>mem_bytes host v\<close> is the object
  representation of \<open>v\<close> on that host, which is what \<open>memcpy\<close> and \<open>write(&value, sizeof(value))\<close> see.
\<close>

section \<open>Definitions\<close>

datatype endian = WINDGENT_LITTLE_ENDIAN | WINDGENT_BIG_ENDIAN

definition bytes_le :: "'a::len word \<Rightarrow> byte list" where
  "bytes_le w = map (\<lambda>i. ucast (drop_bit (8 * i) w)) [0 ..< LENGTH('a) div 8]"

definition word_le :: "byte list \<Rightarrow> 'a::len word" where
  "word_le bs = foldr (\<lambda>b acc. ucast b OR push_bit 8 acc) bs 0"

definition mem_bytes :: "endian \<Rightarrow> 'a::len word \<Rightarrow> byte list" where
  "mem_bytes host w =
     (case host of WINDGENT_LITTLE_ENDIAN \<Rightarrow> bytes_le w | WINDGENT_BIG_ENDIAN \<Rightarrow> rev (bytes_le w))"

definition word_of_mem :: "endian \<Rightarrow> byte list \<Rightarrow> 'a::len word" where
  "word_of_mem host bs =
     (case host of WINDGENT_LITTLE_ENDIAN \<Rightarrow> word_le bs | WINDGENT_BIG_ENDIAN \<Rightarrow> word_le (rev bs))"

text \<open>\<open>bswap_16\<close>, \<open>bswap_32\<close> and \<open>bswap_64\<close>, selected by the size of the type.\<close>

definition byteswap :: "'a::len word \<Rightarrow> 'a word" where
  "byteswap val = word_le (rev (bytes_le val))"

definition byteswapOnLittleEndian :: "endian \<Rightarrow> 'a::len word \<Rightarrow> 'a word" where
  "byteswapOnLittleEndian host t =
     (case host of WINDGENT_BIG_ENDIAN \<Rightarrow> t | WINDGENT_LITTLE_ENDIAN \<Rightarrow> byteswap t)"

definition byteswapOnBigEndian :: "endian \<Rightarrow> 'a::len word \<Rightarrow> 'a word" where
  "byteswapOnBigEndian host t =
     (case host of WINDGENT_BIG_ENDIAN \<Rightarrow> byteswap t | WINDGENT_LITTLE_ENDIAN \<Rightarrow> t)"

section \<open>Bits and bytes\<close>

lemma length_bytes_le [simp]: "length (bytes_le (w :: 'a::len word)) = LENGTH('a) div 8"
  by (simp add: bytes_le_def)

lemma length_mem_bytes [simp]: "length (mem_bytes host (w :: 'a::len word)) = LENGTH('a) div 8"
  by (simp add: mem_bytes_def split: endian.split)

lemma bit_nth_bytes_le:
  "i < LENGTH('a) div 8 \<Longrightarrow> j < 8 \<Longrightarrow> bit (bytes_le (w :: 'a::len word) ! i) j = bit w (8 * i + j)"
  by (auto simp: bytes_le_def bit_simps)

lemma bit_word_le:
  "bit (word_le bs :: 'a::len word) k \<longleftrightarrow>
     k < LENGTH('a) \<and> k < 8 * length bs \<and> bit (bs ! (k div 8)) (k mod 8)"
proof (induction bs arbitrary: k)
  case Nil
  then show ?case by (simp add: word_le_def)
next
  case (Cons b bs)
  have unfold: "word_le (b # bs) = (ucast b OR push_bit 8 (word_le bs) :: 'a word)"
    by (simp add: word_le_def)
  show ?case
  proof (cases "k < 8")
    case True
    then show ?thesis unfolding unfold by (auto simp: bit_simps)
  next
    case False
    then obtain m where m: "k = 8 + m" using le_Suc_ex not_less by blast
    have "\<not> bit b (8 + m)" using bit_imp_le_length [of b "8 + m"] by auto
    moreover have "(8 + m) div 8 = Suc (m div 8)" by simp
    ultimately show ?thesis using Cons.IH [of m]
      unfolding unfold m by (auto simp: bit_simps)
  qed
qed

lemma word_le_bytes_le [simp]:
  assumes "8 dvd LENGTH('a::len)"
  shows "word_le (bytes_le w) = (w :: 'a word)"
proof (rule bit_word_eqI)
  fix k assume k: "k < LENGTH('a)"
  from assms k have "k div 8 < LENGTH('a) div 8" by (metis dvd_div_mult_self less_mult_imp_div_less)
  with k assms show "bit (word_le (bytes_le w) :: 'a word) k = bit w k"
    by (simp add: bit_word_le bit_nth_bytes_le)
qed

lemma bytes_le_word_le [simp]:
  assumes "length bs = LENGTH('a::len) div 8"
  shows "bytes_le (word_le bs :: 'a word) = bs"
proof (rule nth_equalityI)
  show "length (bytes_le (word_le bs :: 'a word)) = length bs" using assms by simp
next
  fix i assume i: "i < length (bytes_le (word_le bs :: 'a word))"
  show "bytes_le (word_le bs :: 'a word) ! i = bs ! i"
  proof (rule bit_word_8_eqI)
    fix k :: nat assume k: "k < 8"
    from i k have "8 * i + k < LENGTH('a)" by simp
    with i k assms show "bit (bytes_le (word_le bs :: 'a word) ! i) k = bit (bs ! i) k"
      by (simp add: bit_nth_bytes_le bit_word_le)
  qed
qed

lemma bytes_le_byteswap [simp]: "bytes_le (byteswap w) = rev (bytes_le w)"
  by (simp add: byteswap_def)

lemma byteswap_byteswap [simp]: "8 dvd LENGTH('a::len) \<Longrightarrow> byteswap (byteswap w) = (w :: 'a word)"
  by (simp add: byteswap_def)

lemma word_of_mem_bytes [simp]:
  "8 dvd LENGTH('a::len) \<Longrightarrow> word_of_mem host (mem_bytes host w) = (w :: 'a word)"
  by (cases host) (simp_all add: word_of_mem_def mem_bytes_def)

lemma mem_bytes_word_of [simp]:
  "length bs = LENGTH('a::len) div 8 \<Longrightarrow> mem_bytes host (word_of_mem host bs :: 'a word) = bs"
  by (cases host) (simp_all add: word_of_mem_def mem_bytes_def)

text \<open>
  Swapping exactly when the wanted order is not the host's gives the object representation of a
  host of the wanted order: what goes on the wire does not depend on the host.
\<close>

lemma mem_bytes_swap_unless:
  "mem_bytes host (if e \<noteq> host then byteswap w else w) = mem_bytes e w"
  by (cases host; cases e) (simp_all add: mem_bytes_def)

lemma word_of_mem_swap_unless:
  assumes "length bs = LENGTH('a::len) div 8" "8 dvd LENGTH('a)"
  shows "(if e = host then word_of_mem host bs else byteswap (word_of_mem host bs))
         = (word_of_mem e bs :: 'a word)"
  using assms by (cases host; cases e) (simp_all add: word_of_mem_def byteswap_def)

lemma mem_bytes_byteswapOnLittleEndian:
  "mem_bytes host (byteswapOnLittleEndian host w) = mem_bytes WINDGENT_BIG_ENDIAN w"
  by (cases host) (simp_all add: mem_bytes_def byteswapOnLittleEndian_def)

lemma byteswapOnLittleEndian_twice [simp]:
  "8 dvd LENGTH('a::len) \<Longrightarrow> byteswapOnLittleEndian host (byteswapOnLittleEndian host w) = (w :: 'a word)"
  by (cases host) (simp_all add: byteswapOnLittleEndian_def)

end
