(* ===== verification/Byte_Store.thy ===== *)
theory Byte_Store
  imports Prelude
begin

text \<open>
  The contract between a byte buffer with a cursor and the codecs on top of it. \<open>data\<close> is what the
  buffer holds, \<open>pos\<close> the cursor, \<open>mode\<close> a setting no operation changes (the byte order).
  \<open>put\<close> overwrites at the cursor and extends at the end, \<open>get\<close> returns the bytes at the cursor,
  \<open>seek\<close> moves the cursor inside the data. The lemmas say what any codec may rely on: bytes written
  are the upcoming bytes after seeking back (\<open>wrote_upcoming\<close>), and reading takes them in order
  (\<open>get_upcoming\<close>). The buffer of windgent/bytearray.cc provides it (theory ByteArray), the typed
  operations use it (theory ByteArray\_Codec).
\<close>

locale byte_store =
  fixes invar :: "'s \<Rightarrow> bool"
    and pos :: "'s \<Rightarrow> nat"
    and data :: "'s \<Rightarrow> byte list"
    and mode :: "'s \<Rightarrow> 'm"
    and put :: "'s \<Rightarrow> byte list \<Rightarrow> 's result"
    and get :: "'s \<Rightarrow> nat \<Rightarrow> (byte list \<times> 's) result"
    and seek :: "'s \<Rightarrow> nat \<Rightarrow> 's result"
  assumes pos_le: "invar s \<Longrightarrow> pos s \<le> length (data s)"
    and put_ok: "invar s \<Longrightarrow> \<exists>s'. put s bs = Inr s' \<and> invar s' \<and> pos s' = pos s + length bs
          \<and> mode s' = mode s
          \<and> data s' = take (pos s) (data s) @ bs @ drop (pos s + length bs) (data s)"
    and get_ok: "invar s \<Longrightarrow> 0 < n \<Longrightarrow> pos s + n \<le> length (data s) \<Longrightarrow>
          \<exists>s'. get s n = Inr (take n (drop (pos s) (data s)), s') \<and> invar s' \<and> pos s' = pos s + n
          \<and> mode s' = mode s \<and> data s' = data s"
    and get_short: "invar s \<Longrightarrow> length (data s) < pos s + n \<Longrightarrow> get s n = Inl Out_of_range"
    and seek_ok: "invar s \<Longrightarrow> p \<le> length (data s) \<Longrightarrow>
          \<exists>s'. seek s p = Inr s' \<and> invar s' \<and> pos s' = p \<and> mode s' = mode s \<and> data s' = data s"
begin

text \<open>The bytes at the cursor start with \<open>bs\<close>.\<close>

definition upcoming :: "'s \<Rightarrow> byte list \<Rightarrow> bool" where
  "upcoming s bs \<longleftrightarrow> invar s \<and> (\<exists>more. drop (pos s) (data s) = bs @ more)"

text \<open>\<open>s'\<close> is \<open>s\<close> after writing \<open>bs\<close>, and after reading \<open>n\<close> bytes.\<close>

definition wrote :: "'s \<Rightarrow> byte list \<Rightarrow> 's \<Rightarrow> bool" where
  "wrote s bs s' \<longleftrightarrow> invar s \<and> invar s' \<and> mode s' = mode s \<and> pos s' = pos s + length bs
     \<and> data s' = take (pos s) (data s) @ bs @ drop (pos s + length bs) (data s)"

definition consumed :: "'s \<Rightarrow> nat \<Rightarrow> 's \<Rightarrow> bool" where
  "consumed s n s' \<longleftrightarrow> invar s' \<and> mode s' = mode s \<and> pos s' = pos s + n \<and> data s' = data s"

lemma put_wrote: "invar s \<Longrightarrow> \<exists>s'. put s bs = Inr s' \<and> wrote s bs s'"
  using put_ok [of s bs] by (auto simp: wrote_def)

lemma wroteD: "wrote s bs s' \<Longrightarrow> invar s' \<and> mode s' = mode s \<and> pos s' = pos s + length bs"
  by (simp add: wrote_def)

lemma wrote_Nil: "invar s \<Longrightarrow> wrote s [] s"
  by (simp add: wrote_def)

lemma wrote_trans:
  assumes "wrote s xs s1" "wrote s1 ys s2"
  shows "wrote s (xs @ ys) s2"
  using assms pos_le [of s] by (auto simp: wrote_def ac_simps)

lemma put_put: "wrote s xs s1 \<Longrightarrow> \<exists>s2. put s1 ys = Inr s2 \<and> wrote s (xs @ ys) s2"
  using put_wrote [of s1 ys] wrote_trans [of s xs s1 ys] wroteD [of s xs s1] by blast

lemma wrote_upcoming:
  assumes "wrote s bs s1"
  shows "\<exists>s2. seek s1 (pos s) = Inr s2 \<and> upcoming s2 bs \<and> mode s2 = mode s \<and> pos s2 = pos s"
proof -
  have inv: "invar s1" "pos s \<le> length (data s1)" and eq: "mode s1 = mode s"
    "data s1 = take (pos s) (data s) @ bs @ drop (pos s + length bs) (data s)"
    using assms pos_le [of s] by (auto simp: wrote_def)
  from seek_ok [OF inv] obtain s2 where s2: "seek s1 (pos s) = Inr s2" "invar s2"
    "pos s2 = pos s" "mode s2 = mode s1" "data s2 = data s1" by blast
  moreover have "drop (pos s2) (data s2) = bs @ drop (pos s + length bs) (data s)"
    using s2 eq assms pos_le [of s] by (simp add: wrote_def)
  ultimately show ?thesis using eq by (auto simp: upcoming_def)
qed

lemma upcoming_consumed:
  "upcoming s (xs @ ys) \<Longrightarrow> consumed s (length xs) s' \<Longrightarrow> upcoming s' ys"
  by (auto simp: upcoming_def consumed_def drop_drop [symmetric] add.commute simp del: drop_drop)

lemma consumed_trans: "consumed s m s1 \<Longrightarrow> consumed s1 n s2 \<Longrightarrow> consumed s (m + n) s2"
  by (simp add: consumed_def)

lemma consumed_0: "upcoming s bs \<Longrightarrow> consumed s 0 s"
  by (simp add: upcoming_def consumed_def)

lemma get_upcoming:
  assumes "upcoming s (xs @ ys)" "xs \<noteq> []"
  shows "\<exists>s'. get s (length xs) = Inr (xs, s') \<and> consumed s (length xs) s' \<and> upcoming s' ys"
proof -
  obtain more where more: "drop (pos s) (data s) = xs @ ys @ more" and inv: "invar s"
    using assms(1) by (auto simp: upcoming_def)
  have "pos s + length xs \<le> length (data s)"
    using arg_cong [OF more, of length] assms(2) by (cases xs) auto
  with get_ok [OF inv, of "length xs"] assms(2) more obtain s' where
    "get s (length xs) = Inr (xs, s')" "consumed s (length xs) s'"
    by (auto simp: consumed_def)
  with upcoming_consumed [OF assms(1)] show ?thesis by blast
qed

text \<open>Writing and reading back at the old position.\<close>

lemma put_seek_get:
  assumes "invar s" "bs \<noteq> []"
  shows "\<exists>s1 s2 s3. put s bs = Inr s1 \<and> seek s1 (pos s) = Inr s2 \<and> get s2 (length bs) = Inr (bs, s3)
           \<and> pos s3 = pos s1"
proof -
  obtain s1 where s1: "put s bs = Inr s1" "wrote s bs s1" using put_wrote [OF assms(1)] by blast
  obtain s2 where s2: "seek s1 (pos s) = Inr s2" "upcoming s2 (bs @ [])" "pos s2 = pos s"
    using wrote_upcoming [OF s1(2)] by auto
  obtain s3 where "get s2 (length bs) = Inr (bs, s3)" "consumed s2 (length bs) s3"
    using get_upcoming [OF s2(2) assms(2)] by blast
  with s1 s2 show ?thesis by (auto simp: consumed_def wrote_def)
qed

end

end
