(* ===== verification/ByteArray.thy ===== *)
theory ByteArray
  imports Endian Byte_Store
begin

unbundle bit_operations_syntax

text \<open>
  windgent/bytearray.h and bytearray.cc: a growable buffer kept as a chain of equally large blocks
  with one cursor. The chain that starts at \<open>m_root\<close> is the list \<open>m_nodes\<close>; a \<open>Node*\<close> into it is
  an index, \<open>nullptr\<close> is \<open>None\<close>. Sizes and positions are \<open>nat\<close>: they count bytes of objects that
  exist in memory. What \<open>new char[s]\<close> leaves in a block is unspecified, so it is an argument:
  \<open>heap_fill k\<close> is the content of the \<open>k\<close>-th block the array allocates (\<open>heap_fill\<close> and the
  counter \<open>heap_allocs\<close> are ghost fields). \<open>ceil(1.0 * size / m_blocksize)\<close> is the exact ceiling,
  which the double computation gives for every size up to \<open>2 ^ 53\<close>.

  The integer and string codecs built on \<open>write\<close> and \<open>read\<close> are in the theory ByteArray\_Codec.
\<close>

section \<open>State\<close>

record node =
  n_ptr :: "byte list"    \<comment> \<open>the block \<open>char* ptr\<close> points to\<close>
  n_size :: nat

record byte_array =
  m_blocksize :: nat
  m_position :: nat
  m_capacity :: nat
  m_size :: nat
  m_endian :: endian
  m_nodes :: "node list"        \<comment> \<open>the chain from \<open>m_root\<close>\<close>
  m_cur :: "nat option"         \<comment> \<open>the node \<open>m_cur\<close> points to, \<open>None\<close> for \<open>nullptr\<close>\<close>
  heap_fill :: "nat \<Rightarrow> nat \<Rightarrow> byte"
  heap_allocs :: nat

record iovec =
  iov_node :: nat     \<comment> \<open>\<open>iov_base\<close>: the block it points into\<close>
  iov_off :: nat      \<comment> \<open>and the offset in it\<close>
  iov_len :: nat

section \<open>Operations\<close>

definition new_Node :: "(nat \<Rightarrow> nat \<Rightarrow> byte) \<Rightarrow> nat \<Rightarrow> nat \<Rightarrow> node" where
  "new_Node fill k s = \<lparr>n_ptr = map (fill k) [0 ..< s], n_size = s\<rparr>"

definition ByteArray_new :: "(nat \<Rightarrow> nat \<Rightarrow> byte) \<Rightarrow> nat \<Rightarrow> byte_array" where
  "ByteArray_new fill block_size =
     \<lparr>m_blocksize = block_size, m_position = 0, m_capacity = block_size, m_size = 0,
      m_endian = WINDGENT_BIG_ENDIAN, m_nodes = [new_Node fill 0 block_size], m_cur = Some 0,
      heap_fill = fill, heap_allocs = 1\<rparr>"

definition next_node :: "node list \<Rightarrow> nat \<Rightarrow> nat option" where
  "next_node ns i = (if Suc i < length ns then Some (Suc i) else None)"

text \<open>\<open>memcpy\<close> into and out of the block of node \<open>i\<close> at offset \<open>off\<close>.\<close>

definition memcpy_to :: "node list \<Rightarrow> nat \<Rightarrow> nat \<Rightarrow> byte list \<Rightarrow> node list result" where
  "memcpy_to ns i off bs =
     (if i < length ns \<and> off + length bs \<le> length (n_ptr (ns ! i))
      then Inr (ns[i := (ns ! i)\<lparr>n_ptr := splice_at off bs (n_ptr (ns ! i))\<rparr>])
      else Inl Out_of_bounds)"

definition memcpy_from :: "node list \<Rightarrow> nat \<Rightarrow> nat \<Rightarrow> nat \<Rightarrow> byte list result" where
  "memcpy_from ns i off n =
     (if i < length ns \<and> off + n \<le> length (n_ptr (ns ! i))
      then Inr (take n (drop off (n_ptr (ns ! i))))
      else Inl Out_of_bounds)"

definition getReadSize :: "byte_array \<Rightarrow> nat" where
  "getReadSize b = m_size b - m_position b"

definition getCapacity :: "byte_array \<Rightarrow> nat" where
  "getCapacity b = m_capacity b - m_position b"

text \<open>The loop of \<open>addCapacity\<close> that appends \<open>block_cnt\<close> nodes.\<close>

primrec add_blocks :: "nat \<Rightarrow> byte_array \<Rightarrow> byte_array" where
  "add_blocks 0 b = b"
| "add_blocks (Suc n) b =
     add_blocks n (b\<lparr>m_nodes := m_nodes b @ [new_Node (heap_fill b) (heap_allocs b) (m_blocksize b)],
                     heap_allocs := Suc (heap_allocs b),
                     m_capacity := m_capacity b + m_blocksize b\<rparr>)"

definition addCapacity :: "byte_array \<Rightarrow> nat \<Rightarrow> byte_array result" where
  "addCapacity b sz =
     (if sz = 0 then Inr b
      else let last_cap = getCapacity b in
      if last_cap \<ge> sz then Inr b
      else if m_blocksize b = 0 then Inl Div_by_zero
      else
        let block_cnt = (sz - last_cap + m_blocksize b - 1) div m_blocksize b;
            fst_new = (if block_cnt = 0 then None else Some (length (m_nodes b)));
            b1 = add_blocks block_cnt b
        in Inr (if last_cap = 0 then b1\<lparr>m_cur := fst_new\<rparr> else b1))"

text \<open>
  The copy loop of \<open>write\<close>; the bytes of \<open>buf\<close> from \<open>bpos\<close> on are the argument \<open>rest\<close>, whose
  length is the loop's \<open>size\<close>.
\<close>

function write_loop ::
  "node list \<Rightarrow> nat option \<Rightarrow> nat \<Rightarrow> nat \<Rightarrow> nat \<Rightarrow> byte list \<Rightarrow> (node list \<times> nat option \<times> nat) result"
where
  "write_loop ns cur pos npos ncap rest =
     (if rest = [] then Inr (ns, cur, pos)
      else case cur of
        None \<Rightarrow> Inl Null_deref
      | Some i \<Rightarrow>
          if ncap \<ge> length rest then
            rbind (memcpy_to ns i npos rest) (\<lambda>ns'.
              Inr (ns', if n_size (ns' ! i) = npos + length rest then next_node ns' i else Some i,
                   pos + length rest))
          else
            rbind (memcpy_to ns i npos (take ncap rest)) (\<lambda>ns'.
              case next_node ns' i of
                None \<Rightarrow> Inl Null_deref
              | Some j \<Rightarrow>
                  write_loop ns' (Some j) (pos + ncap) 0 (n_size (ns' ! j)) (drop ncap rest)))"
  by pat_completeness auto
termination
  by (relation "measure (\<lambda>(ns, cur, _). case cur of None \<Rightarrow> 0 | Some i \<Rightarrow> length ns - i)")
     (auto simp: memcpy_to_def next_node_def split: if_splits)

definition ba_write :: "byte_array \<Rightarrow> byte list \<Rightarrow> byte_array result" where
  "ba_write b buf =
     (if length buf = 0 then Inr b
      else rbind (addCapacity b (length buf)) (\<lambda>b.
        if m_blocksize b = 0 then Inl Div_by_zero
        else let npos = m_position b mod m_blocksize b in
        case m_cur b of
          None \<Rightarrow> Inl Null_deref
        | Some i \<Rightarrow>
            let ncap = n_size (m_nodes b ! i) - npos in
            rbind (write_loop (m_nodes b) (Some i) (m_position b) npos ncap buf) (\<lambda>(ns, cur, pos).
              Inr (b\<lparr>m_nodes := ns, m_cur := cur, m_position := pos,
                     m_size := (if pos > m_size b then pos else m_size b)\<rparr>))))"

text \<open>The copy loop the two overloads of \<open>read\<close> share.\<close>

function read_loop ::
  "node list \<Rightarrow> nat option \<Rightarrow> nat \<Rightarrow> nat \<Rightarrow> nat \<Rightarrow> nat \<Rightarrow> (byte list \<times> nat option \<times> nat) result"
where
  "read_loop ns cur pos npos ncap sz =
     (if sz = 0 then Inr ([], cur, pos)
      else case cur of
        None \<Rightarrow> Inl Null_deref
      | Some i \<Rightarrow>
          if ncap \<ge> sz then
            rbind (memcpy_from ns i npos sz) (\<lambda>bs.
              Inr (bs, if n_size (ns ! i) = npos + sz then next_node ns i else Some i, pos + sz))
          else
            rbind (memcpy_from ns i npos ncap) (\<lambda>bs.
              case next_node ns i of
                None \<Rightarrow> Inl Null_deref
              | Some j \<Rightarrow>
                  rbind (read_loop ns (Some j) (pos + ncap) 0 (n_size (ns ! j)) (sz - ncap))
                    (\<lambda>(bs', cur', pos'). Inr (bs @ bs', cur', pos'))))"
  by pat_completeness auto
termination
  by (relation "measure (\<lambda>(ns, cur, _). case cur of None \<Rightarrow> 0 | Some i \<Rightarrow> length ns - i)")
     (auto simp: next_node_def split: if_splits)

definition ba_read :: "byte_array \<Rightarrow> nat \<Rightarrow> (byte list \<times> byte_array) result" where
  "ba_read b sz =
     (if sz > getReadSize b then Inl Out_of_range
      else if m_blocksize b = 0 then Inl Div_by_zero
      else let npos = m_position b mod m_blocksize b in
      case m_cur b of
        None \<Rightarrow> Inl Null_deref
      | Some i \<Rightarrow>
          let ncap = n_size (m_nodes b ! i) - npos in
          rbind (read_loop (m_nodes b) (Some i) (m_position b) npos ncap sz) (\<lambda>(bs, cur, pos).
            Inr (bs, b\<lparr>m_cur := cur, m_position := pos\<rparr>)))"

text \<open>\<open>read(void* buf, size_t size, size_t pos) const\<close>: it starts at the node of the cursor.\<close>

definition ba_read_at :: "byte_array \<Rightarrow> nat \<Rightarrow> nat \<Rightarrow> byte list result" where
  "ba_read_at b sz pos =
     (if sz > getReadSize b then Inl Out_of_range
      else if m_blocksize b = 0 then Inl Div_by_zero
      else let npos = pos mod m_blocksize b in
      case m_cur b of
        None \<Rightarrow> Inl Null_deref
      | Some i \<Rightarrow>
          let ncap = n_size (m_nodes b ! i) - npos in
          rbind (read_loop (m_nodes b) (Some i) pos npos ncap sz) (\<lambda>(bs, _, _). Inr bs))"

definition ba_clear :: "byte_array \<Rightarrow> byte_array" where
  "ba_clear b = b\<lparr>m_position := 0, m_size := 0, m_capacity := m_blocksize b,
               m_nodes := take 1 (m_nodes b), m_cur := Some 0\<rparr>"

fun seek_loop :: "node list \<Rightarrow> nat \<Rightarrow> nat \<Rightarrow> nat option result" where
  "seek_loop [] i val = Inl Null_deref"
| "seek_loop (n # ns) i val =
     (if val > n_size n then seek_loop ns (Suc i) (val - n_size n)
      else if val = n_size n then Inr (if ns = [] then None else Some (Suc i))
      else Inr (Some i))"

definition setPosition :: "byte_array \<Rightarrow> nat \<Rightarrow> byte_array result" where
  "setPosition b val =
     (if val > m_capacity b then Inl Out_of_range
      else
        let b1 = b\<lparr>m_position := val, m_size := (if val > m_size b then val else m_size b)\<rparr> in
        rbind (seek_loop (m_nodes b1) 0 val) (\<lambda>cur. Inr (b1\<lparr>m_cur := cur\<rparr>)))"

definition ba_toString :: "byte_array \<Rightarrow> byte list result" where
  "ba_toString b =
     (if getReadSize b = 0 then Inr [] else ba_read_at b (getReadSize b) (m_position b))"

definition isLittleEndian :: "byte_array \<Rightarrow> bool" where
  "isLittleEndian b \<longleftrightarrow> m_endian b = WINDGENT_LITTLE_ENDIAN"

definition setIsLittleEndian :: "byte_array \<Rightarrow> bool \<Rightarrow> byte_array" where
  "setIsLittleEndian b val =
     (if val then b\<lparr>m_endian := WINDGENT_LITTLE_ENDIAN\<rparr> else b\<lparr>m_endian := WINDGENT_BIG_ENDIAN\<rparr>)"


definition hex_digit :: "nat \<Rightarrow> char" where
  "hex_digit d = ''0123456789abcdef'' ! d"

text \<open>\<open>std::setw(2) << std::setfill('0') << std::hex << (int)(uint8_t)str[i] << " "\<close>.\<close>

definition hex_byte :: "byte \<Rightarrow> string" where
  "hex_byte b = [hex_digit (unat b div 16), hex_digit (unat b mod 16), CHR '' '']"

definition ba_toHexString :: "byte_array \<Rightarrow> string result" where
  "ba_toHexString b =
     rbind (ba_toString b) (\<lambda>str.
       Inr (concat (map (\<lambda>i. (if i > 0 \<and> i mod 32 = 0 then [CHR 0x0A] else []) @ hex_byte (str ! i))
                        [0 ..< length str])))"

text \<open>
  \<open>writeToFile\<close>: whether the file opens is an argument, the bytes handed to \<open>ofs.write\<close> are part of
  the result.
\<close>

function wtf_loop :: "node list \<Rightarrow> nat option \<Rightarrow> nat \<Rightarrow> nat \<Rightarrow> nat \<Rightarrow> byte list result" where
  "wtf_loop ns cur B pos read_size =
     (if read_size = 0 then Inr []
      else case cur of
        None \<Rightarrow> Inl Null_deref
      | Some i \<Rightarrow>
          let diff = pos mod B;
              len = (if read_size > B then B - diff else read_size)
          in rbind (memcpy_from ns i diff len) (\<lambda>bs.
             rbind (wtf_loop ns (next_node ns i) B (pos + len) (read_size - len)) (\<lambda>bs'.
               Inr (bs @ bs'))))"
  by pat_completeness auto
termination
  by (relation "measure (\<lambda>(ns, cur, _). case cur of None \<Rightarrow> 0 | Some i \<Rightarrow> Suc (length ns - i))")
     (auto simp: next_node_def memcpy_from_def split: if_splits)

definition writeToFile :: "bool \<Rightarrow> byte_array \<Rightarrow> (bool \<times> byte list) result" where
  "writeToFile opens b =
     (if \<not> opens then Inr (False, [])
      else if m_blocksize b = 0 \<and> getReadSize b > 0 then Inl Div_by_zero
      else rbind (wtf_loop (m_nodes b) (m_cur b) (m_blocksize b) (m_position b) (getReadSize b))
             (\<lambda>bs. Inr (True, bs)))"

text \<open>
  \<open>readFromFile\<close>: the argument is the content of the file, \<open>None\<close> when it does not open. The loop
  ends when a read of a whole block meets the end of the file.
\<close>

partial_function (option) rff_loop :: "byte_array \<Rightarrow> byte list \<Rightarrow> byte_array result option" where
  "rff_loop b content =
     (case ba_write b (take (m_blocksize b) content) of
        Inl e \<Rightarrow> Some (Inl e)
      | Inr b' \<Rightarrow>
          if length content < m_blocksize b then Some (Inr b')
          else rff_loop b' (drop (m_blocksize b) content))"

definition readFromFile :: "byte list option \<Rightarrow> byte_array \<Rightarrow> (bool \<times> byte_array) result option" where
  "readFromFile file b =
     (case file of
        None \<Rightarrow> Some (Inr (False, b))
      | Some content \<Rightarrow>
          map_option (\<lambda>r. rbind r (\<lambda>b'. Inr (True, b'))) (rff_loop b content))"

text \<open>The loop that the three functions returning \<open>iovec\<close>s share, bases as they are in the source.\<close>

function iov_loop :: "node list \<Rightarrow> nat option \<Rightarrow> nat \<Rightarrow> nat \<Rightarrow> nat \<Rightarrow> iovec list result" where
  "iov_loop ns cur npos ncap len =
     (if len = 0 then Inr []
      else case cur of
        None \<Rightarrow> Inl Null_deref
      | Some i \<Rightarrow>
          if ncap \<ge> len then Inr [\<lparr>iov_node = i, iov_off = npos, iov_len = len\<rparr>]
          else (case next_node ns i of
            None \<Rightarrow> Inl Null_deref
          | Some j \<Rightarrow>
              rbind (iov_loop ns (Some j) 0 (n_size (ns ! j)) (len - ncap)) (\<lambda>vs.
                Inr (\<lparr>iov_node = i, iov_off = ncap, iov_len = ncap\<rparr> # vs))))"
  by pat_completeness auto
termination
  by (relation "measure (\<lambda>(ns, cur, _). case cur of None \<Rightarrow> 0 | Some i \<Rightarrow> length ns - i)")
     (auto simp: next_node_def split: if_splits)

definition iov_from :: "byte_array \<Rightarrow> nat option \<Rightarrow> nat \<Rightarrow> nat \<Rightarrow> (nat \<times> iovec list) result" where
  "iov_from b cur npos len =
     (case cur of
        None \<Rightarrow> Inl Null_deref
      | Some i \<Rightarrow>
          rbind (iov_loop (m_nodes b) (Some i) npos (n_size (m_nodes b ! i) - npos) len)
            (\<lambda>vs. Inr (len, vs)))"

definition getReadBuffers :: "byte_array \<Rightarrow> nat \<Rightarrow> (nat \<times> iovec list) result" where
  "getReadBuffers b len =
     (if len = 0 then Inr (0, [])
      else
        let len = (if len > getReadSize b then getReadSize b else len) in
        if m_blocksize b = 0 then Inl Div_by_zero
        else iov_from b (m_cur b) (m_position b mod m_blocksize b) len)"

definition getReadBuffers_at :: "byte_array \<Rightarrow> nat \<Rightarrow> nat \<Rightarrow> (nat \<times> iovec list) result" where
  "getReadBuffers_at b len pos =
     (if len = 0 then Inr (0, [])
      else
        let len = (if len > getReadSize b then getReadSize b else len) in
        if m_blocksize b = 0 then Inl Div_by_zero
        else
          let block_cnt = pos div m_blocksize b;
              cur = (if block_cnt < length (m_nodes b) then Some block_cnt else None)
          in iov_from b cur (pos mod m_blocksize b) len)"

definition getWriteBuffers :: "byte_array \<Rightarrow> nat \<Rightarrow> ((nat \<times> iovec list) \<times> byte_array) result" where
  "getWriteBuffers b len =
     (if len = 0 then Inr ((0, []), b)
      else rbind (addCapacity b len) (\<lambda>b.
        if m_blocksize b = 0 then Inl Div_by_zero
        else rbind (iov_from b (m_cur b) (m_position b mod m_blocksize b) len)
               (\<lambda>vs. Inr (vs, b))))"


declare write_loop.simps [simp del] read_loop.simps [simp del]
  wtf_loop.simps [simp del] iov_loop.simps [simp del]

lemmas copy_loop_simps = write_loop.simps read_loop.simps wtf_loop.simps iov_loop.simps

section \<open>Invariant and abstraction\<close>

text \<open>The bytes of the whole chain, and the bytes between the cursor and the end of the data.\<close>

definition chain :: "node list \<Rightarrow> byte list" where
  "chain ns = concat (map n_ptr ns)"

definition blocks :: "nat \<Rightarrow> node list \<Rightarrow> bool" where
  "blocks B ns \<longleftrightarrow> (\<forall>n \<in> set ns. n_size n = B \<and> length (n_ptr n) = B)"

definition cursor :: "nat \<Rightarrow> nat \<Rightarrow> nat \<Rightarrow> nat option" where
  "cursor B N pos = (if pos < N * B then Some (pos div B) else None)"

definition ba_inv :: "byte_array \<Rightarrow> bool" where
  "ba_inv b \<longleftrightarrow>
     0 < m_blocksize b \<and> m_nodes b \<noteq> [] \<and> blocks (m_blocksize b) (m_nodes b) \<and>
     m_capacity b = length (m_nodes b) * m_blocksize b \<and>
     m_position b \<le> m_size b \<and> m_size b \<le> m_capacity b \<and>
     m_cur b = cursor (m_blocksize b) (length (m_nodes b)) (m_position b)"

definition ba_data :: "byte_array \<Rightarrow> byte list" where
  "ba_data b = take (m_size b) (chain (m_nodes b))"

definition readable :: "byte_array \<Rightarrow> byte list" where
  "readable b = drop (m_position b) (ba_data b)"

lemma blocks_uniform: "blocks B ns \<Longrightarrow> uniform B (map n_ptr ns)"
  by (auto simp: blocks_def uniform_def)

lemma blocks_nth [simp]:
  "blocks B ns \<Longrightarrow> i < length ns \<Longrightarrow> n_size (ns ! i) = B \<and> length (n_ptr (ns ! i)) = B"
  by (auto simp: blocks_def)

lemma blocks_append [simp]: "blocks B (ns @ ms) \<longleftrightarrow> blocks B ns \<and> blocks B ms"
  by (auto simp: blocks_def)

lemma length_chain: "blocks B ns \<Longrightarrow> length (chain ns) = length ns * B"
  using length_concat_uniform [OF blocks_uniform] by (simp add: chain_def)

lemma cursor_block [simp]: "i < N \<Longrightarrow> q < B \<Longrightarrow> cursor B N (i * B + q) = Some i"
proof -
  assume "i < N" "q < B"
  then have "i * B + q < Suc i * B" "Suc i * B \<le> N * B" by (simp, intro mult_le_mono1, simp)
  then show ?thesis using \<open>q < B\<close> by (auto simp: cursor_def)
qed

lemma cursor_block_end:
  assumes "i < N" "0 < B"
  shows "cursor B N (i * B + B) = (if Suc i < N then Some (Suc i) else None)"
proof (cases "Suc i < N")
  case True
  then show ?thesis using cursor_block [of "Suc i" N 0 B] assms by (simp add: add.commute)
next
  case False
  with assms have "N = Suc i" by simp
  then show ?thesis by (simp add: cursor_def)
qed

lemma memcpy_to_block:
  assumes "blocks B ns" "i < length ns" "q + length bs \<le> B"
  obtains ns' where "memcpy_to ns i q bs = Inr ns'" "blocks B ns'" "length ns' = length ns"
    "chain ns' = splice_at (i * B + q) bs (chain ns)"
proof
  let ?n = "(ns ! i)\<lparr>n_ptr := splice_at q bs (n_ptr (ns ! i))\<rparr>"
  have len: "n_size (ns ! i) = B" "length (n_ptr (ns ! i)) = B"
    using assms by simp_all
  show "memcpy_to ns i q bs = Inr (ns[i := ?n])"
    using assms len by (simp add: memcpy_to_def)
  show "blocks B (ns[i := ?n])"
    using assms len by (auto simp: blocks_def dest!: set_update_subset_insert [THEN subsetD])
  show "length (ns[i := ?n]) = length ns" by simp
  have "chain (ns[i := ?n]) = concat ((map n_ptr ns)[i := splice_at q bs (map n_ptr ns ! i)])"
    using assms(2) by (simp add: chain_def map_update)
  also have "\<dots> = splice_at (i * B + q) bs (chain ns)"
    using concat_splice_block [OF blocks_uniform [OF assms(1)] _ assms(3), of i] assms(2)
    by (simp add: chain_def)
  finally show "chain (ns[i := ?n]) = splice_at (i * B + q) bs (chain ns)" .
qed

lemma memcpy_from_block:
  assumes "blocks B ns" "i < length ns" "q + n \<le> B"
  shows "memcpy_from ns i q n = Inr (take n (drop (i * B + q) (chain ns)))"
  using assms block_slice [OF blocks_uniform [OF assms(1)], of i q n]
  by (simp add: memcpy_from_def chain_def)

section \<open>The copy loops\<close>

lemma write_loop_spec:
  assumes "blocks B ns" "i < length ns" "q < B" "i * B + q + length rest \<le> length ns * B"
  shows "\<exists>ns'. write_loop ns (Some i) (i * B + q) q (B - q) rest
           = Inr (ns', cursor B (length ns) (i * B + q + length rest), i * B + q + length rest)
         \<and> blocks B ns' \<and> length ns' = length ns
         \<and> chain ns' = splice_at (i * B + q) rest (chain ns)"
  using assms
proof (induction "length rest" arbitrary: ns i q rest rule: less_induct)
  case less
  note prems = less.prems
  show ?case
  proof (cases "rest = []")
    case True
    with prems show ?thesis by (simp add: write_loop.simps)
  next
    case False
    show ?thesis
    proof (cases "length rest \<le> B - q")
      case True
      then obtain ns' where ns': "memcpy_to ns i q rest = Inr ns'" "blocks B ns'"
        "length ns' = length ns" "chain ns' = splice_at (i * B + q) rest (chain ns)"
        using memcpy_to_block [OF prems(1,2), of q rest] prems(3)
        by (metis add.commute le_diff_conv2 less_imp_le_nat)
      have "cursor B (length ns) (i * B + q + length rest)
          = (if q + length rest = B then next_node ns' i else Some i)"
        using cursor_block_end [OF prems(2)] cursor_block [OF prems(2), of "q + length rest"]
          prems(3) True ns'(3) by (auto simp: next_node_def add.assoc)
      with True False ns' prems show ?thesis by (simp add: write_loop.simps add.assoc)
    next
      case big: False
      let ?k = "B - q"
      have k: "length (take ?k rest) = ?k" "q + ?k = B" using big prems(3) by auto
      then obtain ns' where ns': "memcpy_to ns i q (take ?k rest) = Inr ns'" "blocks B ns'"
        "length ns' = length ns" "chain ns' = splice_at (i * B + q) (take ?k rest) (chain ns)"
        using memcpy_to_block [OF prems(1,2), of q "take ?k rest"] by (metis order.refl)
      have "i * B + B < length ns * B" using prems(4) big k(2) by linarith
      then have "(Suc i) * B < length ns * B" by (simp add: add.commute)
      then have i': "Suc i < length ns'" unfolding ns'(3) by (rule mult_right_less_imp_less) simp
      have rest: "Suc i * B + 0 + length (drop ?k rest) \<le> length ns' * B"
        using prems(4) big k(2) ns'(3) by (simp add: algebra_simps)
      have "length (drop ?k rest) < length rest" using prems(3) False by (cases rest) auto
      from less.hyps [OF this ns'(2) i' _ rest] prems(3) obtain ns'' where ns'':
        "write_loop ns' (Some (Suc i)) (Suc i * B) 0 B (drop ?k rest)
           = Inr (ns'', cursor B (length ns') (Suc i * B + length (drop ?k rest)),
                  Suc i * B + length (drop ?k rest))"
        "blocks B ns''" "length ns'' = length ns'"
        "chain ns'' = splice_at (Suc i * B) (drop ?k rest) (chain ns')"
        by auto
      have pos: "i * B + q + ?k = Suc i * B" using k(2) by simp
      have len: "Suc i * B + length (drop ?k rest) = i * B + q + length rest"
        using big k(2) by (simp add: algebra_simps)
      have "chain ns'' = splice_at (i * B + q) (take ?k rest @ drop ?k rest) (chain ns)"
      proof -
        have "i * B + q + length (take ?k rest) \<le> length (chain ns)"
          using length_chain [OF prems(1)] prems(4) by simp
        from splice_at_append [OF this, of "drop ?k rest"] show ?thesis
          unfolding ns''(4) ns'(4) using k pos by (simp add: ac_simps)
      qed
      moreover have "write_loop ns (Some i) (i * B + q) q (B - q) rest
          = write_loop ns' (Some (Suc i)) (Suc i * B) 0 B (drop ?k rest)"
        using False big ns' i' pos by (subst write_loop.simps) (simp add: next_node_def add.commute)
      ultimately show ?thesis using ns'' ns'(3) len by (simp add: add.commute add.left_commute)
    qed
  qed
qed


lemma read_loop_spec:
  assumes "blocks B ns" "i < length ns" "q < B" "i * B + q + n \<le> length ns * B"
  shows "read_loop ns (Some i) (i * B + q) q (B - q) n
           = Inr (take n (drop (i * B + q) (chain ns)),
                  cursor B (length ns) (i * B + q + n), i * B + q + n)"
  using assms
proof (induction n arbitrary: i q rule: less_induct)
  case (less n)
  note prems = less.prems
  show ?case
  proof (cases "n = 0")
    case True
    with prems show ?thesis by (simp add: read_loop.simps)
  next
    case False
    show ?thesis
    proof (cases "n \<le> B - q")
      case True
      have "cursor B (length ns) (i * B + q + n) = (if q + n = B then next_node ns i else Some i)"
        using cursor_block_end [OF prems(2)] cursor_block [OF prems(2), of "q + n"] prems(3) True
        by (auto simp: next_node_def add.assoc)
      with True False prems memcpy_from_block [OF prems(1,2), of q n] show ?thesis
        by (simp add: read_loop.simps add.assoc)
    next
      case big: False
      let ?k = "B - q"
      have k: "q + ?k = B" using prems(3) by simp
      have "i * B + B < length ns * B" using prems(4) big k by linarith
      then have "(Suc i) * B < length ns * B" by (simp add: add.commute)
      then have i': "Suc i < length ns" by (rule mult_right_less_imp_less) simp
      have pos: "i * B + q + ?k = Suc i * B" using k by simp
      have n': "Suc i * B + 0 + (n - ?k) \<le> length ns * B"
        using prems(4) big k by (simp add: algebra_simps)
      have IH: "read_loop ns (Some (Suc i)) (Suc i * B) 0 B (n - ?k)
          = Inr (take (n - ?k) (drop (Suc i * B) (chain ns)),
                 cursor B (length ns) (Suc i * B + (n - ?k)), Suc i * B + (n - ?k))"
        using less.IH [OF _ prems(1) i' _ n'] prems(3) False by simp
      have "take n (drop (i * B + q) (chain ns))
          = take ?k (drop (i * B + q) (chain ns)) @ take (n - ?k) (drop (Suc i * B) (chain ns))"
        using take_add [of ?k "n - ?k" "drop (i * B + q) (chain ns)"] big pos
        by (simp add: drop_drop add.commute)
      moreover have "Suc i * B + (n - ?k) = i * B + q + n" using big k by (simp add: algebra_simps)
      ultimately show ?thesis
        using False big i' pos IH memcpy_from_block [OF prems(1,2), of q ?k] k prems(1)
        by (subst read_loop.simps) (simp add: next_node_def add.commute)
    qed
  qed
qed

lemma seek_loop_spec:
  assumes "blocks B ns" "0 < B" "ns \<noteq> []" "val \<le> length ns * B"
  shows "seek_loop ns j val
           = Inr (if val < length ns * B then Some (j + val div B) else None)"
  using assms
proof (induction ns arbitrary: j val)
  case (Cons n ns)
  then have n: "n_size n = B" "blocks B ns" by (auto simp: blocks_def)
  show ?case
  proof (cases "val > B")
    case True
    with Cons.prems have "ns \<noteq> []" by auto
    moreover from True Cons.prems(4) have "val - B \<le> length ns * B" by simp
    moreover have "val div B = Suc ((val - B) div B)" using True Cons.prems(2) by (simp add: le_div_geq)
    ultimately show ?thesis using True n Cons.IH [OF n(2) Cons.prems(2)] by auto
  next
    case False
    then show ?thesis using n Cons.prems(2) by (cases "val = B") auto
  qed
qed simp

section \<open>Growing\<close>

lemma add_blocks_fields [simp]:
  "m_blocksize (add_blocks k b) = m_blocksize b"
  "m_position (add_blocks k b) = m_position b"
  "m_size (add_blocks k b) = m_size b"
  "m_endian (add_blocks k b) = m_endian b"
  "m_cur (add_blocks k b) = m_cur b"
  "m_capacity (add_blocks k b) = m_capacity b + k * m_blocksize b"
  "length (m_nodes (add_blocks k b)) = length (m_nodes b) + k"
  by (induction k arbitrary: b) auto

lemma add_blocks_nodes:
  "blocks (m_blocksize b) (m_nodes b) \<Longrightarrow>
   blocks (m_blocksize b) (m_nodes (add_blocks k b)) \<and>
   (\<exists>junk. m_nodes (add_blocks k b) = m_nodes b @ junk)"
proof (induction k arbitrary: b)
  case (Suc k)
  let ?b = "b\<lparr>m_nodes := m_nodes b @ [new_Node (heap_fill b) (heap_allocs b) (m_blocksize b)],
              heap_allocs := Suc (heap_allocs b), m_capacity := m_capacity b + m_blocksize b\<rparr>"
  have "blocks (m_blocksize ?b) (m_nodes ?b)"
    using Suc.prems by (simp add: blocks_def new_Node_def)
  from Suc.IH [OF this] show ?case by auto
qed simp

lemma ba_invD:
  assumes "ba_inv b"
  shows "0 < m_blocksize b" "m_nodes b \<noteq> []" "blocks (m_blocksize b) (m_nodes b)"
    "m_capacity b = length (m_nodes b) * m_blocksize b"
    "m_position b \<le> m_size b" "m_size b \<le> m_capacity b"
    "m_cur b = cursor (m_blocksize b) (length (m_nodes b)) (m_position b)"
  using assms by (auto simp: ba_inv_def)

text \<open>
  After \<open>addCapacity b n\<close> there is room for \<open>n\<close> bytes, the invariant holds, and the old chain is a
  prefix of the new one; nothing the data depends on has changed.
\<close>

lemma addCapacity_spec:
  assumes "ba_inv b"
  obtains b' junk where "addCapacity b n = Inr b'" "ba_inv b'" "n \<le> getCapacity b'"
    "m_nodes b' = m_nodes b @ junk" "m_position b' = m_position b" "m_size b' = m_size b"
    "m_blocksize b' = m_blocksize b" "m_endian b' = m_endian b" "n \<le> getCapacity b \<Longrightarrow> b' = b"
proof (cases "n \<le> getCapacity b")
  case True
  then have "addCapacity b n = Inr b" by (simp add: addCapacity_def)
  with True assms show ?thesis by (intro that [of b "[]"]) auto
next
  case False
  note inv = ba_invD [OF assms]
  let ?B = "m_blocksize b"
  define k where "k = (n - getCapacity b + ?B - 1) div ?B"
  let ?b = "add_blocks k b"
  let ?b' = "if getCapacity b = 0 then ?b\<lparr>m_cur := Some (length (m_nodes b))\<rparr> else ?b"
  have "?B * k \<ge> n - getCapacity b"
    unfolding k_def using inv(1) mult_div_mod_eq [of ?B "n - getCapacity b + ?B - 1"]
      mod_less_divisor [OF inv(1), of "n - getCapacity b + ?B - 1"] by linarith
  then have grow: "n - getCapacity b \<le> k * ?B" by (simp add: mult.commute)
  have kpos: "0 < k" using False inv(1) grow by (cases "k = 0") auto
  have call: "addCapacity b n = Inr ?b'"
    unfolding addCapacity_def Let_def k_def [symmetric] using False inv(1) kpos by auto
  obtain junk where nodes: "blocks ?B (m_nodes ?b)" "m_nodes ?b = m_nodes b @ junk"
    using add_blocks_nodes [OF inv(3), of k] by auto
  have k: "k = length junk" using arg_cong [OF nodes(2), of length] by simp
  have cur: "m_cur ?b' = cursor ?B (length (m_nodes b) + k) (m_position b)"
  proof (cases "getCapacity b = 0")
    case True
    then have "m_position b = length (m_nodes b) * ?B + 0"
      using inv(4-6) by (simp add: getCapacity_def)
    then show ?thesis
      using True inv(1) kpos cursor_block [of "length (m_nodes b)" "length (m_nodes b) + k" 0 ?B]
      by simp
  next
    case False
    then have "m_position b < length (m_nodes b) * ?B" using inv(4) by (simp add: getCapacity_def)
    then show ?thesis using False inv(7) by (auto simp: cursor_def algebra_simps)
  qed
  have "ba_inv ?b'"
    using inv nodes cur k by (auto simp: ba_inv_def algebra_simps)
  moreover have "n \<le> getCapacity ?b'"
    using grow inv(4-6) by (auto simp: getCapacity_def)
  ultimately show ?thesis
    using call nodes(2) False by (intro that [of ?b' junk]) auto
qed


section \<open>The operations on the data\<close>

lemma cursor_nth:
  assumes "ba_inv b" "m_position b < m_capacity b"
  shows "m_cur b = Some (m_position b div m_blocksize b)"
    "m_position b div m_blocksize b < length (m_nodes b)"
  using assms ba_invD [OF assms(1)] by (auto simp: cursor_def less_mult_imp_div_less)

lemma ba_inv_new: "0 < B \<Longrightarrow> ba_inv (ByteArray_new fill B)"
  by (simp add: ba_inv_def ByteArray_new_def new_Node_def blocks_def cursor_def)

text \<open>What \<open>write\<close> does to the cursor, to the size and to the bytes of the chain.\<close>

lemma ba_write_spec:
  assumes inv: "ba_inv b" and ne: "bs \<noteq> []"
  obtains b' junk where "ba_write b bs = Inr b'" "ba_inv b'"
    "m_position b' = m_position b + length bs" "m_size b' = max (m_size b) (m_position b + length bs)"
    "m_blocksize b' = m_blocksize b" "m_endian b' = m_endian b"
    "chain (m_nodes b') = splice_at (m_position b) bs (chain (m_nodes b) @ junk)"
    "m_position b + length bs \<le> length (chain (m_nodes b) @ junk)"
    "length bs \<le> getCapacity b \<Longrightarrow> m_capacity b' = m_capacity b"
proof -
  obtain b1 junk where b1: "addCapacity b (length bs) = Inr b1" "ba_inv b1"
    "length bs \<le> getCapacity b1" "m_nodes b1 = m_nodes b @ junk" "m_position b1 = m_position b"
    "m_size b1 = m_size b" "m_blocksize b1 = m_blocksize b" "m_endian b1 = m_endian b"
    "length bs \<le> getCapacity b \<Longrightarrow> b1 = b"
    using addCapacity_spec [OF inv] by metis
  note inv1 = ba_invD [OF b1(2)]
  let ?B = "m_blocksize b1" and ?ns = "m_nodes b1" and ?pos = "m_position b1"
  have room: "?pos + length bs \<le> length ?ns * ?B"
    using b1(3) inv1(4-6) by (simp add: getCapacity_def)
  have "?pos < m_capacity b1" using room ne inv1(4) by (cases bs) auto
  note cur = cursor_nth [OF b1(2) this]
  have pos: "?pos div ?B * ?B + ?pos mod ?B = ?pos" by simp
  obtain ns' where ns': "write_loop ?ns (Some (?pos div ?B)) ?pos (?pos mod ?B) (?B - ?pos mod ?B) bs
      = Inr (ns', cursor ?B (length ?ns) (?pos + length bs), ?pos + length bs)"
    "blocks ?B ns'" "length ns' = length ?ns" "chain ns' = splice_at ?pos bs (chain ?ns)"
    using write_loop_spec [OF inv1(3) cur(2), of "?pos mod ?B" bs] room inv1(1) unfolding pos by auto
  let ?b' = "b1\<lparr>m_nodes := ns', m_cur := cursor ?B (length ?ns) (?pos + length bs),
               m_position := ?pos + length bs,
               m_size := (if ?pos + length bs > m_size b1 then ?pos + length bs else m_size b1)\<rparr>"
  have "ba_write b bs = Inr ?b'"
    using ne b1(1) inv1(1,3) cur ns'(1) by (simp add: ba_write_def Let_def)
  moreover have "ba_inv ?b'"
    using inv1 ns' room by (auto simp: ba_inv_def)
  moreover have "chain ns' = splice_at (m_position b) bs (chain (m_nodes b) @ chain junk)"
    using ns'(4) b1(4,5) by (simp add: chain_def)
  moreover have "m_position b + length bs \<le> length (chain (m_nodes b) @ chain junk)"
    using room length_chain [OF inv1(3)] b1(4,5) by (simp add: chain_def)
  ultimately show ?thesis using b1 by (intro that [of ?b' "chain junk"]) auto
qed

lemma length_ba_data: "ba_inv b \<Longrightarrow> length (ba_data b) = m_size b"
  using ba_invD [of b] by (simp add: ba_data_def length_chain)

lemma length_readable: "ba_inv b \<Longrightarrow> length (readable b) = getReadSize b"
  by (simp add: readable_def length_ba_data getReadSize_def)

text \<open>On the level of the data, \<open>write\<close> overwrites at the cursor and extends at the end.\<close>

lemma ba_write_data:
  assumes inv: "ba_inv b"
  obtains b' where "ba_write b bs = Inr b'" "ba_inv b'" "m_position b' = m_position b + length bs"
    "m_blocksize b' = m_blocksize b" "m_endian b' = m_endian b"
    "ba_data b' = take (m_position b) (ba_data b) @ bs @ drop (m_position b + length bs) (ba_data b)"
proof (cases "bs = []")
  case True
  then show ?thesis using inv by (intro that [of b]) (auto simp: ba_write_def)
next
  case False
  obtain b' junk where b': "ba_write b bs = Inr b'" "ba_inv b'"
    "m_position b' = m_position b + length bs" "m_size b' = max (m_size b) (m_position b + length bs)"
    "m_blocksize b' = m_blocksize b" "m_endian b' = m_endian b"
    "chain (m_nodes b') = splice_at (m_position b) bs (chain (m_nodes b) @ junk)"
    "m_position b + length bs \<le> length (chain (m_nodes b) @ junk)"
    using ba_write_spec [OF inv False] by metis
  have len: "m_position b \<le> m_size b" "m_size b \<le> length (chain (m_nodes b))"
    using ba_invD [OF inv] by (simp_all add: length_chain)
  have "ba_data b' = take (m_position b) (ba_data b) @ bs @ drop (m_position b + length bs) (ba_data b)"
    using b'(4,7,8) len by (auto simp: ba_data_def splice_at_def drop_take max_def min_def)
  with b' show ?thesis by (intro that [of b']) auto
qed

lemma ba_read_spec:
  assumes inv: "ba_inv b" and n: "n \<le> getReadSize b" and pos: "m_position b < m_capacity b"
  obtains b' where "ba_read b n = Inr (take n (readable b), b')" "ba_inv b'"
    "m_position b' = m_position b + n" "ba_data b' = ba_data b" "m_endian b' = m_endian b"
    "m_blocksize b' = m_blocksize b" "m_nodes b' = m_nodes b" "m_capacity b' = m_capacity b"
proof -
  note I = ba_invD [OF inv]
  note cur = cursor_nth [OF inv pos]
  let ?B = "m_blocksize b" and ?p = "m_position b"
  have q: "?p mod ?B < ?B" using I(1) by simp
  have "?p div ?B * ?B + ?p mod ?B + n \<le> length (m_nodes b) * ?B"
    using n I(4-6) by (simp add: getReadSize_def)
  note loop = read_loop_spec [OF I(3) cur(2) q this, simplified]
  let ?b' = "b\<lparr>m_cur := cursor ?B (length (m_nodes b)) (?p + n), m_position := ?p + n\<rparr>"
  have "take n (drop ?p (chain (m_nodes b))) = take n (readable b)"
    using n by (simp add: readable_def ba_data_def drop_take getReadSize_def min_def)
  then have "ba_read b n = Inr (take n (readable b), ?b')"
    using n I(1,3) cur loop by (simp add: ba_read_def Let_def)
  moreover have "ba_inv ?b'"
    using I n by (auto simp: ba_inv_def getReadSize_def)
  ultimately show ?thesis by (intro that [of ?b']) (auto simp: ba_data_def)
qed

lemma setPosition_spec:
  assumes inv: "ba_inv b" and val: "val \<le> m_capacity b"
  obtains b' where "setPosition b val = Inr b'" "ba_inv b'" "m_position b' = val"
    "m_size b' = max (m_size b) val" "m_nodes b' = m_nodes b" "m_endian b' = m_endian b"
    "m_blocksize b' = m_blocksize b" "m_capacity b' = m_capacity b"
proof -
  note I = ba_invD [OF inv]
  let ?b1 = "b\<lparr>m_position := val, m_size := (if val > m_size b then val else m_size b)\<rparr>"
  let ?b' = "?b1\<lparr>m_cur := cursor (m_blocksize b) (length (m_nodes b)) val\<rparr>"
  have "seek_loop (m_nodes b) 0 val = Inr (cursor (m_blocksize b) (length (m_nodes b)) val)"
    using seek_loop_spec [OF I(3,1,2)] val I(4) by (simp add: cursor_def)
  then have "setPosition b val = Inr ?b'" using val by (simp add: setPosition_def Let_def)
  moreover have "ba_inv ?b'" using I val by (auto simp: ba_inv_def)
  ultimately show ?thesis by (intro that [of ?b']) auto
qed

lemma ba_inv_clear: "ba_inv b \<Longrightarrow> ba_inv (ba_clear b)"
  by (cases "m_nodes b") (auto simp: ba_inv_def ba_clear_def cursor_def blocks_def)


section \<open>Dumping and loading\<close>

lemma ba_toString_spec:
  assumes inv: "ba_inv b"
  shows "ba_toString b = Inr (readable b)"
proof (cases "getReadSize b = 0")
  case True
  then show ?thesis using length_readable [OF inv] by (simp add: ba_toString_def)
next
  case False
  note I = ba_invD [OF inv]
  have pos: "m_position b < m_capacity b" using False I(5,6) by (simp add: getReadSize_def)
  note cur = cursor_nth [OF inv pos]
  let ?B = "m_blocksize b" and ?p = "m_position b"
  have "?p div ?B * ?B + ?p mod ?B + getReadSize b \<le> length (m_nodes b) * ?B"
    using I(4-6) by (simp add: getReadSize_def)
  note loop = read_loop_spec [OF I(3) cur(2) mod_less_divisor [OF I(1)] this, simplified]
  have "take (getReadSize b) (drop ?p (chain (m_nodes b))) = readable b"
    by (simp add: readable_def ba_data_def drop_take getReadSize_def)
  then show ?thesis using False I(1,3) cur loop by (simp add: ba_toString_def ba_read_at_def Let_def)
qed

lemma wtf_loop_aligned:
  assumes "blocks B ns" "0 < B" "i * B + r \<le> length ns * B"
  shows "wtf_loop ns (cursor B (length ns) (i * B)) B (i * B) r = Inr (take r (drop (i * B) (chain ns)))"
  using assms(3)
proof (induction r arbitrary: i rule: less_induct)
  case (less r)
  show ?case
  proof (cases "r = 0")
    case True
    then show ?thesis by (simp add: wtf_loop.simps)
  next
    case False
    with less.prems have "i * B < length ns * B" by linarith
    then have i: "i < length ns" by (rule mult_right_less_imp_less) simp
    have cur: "cursor B (length ns) (i * B) = Some i" using cursor_block [OF i assms(2)] by simp
    have nxt: "next_node ns i = cursor B (length ns) (Suc i * B)"
      using cursor_block_end [OF i assms(2)] by (simp add: next_node_def add.commute)
    show ?thesis
    proof (cases "r > B")
      case True
      have cpy: "memcpy_from ns i 0 B = Inr (take B (drop (i * B) (chain ns)))"
        using memcpy_from_block [OF assms(1) i, of 0 B] by simp
      have "Suc i * B + (r - B) \<le> length ns * B" using less.prems True by simp
      from less.IH [OF _ this] True assms(2)
      have rec: "wtf_loop ns (next_node ns i) B (i * B + B) (r - B)
          = Inr (take (r - B) (drop (i * B + B) (chain ns)))"
        unfolding nxt by (simp add: add.commute)
      have "take r (drop (i * B) (chain ns))
          = take B (drop (i * B) (chain ns)) @ take (r - B) (drop (i * B + B) (chain ns))"
        using take_add [of B "r - B" "drop (i * B) (chain ns)"] True by (simp add: add.commute)
      then show ?thesis
        unfolding wtf_loop.simps [of ns _ _ _ r] cur using True cpy rec by (simp add: Let_def)
    next
      case False
      with \<open>r \<noteq> 0\<close> memcpy_from_block [OF assms(1) i, of 0 r] show ?thesis
        unfolding wtf_loop.simps [of ns _ _ _ r] cur by (simp add: Let_def wtf_loop.simps)
    qed
  qed
qed

text \<open>
  \<open>writeToFile\<close> writes the readable bytes, unless they are at most one block long and reach over
  the end of the cursor's block: then it reads past that block.
\<close>

lemma writeToFile_spec:
  assumes inv: "ba_inv b"
  shows "writeToFile True b =
    (if getReadSize b \<le> m_blocksize b \<and> m_blocksize b < m_position b mod m_blocksize b + getReadSize b
     then Inl Out_of_bounds else Inr (True, readable b))"
proof (cases "getReadSize b = 0")
  case True
  then show ?thesis
    using length_readable [OF inv] mod_less_divisor [OF ba_invD(1) [OF inv], of "m_position b"]
    by (simp add: writeToFile_def wtf_loop.simps)
next
  case False
  note I = ba_invD [OF inv]
  let ?B = "m_blocksize b" and ?p = "m_position b" and ?r = "getReadSize b" and ?ns = "m_nodes b"
  let ?i = "?p div ?B" and ?q = "?p mod ?B"
  have pos: "?p < m_capacity b" using False I(5,6) by (simp add: getReadSize_def)
  note cur = cursor_nth [OF inv pos]
  have q: "?q < ?B" using I(1) by simp
  have p: "?i * ?B + ?q = ?p" by simp
  have data: "take ?r (drop ?p (chain ?ns)) = readable b"
    by (simp add: readable_def ba_data_def drop_take getReadSize_def)
  show ?thesis
  proof (cases "?r \<le> ?B")
    case True
    show ?thesis
    proof (cases "?q + ?r \<le> ?B")
      case fits: True
      then show ?thesis
        using False True cur I(1) memcpy_from_block [OF I(3) cur(2) fits] data
        by (simp add: writeToFile_def wtf_loop.simps Let_def)
    next
      case over: False
      then have "memcpy_from ?ns ?i ?q ?r = Inl Out_of_bounds"
        using I(3) cur(2) by (simp add: memcpy_from_def)
      then show ?thesis
        using False True over cur I(1) by (simp add: writeToFile_def wtf_loop.simps Let_def)
    qed
  next
    case big: False
    let ?k = "?B - ?q"
    have cpy: "memcpy_from ?ns ?i ?q ?k = Inr (take ?k (drop ?p (chain ?ns)))"
      using memcpy_from_block [OF I(3) cur(2), of ?q ?k] q by simp
    have next_pos: "?p + ?k = Suc ?i * ?B" using p q mult_Suc [of ?i ?B] by linarith
    have nxt: "next_node ?ns ?i = cursor ?B (length ?ns) (Suc ?i * ?B)"
      using cursor_block_end [OF cur(2) I(1)] by (simp add: next_node_def add.commute)
    have room: "Suc ?i * ?B + (?r - ?k) \<le> length ?ns * ?B"
      using I(4-6) next_pos big q by (simp add: getReadSize_def)
    note rec = wtf_loop_aligned [OF I(3,1) room]
    have "readable b = take ?k (drop ?p (chain ?ns)) @ take (?r - ?k) (drop (Suc ?i * ?B) (chain ?ns))"
      using take_add [of ?k "?r - ?k" "drop ?p (chain ?ns)"] big q data next_pos
      by (simp add: add.commute)
    then show ?thesis
      using False big cur I(1) cpy rec nxt next_pos
      by (subst writeToFile_def, subst wtf_loop.simps) (simp add: Let_def)
  qed
qed

lemma rff_loop_spec:
  "ba_inv b \<Longrightarrow> \<exists>b'. rff_loop b content = Some (Inr b') \<and> ba_inv b'
     \<and> m_position b' = m_position b + length content
     \<and> ba_data b' = take (m_position b) (ba_data b) @ content
         @ drop (m_position b + length content) (ba_data b)"
proof (induction "length content" arbitrary: b content rule: less_induct)
  case less
  let ?B = "m_blocksize b" and ?p = "m_position b"
  obtain b1 where b1: "ba_write b (take ?B content) = Inr b1" "ba_inv b1"
    "m_position b1 = ?p + length (take ?B content)" "m_blocksize b1 = ?B"
    "ba_data b1 = take ?p (ba_data b) @ take ?B content
       @ drop (?p + length (take ?B content)) (ba_data b)"
    using ba_write_data [OF less.prems] by metis
  have pos: "?p \<le> length (ba_data b)"
    using ba_invD(5) [OF less.prems] by (simp add: length_ba_data [OF less.prems])
  show ?case
  proof (cases "length content < ?B")
    case True
    with b1 show ?thesis by (subst rff_loop.simps) simp
  next
    case False
    then have len: "length (take ?B content) = ?B" by simp
    have "length (drop ?B content) < length content"
      using False ba_invD(1) [OF less.prems] by simp
    from less.hyps [OF this b1(2)] obtain b' where b': "rff_loop b1 (drop ?B content) = Some (Inr b')"
      "ba_inv b'" "m_position b' = m_position b1 + length (drop ?B content)"
      "ba_data b' = take (m_position b1) (ba_data b1) @ drop ?B content
         @ drop (m_position b1 + length (drop ?B content)) (ba_data b1)" by blast
    have "take (m_position b1) (ba_data b1) = take ?p (ba_data b) @ take ?B content"
      using b1(3,5) pos len by simp
    moreover have "drop (m_position b1 + length (drop ?B content)) (ba_data b1)
        = drop (?p + length content) (ba_data b)"
      using b1(3,5) pos len False by (simp add: add.commute)
    ultimately have "ba_data b' = take ?p (ba_data b) @ content @ drop (?p + length content) (ba_data b)"
      using b'(4) by simp
    then show ?thesis
      using False b1 b' len by (subst rff_loop.simps) simp
  qed
qed


section \<open>Scatter and gather lists\<close>

text \<open>What \<open>sendmsg\<close> and \<open>recvmsg\<close> touch through an \<open>iovec\<close>: the bytes it denotes.\<close>

definition iov_bytes :: "node list \<Rightarrow> iovec \<Rightarrow> byte list result" where
  "iov_bytes ns v = memcpy_from ns (iov_node v) (iov_off v) (iov_len v)"

lemma iov_loop_fits:
  "0 < len \<Longrightarrow> len \<le> ncap \<Longrightarrow>
   iov_loop ns (Some i) npos ncap len = Inr [\<lparr>iov_node = i, iov_off = npos, iov_len = len\<rparr>]"
  by (simp add: iov_loop.simps)

text \<open>The loop returns, with one entry per block it crosses.\<close>

lemma iov_loop_total:
  assumes "blocks B ns" "i < length ns" "q < B" "i * B + q + len \<le> length ns * B"
  shows "\<exists>vs. iov_loop ns (Some i) q (B - q) len = Inr vs"
  using assms
proof (induction len arbitrary: i q rule: less_induct)
  case (less len)
  note prems = less.prems
  show ?case
  proof (cases "len \<le> B - q")
    case True
    then show ?thesis by (simp add: iov_loop.simps)
  next
    case False
    have k: "q + (B - q) = B" using prems(3) by simp
    then have "i * B + B < length ns * B" using prems(4) False by linarith
    then have "(Suc i) * B < length ns * B" by (simp add: add.commute)
    then have i': "Suc i < length ns" by (rule mult_right_less_imp_less) simp
    have room: "Suc i * B + 0 + (len - (B - q)) \<le> length ns * B"
      using prems(4) False k by (simp add: algebra_simps)
    have "len - (B - q) < len" using prems(3) False by linarith
    from less.IH [OF this prems(1) i' _ room] prems(3)
    obtain vs where "iov_loop ns (Some (Suc i)) 0 B (len - (B - q)) = Inr vs" by auto
    with False i' prems(1) show ?thesis by (subst iov_loop.simps) (simp add: next_node_def)
  qed
qed

lemma getReadBuffers_within_block:
  assumes inv: "ba_inv b" and len: "0 < len" "len \<le> getReadSize b"
    and fits: "m_position b mod m_blocksize b + len \<le> m_blocksize b"
  shows "\<exists>v. getReadBuffers b len = Inr (len, [v]) \<and> iov_bytes (m_nodes b) v = Inr (take len (readable b))"
proof -
  note I = ba_invD [OF inv]
  have pos: "m_position b < m_capacity b" using len I(5,6) by (simp add: getReadSize_def)
  note cur = cursor_nth [OF inv pos]
  have "take len (drop (m_position b) (chain (m_nodes b))) = take len (readable b)"
    using len by (simp add: readable_def ba_data_def drop_take getReadSize_def min_def)
  with memcpy_from_block [OF I(3) cur(2) fits] len fits I(1,3) cur show ?thesis
    by (simp add: getReadBuffers_def iov_from_def iov_loop_fits iov_bytes_def)
qed

text \<open>
  A list that crosses a block boundary starts at offset \<open>ncap\<close> of the cursor's block where the data
  starts at offset \<open>npos\<close>.
\<close>

lemma getReadBuffers_across_blocks:
  assumes inv: "ba_inv b" and len: "len \<le> getReadSize b"
    and cross: "m_blocksize b < m_position b mod m_blocksize b + len"
  shows "\<exists>v vs. getReadBuffers b len = Inr (len, v # vs)
           \<and> iov_node v = m_position b div m_blocksize b
           \<and> iov_off v = m_blocksize b - m_position b mod m_blocksize b
           \<and> iov_len v = m_blocksize b - m_position b mod m_blocksize b"
proof -
  note I = ba_invD [OF inv]
  let ?B = "m_blocksize b" and ?p = "m_position b" and ?ns = "m_nodes b"
  have q: "?p mod ?B < ?B" using I(1) by simp
  then have "0 < len" using cross by linarith
  have pos: "?p < m_capacity b" using \<open>0 < len\<close> len I(5,6) by (simp add: getReadSize_def)
  note cur = cursor_nth [OF inv pos]
  have room: "?p div ?B * ?B + ?p mod ?B + len \<le> length ?ns * ?B"
    using len I(4-6) by (simp add: getReadSize_def)
  obtain vs where "iov_loop ?ns (Some (?p div ?B)) (?p mod ?B) (?B - ?p mod ?B) len = Inr vs"
    using iov_loop_total [OF I(3) cur(2) q room] by blast
  moreover from this cross \<open>0 < len\<close> obtain v vs' where
    "vs = \<lparr>iov_node = ?p div ?B, iov_off = ?B - ?p mod ?B, iov_len = ?B - ?p mod ?B\<rparr> # vs'"
    by (subst (asm) iov_loop.simps) (auto simp: returns split: option.splits if_splits)
  ultimately show ?thesis
    using \<open>0 < len\<close> len cross I(1,3) cur by (simp add: getReadBuffers_def iov_from_def)
qed


section \<open>The buffer as a byte store\<close>

interpretation ba: byte_store ba_inv m_position ba_data m_endian ba_write ba_read setPosition
proof unfold_locales
  fix b n and bs :: "byte list" and p
  assume inv: "ba_inv b"
  show "m_position b \<le> length (ba_data b)"
    using ba_invD(5) [OF inv] by (simp add: length_ba_data [OF inv])
  show "\<exists>s'. ba_write b bs = Inr s' \<and> ba_inv s' \<and> m_position s' = m_position b + length bs
      \<and> m_endian s' = m_endian b
      \<and> ba_data s' = take (m_position b) (ba_data b) @ bs @ drop (m_position b + length bs) (ba_data b)"
    using ba_write_data [OF inv] by metis
  show "ba_read b n = Inl Out_of_range" if "length (ba_data b) < m_position b + n"
  proof -
    have "n > getReadSize b"
      using that ba_invD(5) [OF inv] length_ba_data [OF inv] by (simp add: getReadSize_def)
    then show ?thesis by (simp add: ba_read_def)
  qed
  show "\<exists>s'. ba_read b n = Inr (take n (drop (m_position b) (ba_data b)), s') \<and> ba_inv s'
      \<and> m_position s' = m_position b + n \<and> m_endian s' = m_endian b \<and> ba_data s' = ba_data b"
    if "0 < n" "m_position b + n \<le> length (ba_data b)"
  proof -
    have "n \<le> getReadSize b" "m_position b < m_capacity b"
      using that ba_invD(5,6) [OF inv] by (simp_all add: length_ba_data [OF inv] getReadSize_def)
    from ba_read_spec [OF inv this] show ?thesis unfolding readable_def by metis
  qed
  show "\<exists>s'. setPosition b p = Inr s' \<and> ba_inv s' \<and> m_position s' = p \<and> m_endian s' = m_endian b
      \<and> ba_data s' = ba_data b" if "p \<le> length (ba_data b)"
  proof -
    have "p \<le> m_size b" "p \<le> m_capacity b"
      using that ba_invD(6) [OF inv] by (simp_all add: length_ba_data [OF inv])
    moreover from this setPosition_spec [OF inv] obtain b' where
      "setPosition b p = Inr b'" "ba_inv b'" "m_position b' = p" "m_size b' = max (m_size b) p"
      "m_nodes b' = m_nodes b" "m_endian b' = m_endian b" by metis
    ultimately show ?thesis by (auto simp: ba_data_def max_def)
  qed
qed


section \<open>Reachable arrays\<close>

text \<open>The states a program can bring an array into: construction, then any of its operations.\<close>

inductive ba_step :: "byte_array \<Rightarrow> byte_array \<Rightarrow> bool" where
  step_write: "ba_write b bs = Inr b' \<Longrightarrow> ba_step b b'"
| step_read: "ba_read b n = Inr (bs, b') \<Longrightarrow> ba_step b b'"
| step_seek: "setPosition b n = Inr b' \<Longrightarrow> ba_step b b'"
| step_clear: "ba_step b (ba_clear b)"
| step_endian: "ba_step b (setIsLittleEndian b v)"
| step_grow: "addCapacity b n = Inr b' \<Longrightarrow> ba_step b b'"
| step_buffers: "getWriteBuffers b n = Inr (vs, b') \<Longrightarrow> ba_step b b'"
| step_load: "readFromFile file b = Some (Inr (ok, b')) \<Longrightarrow> ba_step b b'"

inductive ba_reachable :: "byte_array \<Rightarrow> bool" where
  start: "0 < B \<Longrightarrow> ba_reachable (ByteArray_new fill B)"
| step: "ba_reachable b \<Longrightarrow> ba_step b b' \<Longrightarrow> ba_reachable b'"

lemma addCapacity_inv: "ba_inv b \<Longrightarrow> addCapacity b n = Inr b' \<Longrightarrow> ba_inv b'"
  using addCapacity_spec [of b n] by (metis sum.inject(2))

lemma ba_read_at_end:
  assumes "ba_inv b" "m_position b = m_capacity b"
  shows "ba_read b n = (if n = 0 then Inl Null_deref else Inl Out_of_range)"
  using ba_invD [OF assms(1)] assms(2) by (auto simp: ba_read_def cursor_def getReadSize_def Let_def)

lemma ba_read_cases [consumes 1, case_names short at_end ok]:
  assumes "ba_inv b"
  obtains (short) "n > getReadSize b" "ba_read b n = Inl Out_of_range"
    | (at_end) "n = 0" "m_position b = m_capacity b" "ba_read b n = Inl Null_deref"
    | (ok) b' where "n \<le> getReadSize b" "ba_read b n = Inr (take n (readable b), b')" "ba_inv b'"
        "m_position b' = m_position b + n" "ba_data b' = ba_data b"
proof (cases "n > getReadSize b")
  case True
  then show ?thesis using short by (simp add: ba_read_def)
next
  case le: False
  show ?thesis
  proof (cases "m_position b < m_capacity b")
    case True
    with le ba_read_spec [OF assms, of n] ok show ?thesis by (metis not_less)
  next
    case False
    with ba_invD(5,6) [OF assms] have "m_position b = m_capacity b" by simp
    with le at_end ba_read_at_end [OF assms, of n] ba_invD(6) [OF assms] show ?thesis
      by (auto simp: getReadSize_def)
  qed
qed

lemma ba_step_inv: "ba_step b b' \<Longrightarrow> ba_inv b \<Longrightarrow> ba_inv b'"
proof (induction rule: ba_step.induct)
  case (step_write b bs b')
  then show ?case using ba_write_data [of b bs] by (metis sum.inject(2))
next
  case (step_read b n bs b')
  from step_read(2) show ?case by (cases rule: ba_read_cases [where n = n]) (use step_read(1) in auto)
next
  case (step_seek b n b')
  then have "n \<le> m_capacity b" by (auto simp: setPosition_def split: if_splits)
  with step_seek setPosition_spec [of b n] show ?case by (metis sum.inject(2))
next
  case (step_clear b)
  then show ?case by (rule ba_inv_clear)
next
  case (step_endian b v)
  then show ?case by (auto simp: setIsLittleEndian_def ba_inv_def)
next
  case (step_grow b n b')
  then show ?case by (simp add: addCapacity_inv)
next
  case (step_buffers b n vs b')
  then show ?case
    by (auto simp: getWriteBuffers_def returns split: if_splits dest: addCapacity_inv)
next
  case (step_load f b ok b')
  then show ?case using rff_loop_spec [of b]
    by (cases f) (auto simp: readFromFile_def, metis option.inject rbind_simps(2) sum.inject(2) prod.inject)
qed

lemma ba_reachable_inv: "ba_reachable b \<Longrightarrow> ba_inv b"
  by (induction rule: ba_reachable.induct) (auto intro: ba_inv_new ba_step_inv)

lemma ba_reachable_new [intro]: "0 < B \<Longrightarrow> ba_reachable (ByteArray_new fill B)"
  by (rule ba_reachable.start)

text \<open>A new buffer, filled and rewound: a family of reachable states.\<close>

lemma new_write_seek:
  assumes "0 < B" "bs \<noteq> []" "p \<le> length bs"
  obtains b1 b2 where "ba_write (ByteArray_new fill B) bs = Inr b1" "setPosition b1 p = Inr b2"
    "ba_reachable b2" "m_position b2 = p" "m_size b2 = length bs" "m_blocksize b2 = B"
proof -
  let ?b = "ByteArray_new fill B"
  have new: "m_position ?b = 0" "m_size ?b = 0" "m_blocksize ?b = B" by (simp_all add: ByteArray_new_def)
  obtain b1 where b1: "ba_write ?b bs = Inr b1" "ba_inv b1" "m_blocksize b1 = m_blocksize ?b"
    "m_size b1 = max (m_size ?b) (m_position ?b + length bs)"
    using ba_write_spec [OF ba_inv_new [OF assms(1)] assms(2)] by metis
  then have "p \<le> m_size b1" "p \<le> m_capacity b1" using assms(3) new ba_invD(6) [OF b1(2)] by simp_all
  then obtain b2 where b2: "setPosition b1 p = Inr b2" "m_position b2 = p"
    "m_size b2 = max (m_size b1) p" "m_blocksize b2 = m_blocksize b1"
    using setPosition_spec [OF b1(2)] by metis
  have "ba_reachable b2"
    using ba_reachable.start [OF assms(1)] b1(1) b2(1) by (blast intro: ba_reachable.step step_write step_seek)
  with b1 b2 new assms(3) show ?thesis by (intro that [of b1 b2]) auto
qed

section \<open>Properties\<close>

text \<open>
  \<^bold>\<open>C2\<close>. The buffer's invariant holds in every state its operations can reach: the cursor
  points at the block that holds \<open>m_position\<close> (and is null exactly at the end of the last block),
  \<open>m_position \<le> m_size \<le> m_capacity\<close>, and the capacity is the number of blocks times their size.
\<close>

theorem ba_reachable_cursor:
  assumes "ba_reachable b"
  shows "m_position b \<le> m_size b \<and> m_size b \<le> m_capacity b
    \<and> m_capacity b = length (m_nodes b) * m_blocksize b
    \<and> m_cur b = (if m_position b < m_capacity b then Some (m_position b div m_blocksize b) else None)"
  using ba_invD [OF ba_reachable_inv [OF assms]] by (simp add: cursor_def)

theorem ba_reachable_cursor_witness:
  "let b = ByteArray_new (\<lambda>_ _. 0) 4 in
     m_position b \<le> m_size b \<and> m_size b \<le> m_capacity b
   \<and> m_capacity b = length (m_nodes b) * m_blocksize b
   \<and> m_cur b = (if m_position b < m_capacity b then Some (m_position b div m_blocksize b) else None)"
  unfolding Let_def by (rule ba_reachable_cursor) auto

text \<open>
  \<^bold>\<open>C3\<close>. On a reachable buffer \<open>write\<close> always succeeds: it overwrites the data at the cursor,
  extends it at the end, advances the cursor by the number of bytes written, and stays reachable.
  However many blocks the bytes span, the chain behaves like one flat array.
\<close>

theorem ba_write_refines:
  assumes "ba_reachable b"
  shows "\<exists>b'. ba_write b bs = Inr b' \<and> ba_reachable b' \<and> m_position b' = m_position b + length bs
           \<and> ba_data b' = take (m_position b) (ba_data b) @ bs
               @ drop (m_position b + length bs) (ba_data b)"
  using ba_write_data [OF ba_reachable_inv [OF assms]] ba_reachable.step [OF assms] step_write by metis

theorem ba_write_refines_witness:
  "\<exists>b'. ba_write (ByteArray_new (\<lambda>_ _. 0) 2) [1, 2, 3] = Inr b' \<and> ba_reachable b'
     \<and> m_position b' = m_position (ByteArray_new (\<lambda>_ _. 0) 2) + length [1 :: byte, 2, 3]
     \<and> ba_data b' = take (m_position (ByteArray_new (\<lambda>_ _. 0) 2)) (ba_data (ByteArray_new (\<lambda>_ _. 0) 2))
         @ [1, 2, 3] @ drop (m_position (ByteArray_new (\<lambda>_ _. 0) 2) + length [1 :: byte, 2, 3])
             (ba_data (ByteArray_new (\<lambda>_ _. 0) 2))"
  by (rule ba_write_refines) auto

text \<open>
  \<^bold>\<open>C11\<close>. On a reachable buffer \<open>read\<close> throws \<open>out_of_range\<close> when more is asked for than is
  left, and otherwise returns the next bytes of the data, advances the cursor and leaves the data
  alone. The one exception is a read of nothing when the cursor stands at the end of the last block:
  it dereferences the null cursor.
\<close>

theorem ba_read_outcome:
  assumes "ba_reachable b"
  shows "if n > getReadSize b then ba_read b n = Inl Out_of_range
         else if m_position b = m_capacity b then n = 0 \<and> ba_read b n = Inl Null_deref
         else \<exists>b'. ba_read b n = Inr (take n (readable b), b') \<and> ba_reachable b'
                \<and> m_position b' = m_position b + n \<and> ba_data b' = ba_data b"
  using ba_reachable_inv [OF assms]
proof (cases rule: ba_read_cases [where n = n])
  case (ok b')
  have "m_position b \<noteq> m_capacity b"
    using ok(2) ba_read_at_end [OF ba_reachable_inv [OF assms], of n] by (auto split: if_splits)
  moreover have "ba_reachable b'"
    by (rule ba_reachable.step [OF assms step_read [OF ok(2)]])
  ultimately show ?thesis using ok by simp
qed auto

theorem ba_read_outcome_witness:
  "(let b = ByteArray_new (\<lambda>_ _. 0) 2 in
      if 3 > getReadSize b then ba_read b 3 = Inl Out_of_range
      else if m_position b = m_capacity b then (3 :: nat) = 0 \<and> ba_read b 3 = Inl Null_deref
      else \<exists>b'. ba_read b 3 = Inr (take 3 (readable b), b') \<and> ba_reachable b'
             \<and> m_position b' = m_position b + 3 \<and> ba_data b' = ba_data b)"
  unfolding Let_def by (rule ba_read_outcome) auto


text \<open>
  \<open>writeToFile\<close> writes exactly the bytes from the cursor to the end of the data, unless
  those bytes are at most one block long and run over the end of the cursor's block. In that case
  the length is not cut at the block, and the copy reads past the end of the block.
\<close>

lemma writeToFile_outcome:
  assumes "ba_reachable b"
  shows "writeToFile True b =
    (if getReadSize b \<le> m_blocksize b \<and> m_blocksize b < m_position b mod m_blocksize b + getReadSize b
     then Inl Out_of_bounds else Inr (True, readable b))"
  by (rule writeToFile_spec [OF ba_reachable_inv [OF assms]])

text \<open>
  \<open>readFromFile\<close> on a reachable buffer returns, and has then written the whole content
  of the file at the cursor, whatever the length of the content relative to the block size.
\<close>

lemma readFromFile_loads:
  assumes "ba_reachable b"
  shows "\<exists>b'. readFromFile (Some content) b = Some (Inr (True, b'))
           \<and> m_position b' = m_position b + length content
           \<and> ba_data b' = take (m_position b) (ba_data b) @ content
               @ drop (m_position b + length content) (ba_data b)"
  using rff_loop_spec [OF ba_reachable_inv [OF assms], of content] by (auto simp: readFromFile_def)

text \<open>
  The scatter/gather list for a request that stays inside the cursor's block is one entry
  that denotes exactly the requested bytes. For a request that crosses into the next block the first
  entry starts at offset \<open>ncap\<close> (the room left in the block) instead of at the cursor's offset, so
  when less than half of the block is used the entry reaches outside the block.
\<close>

lemma getReadBuffers_outcome:
  assumes "ba_reachable b" "0 < len" "len \<le> getReadSize b"
  shows "if m_position b mod m_blocksize b + len \<le> m_blocksize b
         then \<exists>v. getReadBuffers b len = Inr (len, [v])
                \<and> iov_bytes (m_nodes b) v = Inr (take len (readable b))
         else \<exists>v vs. getReadBuffers b len = Inr (len, v # vs)
                \<and> iov_off v = m_blocksize b - m_position b mod m_blocksize b
                \<and> iov_bytes (m_nodes b) v =
                    (if m_blocksize b \<le> 2 * (m_position b mod m_blocksize b)
                     then Inr (take (iov_len v) (drop (iov_off v)
                                (n_ptr (m_nodes b ! (m_position b div m_blocksize b)))))
                     else Inl Out_of_bounds)"
proof -
  note inv = ba_reachable_inv [OF assms(1)]
  note I = ba_invD [OF inv]
  let ?B = "m_blocksize b" and ?q = "m_position b mod m_blocksize b"
  have q: "?q < ?B" using I(1) by simp
  show ?thesis
  proof (cases "?q + len \<le> ?B")
    case True
    with getReadBuffers_within_block [OF inv assms(2,3)] show ?thesis by simp
  next
    case False
    obtain v vs where v: "getReadBuffers b len = Inr (len, v # vs)"
      "iov_node v = m_position b div ?B" "iov_off v = ?B - ?q" "iov_len v = ?B - ?q"
      using getReadBuffers_across_blocks [OF inv assms(3)] False by auto
    have "m_position b < m_capacity b" using assms(2,3) I(5,6) by (simp add: getReadSize_def)
    note cur = cursor_nth(2) [OF inv this]
    have "(?B - ?q) + (?B - ?q) \<le> ?B \<longleftrightarrow> ?B \<le> 2 * ?q" using q by linarith
    with v False cur I(3) show ?thesis by (auto simp: iov_bytes_def memcpy_from_def)
  qed
qed

text \<open>
  The overload \<open>read(buf, size, pos)\<close> takes the offset inside the block from \<open>pos\<close> but the
  block from the cursor: it returns the bytes at \<open>pos\<close> exactly when \<open>pos\<close> lies in the cursor's
  block, and otherwise the bytes at the same offset of the cursor's block.
\<close>

lemma ba_read_at_block:
  assumes "ba_reachable b" "0 < n" "n \<le> getReadSize b"
    and "pos mod m_blocksize b + n \<le> m_blocksize b"
  shows "ba_read_at b n pos
         = Inr (take n (drop (m_position b div m_blocksize b * m_blocksize b + pos mod m_blocksize b)
                         (chain (m_nodes b))))"
proof -
  note inv = ba_reachable_inv [OF assms(1)]
  note I = ba_invD [OF inv]
  let ?B = "m_blocksize b"
  have "m_position b < m_capacity b" using assms(2,3) I(5,6) by (simp add: getReadSize_def)
  note cur = cursor_nth [OF inv this]
  have "n \<le> ?B - pos mod ?B" using assms(4) by simp
  with memcpy_from_block [OF I(3) cur(2) assms(4)] assms(2,3) I(1,3) cur show ?thesis
    by (simp add: ba_read_at_def read_loop.simps Let_def)
qed

end
