(* ===== verification/ByteArray_Codec.thy ===== *)
theory ByteArray_Codec
  imports ByteArray
begin

unbundle bit_operations_syntax

text \<open>
  The typed reads and writes of windgent/bytearray.cc: fixed width integers in the array's byte
  order, zigzag and base-128 variable length integers, and length prefixed strings. Signed integers
  are words read with \<open>sint\<close>, \<open>float\<close> and \<open>double\<close> are their bit patterns, \<open>std::string\<close> is a list
  of bytes. \<open>host\<close> is the byte order of the machine (\<open>WINDGENT_BYTE_ORDER\<close>). Signed arithmetic in
  the zigzag encoders wraps around, as the compiled code does.

  The locale \<open>byte_store\<close> is what these codecs need of the buffer below them.
\<close>

section \<open>Fixed width\<close>

definition writeFint8 :: "endian \<Rightarrow> byte_array \<Rightarrow> i8 \<Rightarrow> byte_array result" where
  "writeFint8 host b value = ba_write b (mem_bytes host value)"

definition writeFuint8 :: "endian \<Rightarrow> byte_array \<Rightarrow> byte \<Rightarrow> byte_array result" where
  "writeFuint8 host b value = ba_write b (mem_bytes host value)"

definition writeFint16 :: "endian \<Rightarrow> byte_array \<Rightarrow> i16 \<Rightarrow> byte_array result" where
  "writeFint16 host b value =
     ba_write b (mem_bytes host (if m_endian b \<noteq> host then byteswap value else value))"

definition writeFuint16 :: "endian \<Rightarrow> byte_array \<Rightarrow> u16 \<Rightarrow> byte_array result" where
  "writeFuint16 host b value =
     ba_write b (mem_bytes host (if m_endian b \<noteq> host then byteswap value else value))"

definition writeFint32 :: "endian \<Rightarrow> byte_array \<Rightarrow> i32 \<Rightarrow> byte_array result" where
  "writeFint32 host b value =
     ba_write b (mem_bytes host (if m_endian b \<noteq> host then byteswap value else value))"

definition writeFuint32 :: "endian \<Rightarrow> byte_array \<Rightarrow> u32 \<Rightarrow> byte_array result" where
  "writeFuint32 host b value =
     ba_write b (mem_bytes host (if m_endian b \<noteq> host then byteswap value else value))"

definition writeFint64 :: "endian \<Rightarrow> byte_array \<Rightarrow> i64 \<Rightarrow> byte_array result" where
  "writeFint64 host b value =
     ba_write b (mem_bytes host (if m_endian b \<noteq> host then byteswap value else value))"

definition writeFuint64 :: "endian \<Rightarrow> byte_array \<Rightarrow> u64 \<Rightarrow> byte_array result" where
  "writeFuint64 host b value =
     ba_write b (mem_bytes host (if m_endian b \<noteq> host then byteswap value else value))"

definition writeFloat :: "endian \<Rightarrow> byte_array \<Rightarrow> u32 \<Rightarrow> byte_array result" where
  "writeFloat host b bits = writeFuint32 host b bits"

definition writeDouble :: "endian \<Rightarrow> byte_array \<Rightarrow> u64 \<Rightarrow> byte_array result" where
  "writeDouble host b bits = writeFuint64 host b bits"

definition readFint8 :: "endian \<Rightarrow> byte_array \<Rightarrow> (i8 \<times> byte_array) result" where
  "readFint8 host b = rbind (ba_read b 1) (\<lambda>(bs, b'). Inr (word_of_mem host bs, b'))"

definition readFuint8 :: "endian \<Rightarrow> byte_array \<Rightarrow> (byte \<times> byte_array) result" where
  "readFuint8 host b = rbind (ba_read b 1) (\<lambda>(bs, b'). Inr (word_of_mem host bs, b'))"

text \<open>The macro \<open>XX(type)\<close>.\<close>

definition read_XX :: "endian \<Rightarrow> byte_array \<Rightarrow> ('a::len word \<times> byte_array) result" where
  "read_XX host b =
     rbind (ba_read b (LENGTH('a) div 8)) (\<lambda>(bs, b').
       let v = word_of_mem host bs in
       Inr (if m_endian b' = host then v else byteswap v, b'))"

definition readFint16 :: "endian \<Rightarrow> byte_array \<Rightarrow> (i16 \<times> byte_array) result" where
  "readFint16 host b = read_XX host b"

definition readFuint16 :: "endian \<Rightarrow> byte_array \<Rightarrow> (u16 \<times> byte_array) result" where
  "readFuint16 host b = read_XX host b"

definition readFint32 :: "endian \<Rightarrow> byte_array \<Rightarrow> (i32 \<times> byte_array) result" where
  "readFint32 host b = read_XX host b"

definition readFuint32 :: "endian \<Rightarrow> byte_array \<Rightarrow> (u32 \<times> byte_array) result" where
  "readFuint32 host b = read_XX host b"

definition readFint64 :: "endian \<Rightarrow> byte_array \<Rightarrow> (i64 \<times> byte_array) result" where
  "readFint64 host b = read_XX host b"

definition readFuint64 :: "endian \<Rightarrow> byte_array \<Rightarrow> (u64 \<times> byte_array) result" where
  "readFuint64 host b = read_XX host b"

definition readFloat :: "endian \<Rightarrow> byte_array \<Rightarrow> (u32 \<times> byte_array) result" where
  "readFloat host b = readFuint32 host b"

definition readDouble :: "endian \<Rightarrow> byte_array \<Rightarrow> (u64 \<times> byte_array) result" where
  "readDouble host b = readFuint64 host b"

section \<open>Variable length\<close>

definition EncodeZigzag32 :: "i32 \<Rightarrow> u32" where
  "EncodeZigzag32 val = (if sint val < 0 then (- val) * 2 - 1 else val * 2)"

definition EncodeZigzag64 :: "i64 \<Rightarrow> u64" where
  "EncodeZigzag64 val = (if sint val < 0 then (- val) * 2 - 1 else val * 2)"

definition DecodeZigzag32 :: "u32 \<Rightarrow> i32" where
  "DecodeZigzag32 val = drop_bit 1 val XOR - (val AND 1)"

definition DecodeZigzag64 :: "u64 \<Rightarrow> i64" where
  "DecodeZigzag64 val = drop_bit 1 val XOR - (val AND 1)"

lemma drop_bit_7_less: "0 < (v :: 'a::len word) \<Longrightarrow> unat (drop_bit 7 v) < unat v"
  unfolding unat_drop_bit_eq by (simp add: drop_bit_eq_div word_less_nat_alt)

text \<open>The loops that fill \<open>tmp\<close>; \<open>tmp\<close> has room for 5 and for 10 bytes.\<close>

function writeUint32_loop :: "u32 \<Rightarrow> byte list" where
  "writeUint32_loop value =
     (if value \<ge> 0x80 then ucast ((value AND 0x7F) OR 0x80) # writeUint32_loop (drop_bit 7 value)
      else [ucast value])"
  by pat_completeness auto
termination
  by (relation "measure unat") (auto intro!: drop_bit_7_less elim: less_le_trans [rotated])

function writeUint64_loop :: "u64 \<Rightarrow> byte list" where
  "writeUint64_loop value =
     (if value \<ge> 0x80 then ucast ((value AND 0x7F) OR 0x80) # writeUint64_loop (drop_bit 7 value)
      else [ucast value])"
  by pat_completeness auto
termination
  by (relation "measure unat") (auto intro!: drop_bit_7_less elim: less_le_trans [rotated])

definition writeUint32 :: "byte_array \<Rightarrow> u32 \<Rightarrow> byte_array result" where
  "writeUint32 b value =
     (let tmp = writeUint32_loop value in
      if length tmp > 5 then Inl Out_of_bounds else ba_write b tmp)"

definition writeUint64 :: "byte_array \<Rightarrow> u64 \<Rightarrow> byte_array result" where
  "writeUint64 b value =
     (let tmp = writeUint64_loop value in
      if length tmp > 10 then Inl Out_of_bounds else ba_write b tmp)"

definition writeInt32 :: "byte_array \<Rightarrow> i32 \<Rightarrow> byte_array result" where
  "writeInt32 b value = writeUint32 b (EncodeZigzag32 value)"

definition writeInt64 :: "byte_array \<Rightarrow> i64 \<Rightarrow> byte_array result" where
  "writeInt64 b value = writeUint64 b (EncodeZigzag64 value)"

function readUint32_loop :: "endian \<Rightarrow> byte_array \<Rightarrow> nat \<Rightarrow> u32 \<Rightarrow> (u32 \<times> byte_array) result" where
  "readUint32_loop host b i res =
     (if i < 32 then
        rbind (readFuint8 host b) (\<lambda>(c, b').
          if c < 0x80 then Inr (res OR push_bit i (ucast c), b')
          else readUint32_loop host b' (i + 7) (res OR push_bit i (ucast (c AND 0x7F))))
      else Inr (res, b))"
  by pat_completeness auto
termination
  by (relation "measure (\<lambda>(_, _, i, _). 32 - i)") auto

function readUint64_loop :: "endian \<Rightarrow> byte_array \<Rightarrow> nat \<Rightarrow> u64 \<Rightarrow> (u64 \<times> byte_array) result" where
  "readUint64_loop host b i res =
     (if i < 64 then
        rbind (readFuint8 host b) (\<lambda>(c, b').
          if c < 0x80 then Inr (res OR push_bit i (ucast c), b')
          else readUint64_loop host b' (i + 7) (res OR push_bit i (ucast (c AND 0x7F))))
      else Inr (res, b))"
  by pat_completeness auto
termination
  by (relation "measure (\<lambda>(_, _, i, _). 64 - i)") auto

declare writeUint32_loop.simps [simp del] writeUint64_loop.simps [simp del]
  readUint32_loop.simps [simp del] readUint64_loop.simps [simp del]

definition readUint32 :: "endian \<Rightarrow> byte_array \<Rightarrow> (u32 \<times> byte_array) result" where
  "readUint32 host b = readUint32_loop host b 0 0"

definition readUint64 :: "endian \<Rightarrow> byte_array \<Rightarrow> (u64 \<times> byte_array) result" where
  "readUint64 host b = readUint64_loop host b 0 0"

definition readInt32 :: "endian \<Rightarrow> byte_array \<Rightarrow> (i32 \<times> byte_array) result" where
  "readInt32 host b = rbind (readUint32 host b) (\<lambda>(v, b'). Inr (DecodeZigzag32 v, b'))"

definition readInt64 :: "endian \<Rightarrow> byte_array \<Rightarrow> (i64 \<times> byte_array) result" where
  "readInt64 host b = rbind (readUint64 host b) (\<lambda>(v, b'). Inr (DecodeZigzag64 v, b'))"

section \<open>Strings\<close>

definition writeStringF16 :: "endian \<Rightarrow> byte_array \<Rightarrow> byte list \<Rightarrow> byte_array result" where
  "writeStringF16 host b str =
     rbind (writeFuint16 host b (of_nat (length str))) (\<lambda>b'. ba_write b' str)"

definition writeStringF32 :: "endian \<Rightarrow> byte_array \<Rightarrow> byte list \<Rightarrow> byte_array result" where
  "writeStringF32 host b str =
     rbind (writeFuint32 host b (of_nat (length str))) (\<lambda>b'. ba_write b' str)"

definition writeStringF64 :: "endian \<Rightarrow> byte_array \<Rightarrow> byte list \<Rightarrow> byte_array result" where
  "writeStringF64 host b str =
     rbind (writeFuint64 host b (of_nat (length str))) (\<lambda>b'. ba_write b' str)"

definition writeStringVint :: "byte_array \<Rightarrow> byte list \<Rightarrow> byte_array result" where
  "writeStringVint b str = rbind (writeUint64 b (of_nat (length str))) (\<lambda>b'. ba_write b' str)"

definition writeStringWithoutLen :: "byte_array \<Rightarrow> byte list \<Rightarrow> byte_array result" where
  "writeStringWithoutLen b str = ba_write b str"

definition readStringF16 :: "endian \<Rightarrow> byte_array \<Rightarrow> (byte list \<times> byte_array) result" where
  "readStringF16 host b = rbind (readFuint16 host b) (\<lambda>(sz, b'). ba_read b' (unat sz))"

definition readStringF32 :: "endian \<Rightarrow> byte_array \<Rightarrow> (byte list \<times> byte_array) result" where
  "readStringF32 host b = rbind (readFuint32 host b) (\<lambda>(sz, b'). ba_read b' (unat sz))"

definition readStringF64 :: "endian \<Rightarrow> byte_array \<Rightarrow> (byte list \<times> byte_array) result" where
  "readStringF64 host b = rbind (readFuint64 host b) (\<lambda>(sz, b'). ba_read b' (unat sz))"

definition readStringVint :: "endian \<Rightarrow> byte_array \<Rightarrow> (byte list \<times> byte_array) result" where
  "readStringVint host b = rbind (readUint64 host b) (\<lambda>(sz, b'). ba_read b' (unat sz))"


section \<open>Zigzag\<close>

lemma DecodeZigzag32_Encode: "DecodeZigzag32 (EncodeZigzag32 v) = v"
  unfolding DecodeZigzag32_def EncodeZigzag32_def sint_neg_iff_bit
  using unzigzag_nonneg [of v] unzigzag_neg [of v] by simp

lemma DecodeZigzag64_Encode: "DecodeZigzag64 (EncodeZigzag64 v) = v"
  unfolding DecodeZigzag64_def EncodeZigzag64_def sint_neg_iff_bit
  using unzigzag_nonneg [of v] unzigzag_neg [of v] by simp

section \<open>Variable length integers\<close>

lemma length_writeUint32_loop: "length (writeUint32_loop (drop_bit (7 * k) v)) \<le> 5 - k" if "k < 5"
  using that
proof (induction "5 - k" arbitrary: k rule: less_induct)
  case less
  show ?case
  proof (cases "drop_bit (7 * k) v \<ge> 0x80")
    case True
    then have "\<not> 32 \<le> 7 * k + 7" using septet_bound [of "7 * k" v] by auto
    then have k: "Suc k < 5" by simp
    then have "5 - Suc k < 5 - k" by simp
    from less(1) [OF this k] k True show ?thesis
      by (subst writeUint32_loop.simps) (simp add: drop_bit_drop_bit)
  next
    case False
    with less(2) show ?thesis by (subst writeUint32_loop.simps) simp
  qed
qed

lemma length_writeUint64_loop: "length (writeUint64_loop (drop_bit (7 * k) v)) \<le> 10 - k" if "k < 10"
  using that
proof (induction "10 - k" arbitrary: k rule: less_induct)
  case less
  show ?case
  proof (cases "drop_bit (7 * k) v \<ge> 0x80")
    case True
    then have "\<not> 64 \<le> 7 * k + 7" using septet_bound [of "7 * k" v] by auto
    then have k: "Suc k < 10" by simp
    then have "10 - Suc k < 10 - k" by simp
    from less(1) [OF this k] k True show ?thesis
      by (subst writeUint64_loop.simps) (simp add: drop_bit_drop_bit)
  next
    case False
    with less(2) show ?thesis by (subst writeUint64_loop.simps) simp
  qed
qed

lemma word_of_mem_single [simp]: "word_of_mem host [c] = (c :: byte)"
  by (cases host) (simp_all add: word_of_mem_def word_le_def)

lemma mem_bytes_single [simp]: "mem_bytes host (c :: byte) = [c]"
  by (cases host) (simp_all add: mem_bytes_def bytes_le_def)

lemma readFuint8_upcoming:
  assumes "ba.upcoming b (c # ys)"
  shows "\<exists>b'. readFuint8 host b = Inr (c, b') \<and> ba.consumed b 1 b' \<and> ba.upcoming b' ys"
  using ba.get_upcoming [of b "[c]" ys] assms by (auto simp: readFuint8_def)

text \<open>The decoder returns the value whose encoding is coming up.\<close>

lemma readUint32_loop_upcoming:
  assumes "i < 32" "ba.upcoming b (writeUint32_loop (drop_bit i v) @ ys)"
  shows "\<exists>b'. readUint32_loop host b i (take_bit i v) = Inr (v, b')
           \<and> ba.consumed b (length (writeUint32_loop (drop_bit i v))) b'"
  using assms
proof (induction "32 - i" arbitrary: i b rule: less_induct)
  case less
  let ?x = "drop_bit i v"
  show ?case
  proof (cases "?x \<ge> 0x80")
    case True
    let ?c = "ucast ((?x AND 0x7F) OR 0x80) :: byte"
    have enc: "writeUint32_loop ?x = ?c # writeUint32_loop (drop_bit (i + 7) v)"
      using True by (subst writeUint32_loop.simps) (simp add: drop_bit_drop_bit add.commute)
    obtain b1 where b1: "readFuint8 host b = Inr (?c, b1)" "ba.consumed b 1 b1"
      "ba.upcoming b1 (writeUint32_loop (drop_bit (i + 7) v) @ ys)"
      using readFuint8_upcoming [of b ?c] less.prems(2) unfolding enc by auto
    have "i + 7 < 32" using True septet_bound [of i v] by (cases "i + 7 < 32") auto
    moreover from this less.prems(1) have "32 - (i + 7) < 32 - i" by simp
    ultimately obtain b' where b': "readUint32_loop host b1 (i + 7) (take_bit (i + 7) v) = Inr (v, b')"
      "ba.consumed b1 (length (writeUint32_loop (drop_bit (i + 7) v))) b'"
      using less.hyps [OF _ _ b1(3)] by blast
    have "readUint32_loop host b i (take_bit i v) = Inr (v, b')"
      using less.prems(1) b1(1) b'(1) septet_more [of ?x] septet_step [of i v]
      by (subst readUint32_loop.simps) simp
    with ba.consumed_trans [OF b1(2) b'(2)] show ?thesis unfolding enc by simp
  next
    case False
    then have small: "?x < 0x80" by simp
    then have enc: "writeUint32_loop ?x = [ucast ?x]" by (subst writeUint32_loop.simps) simp
    obtain b1 where b1: "readFuint8 host b = Inr (ucast ?x, b1)" "ba.consumed b 1 b1"
      using readFuint8_upcoming [of b "ucast ?x"] less.prems(2) unfolding enc by auto
    have "readUint32_loop host b i (take_bit i v) = Inr (v, b1)"
      using less.prems(1) b1(1) septet_done [OF _ small] septet_last [OF _ small]
      by (subst readUint32_loop.simps) simp
    with b1(2) show ?thesis unfolding enc by simp
  qed
qed

lemma readUint64_loop_upcoming:
  assumes "i < 64" "ba.upcoming b (writeUint64_loop (drop_bit i v) @ ys)"
  shows "\<exists>b'. readUint64_loop host b i (take_bit i v) = Inr (v, b')
           \<and> ba.consumed b (length (writeUint64_loop (drop_bit i v))) b'"
  using assms
proof (induction "64 - i" arbitrary: i b rule: less_induct)
  case less
  let ?x = "drop_bit i v"
  show ?case
  proof (cases "?x \<ge> 0x80")
    case True
    let ?c = "ucast ((?x AND 0x7F) OR 0x80) :: byte"
    have enc: "writeUint64_loop ?x = ?c # writeUint64_loop (drop_bit (i + 7) v)"
      using True by (subst writeUint64_loop.simps) (simp add: drop_bit_drop_bit add.commute)
    obtain b1 where b1: "readFuint8 host b = Inr (?c, b1)" "ba.consumed b 1 b1"
      "ba.upcoming b1 (writeUint64_loop (drop_bit (i + 7) v) @ ys)"
      using readFuint8_upcoming [of b ?c] less.prems(2) unfolding enc by auto
    have "i + 7 < 64" using True septet_bound [of i v] by (cases "i + 7 < 64") auto
    moreover from this less.prems(1) have "64 - (i + 7) < 64 - i" by simp
    ultimately obtain b' where b': "readUint64_loop host b1 (i + 7) (take_bit (i + 7) v) = Inr (v, b')"
      "ba.consumed b1 (length (writeUint64_loop (drop_bit (i + 7) v))) b'"
      using less.hyps [OF _ _ b1(3)] by blast
    have "readUint64_loop host b i (take_bit i v) = Inr (v, b')"
      using less.prems(1) b1(1) b'(1) septet_more [of ?x] septet_step [of i v]
      by (subst readUint64_loop.simps) simp
    with ba.consumed_trans [OF b1(2) b'(2)] show ?thesis unfolding enc by simp
  next
    case False
    then have small: "?x < 0x80" by simp
    then have enc: "writeUint64_loop ?x = [ucast ?x]" by (subst writeUint64_loop.simps) simp
    obtain b1 where b1: "readFuint8 host b = Inr (ucast ?x, b1)" "ba.consumed b 1 b1"
      using readFuint8_upcoming [of b "ucast ?x"] less.prems(2) unfolding enc by auto
    have "readUint64_loop host b i (take_bit i v) = Inr (v, b1)"
      using less.prems(1) b1(1) septet_done [OF _ small] septet_last [OF _ small]
      by (subst readUint64_loop.simps) simp
    with b1(2) show ?thesis unfolding enc by simp
  qed
qed


section \<open>Typed writes and reads\<close>

lemma length_mem_bytes_ne: "8 \<le> LENGTH('a::len) \<Longrightarrow> mem_bytes e (v :: 'a word) \<noteq> []"
  using length_mem_bytes [of e v] by (metis div_greater_zero_iff length_greater_0_conv less_le_trans zero_less_numeral)

lemma read_XX_upcoming:
  fixes v :: "'a::len word"
  assumes "ba.upcoming b (mem_bytes (m_endian b) v @ ys)" and "8 dvd LENGTH('a)" "8 \<le> LENGTH('a)"
  shows "\<exists>b'. read_XX host b = Inr (v, b') \<and> ba.consumed b (length (mem_bytes (m_endian b) v)) b'"
proof -
  obtain b' where b': "ba_read b (LENGTH('a) div 8) = Inr (mem_bytes (m_endian b) v, b')"
    "ba.consumed b (length (mem_bytes (m_endian b) v)) b'"
    using ba.get_upcoming [OF assms(1) length_mem_bytes_ne [OF assms(3)]] by auto
  then have e: "m_endian b' = m_endian b" by (simp add: ba.consumed_def)
  have "(if m_endian b' = host then word_of_mem host (mem_bytes (m_endian b) v)
         else byteswap (word_of_mem host (mem_bytes (m_endian b) v))) = v"
    unfolding e using word_of_mem_swap_unless [of "mem_bytes (m_endian b) v" "m_endian b" host] assms(2)
    by (metis length_mem_bytes word_of_mem_bytes)
  with b' show ?thesis by (simp add: read_XX_def Let_def)
qed

text \<open>
  One value of any of the types the array can hold; \<open>wire e it\<close> is its encoding in byte order \<open>e\<close>.
\<close>

datatype item =
    Fint8 i8 | Fuint8 byte | Fint16 i16 | Fuint16 u16 | Fint32 i32 | Fuint32 u32
  | Fint64 i64 | Fuint64 u64 | Float u32 | Double u64
  | Int32 i32 | Uint32 u32 | Int64 i64 | Uint64 u64
  | StringF16 "byte list" | StringF32 "byte list" | StringF64 "byte list" | StringVint "byte list"

fun wire :: "endian \<Rightarrow> item \<Rightarrow> byte list" where
  "wire e (Fint8 v) = [v]"
| "wire e (Fuint8 v) = [v]"
| "wire e (Fint16 v) = mem_bytes e v"
| "wire e (Fuint16 v) = mem_bytes e v"
| "wire e (Fint32 v) = mem_bytes e v"
| "wire e (Fuint32 v) = mem_bytes e v"
| "wire e (Fint64 v) = mem_bytes e v"
| "wire e (Fuint64 v) = mem_bytes e v"
| "wire e (Float v) = mem_bytes e v"
| "wire e (Double v) = mem_bytes e v"
| "wire e (Int32 v) = writeUint32_loop (EncodeZigzag32 v)"
| "wire e (Uint32 v) = writeUint32_loop v"
| "wire e (Int64 v) = writeUint64_loop (EncodeZigzag64 v)"
| "wire e (Uint64 v) = writeUint64_loop v"
| "wire e (StringF16 s) = mem_bytes e (of_nat (length s) :: u16) @ s"
| "wire e (StringF32 s) = mem_bytes e (of_nat (length s) :: u32) @ s"
| "wire e (StringF64 s) = mem_bytes e (of_nat (length s) :: u64) @ s"
| "wire e (StringVint s) = writeUint64_loop (of_nat (length s)) @ s"

fun write_item :: "endian \<Rightarrow> byte_array \<Rightarrow> item \<Rightarrow> byte_array result" where
  "write_item h b (Fint8 v) = writeFint8 h b v"
| "write_item h b (Fuint8 v) = writeFuint8 h b v"
| "write_item h b (Fint16 v) = writeFint16 h b v"
| "write_item h b (Fuint16 v) = writeFuint16 h b v"
| "write_item h b (Fint32 v) = writeFint32 h b v"
| "write_item h b (Fuint32 v) = writeFuint32 h b v"
| "write_item h b (Fint64 v) = writeFint64 h b v"
| "write_item h b (Fuint64 v) = writeFuint64 h b v"
| "write_item h b (Float v) = writeFloat h b v"
| "write_item h b (Double v) = writeDouble h b v"
| "write_item h b (Int32 v) = writeInt32 b v"
| "write_item h b (Uint32 v) = writeUint32 b v"
| "write_item h b (Int64 v) = writeInt64 b v"
| "write_item h b (Uint64 v) = writeUint64 b v"
| "write_item h b (StringF16 s) = writeStringF16 h b s"
| "write_item h b (StringF32 s) = writeStringF32 h b s"
| "write_item h b (StringF64 s) = writeStringF64 h b s"
| "write_item h b (StringVint s) = writeStringVint b s"

text \<open>The read that belongs to the type of an item; the value in the item is not used.\<close>

definition got :: "('v \<Rightarrow> item) \<Rightarrow> ('v \<times> byte_array) result \<Rightarrow> (item \<times> byte_array) result" where
  "got C r = rbind r (\<lambda>(v, b). Inr (C v, b))"

fun read_item :: "endian \<Rightarrow> byte_array \<Rightarrow> item \<Rightarrow> (item \<times> byte_array) result" where
  "read_item h b (Fint8 _) = got Fint8 (readFint8 h b)"
| "read_item h b (Fuint8 _) = got Fuint8 (readFuint8 h b)"
| "read_item h b (Fint16 _) = got Fint16 (readFint16 h b)"
| "read_item h b (Fuint16 _) = got Fuint16 (readFuint16 h b)"
| "read_item h b (Fint32 _) = got Fint32 (readFint32 h b)"
| "read_item h b (Fuint32 _) = got Fuint32 (readFuint32 h b)"
| "read_item h b (Fint64 _) = got Fint64 (readFint64 h b)"
| "read_item h b (Fuint64 _) = got Fuint64 (readFuint64 h b)"
| "read_item h b (Float _) = got Float (readFloat h b)"
| "read_item h b (Double _) = got Double (readDouble h b)"
| "read_item h b (Int32 _) = got Int32 (readInt32 h b)"
| "read_item h b (Uint32 _) = got Uint32 (readUint32 h b)"
| "read_item h b (Int64 _) = got Int64 (readInt64 h b)"
| "read_item h b (Uint64 _) = got Uint64 (readUint64 h b)"
| "read_item h b (StringF16 _) = got StringF16 (readStringF16 h b)"
| "read_item h b (StringF32 _) = got StringF32 (readStringF32 h b)"
| "read_item h b (StringF64 _) = got StringF64 (readStringF64 h b)"
| "read_item h b (StringVint _) = got StringVint (readStringVint h b)"

fun write_items :: "endian \<Rightarrow> byte_array \<Rightarrow> item list \<Rightarrow> byte_array result" where
  "write_items h b [] = Inr b"
| "write_items h b (it # its) = rbind (write_item h b it) (\<lambda>b'. write_items h b' its)"

fun read_items :: "endian \<Rightarrow> byte_array \<Rightarrow> item list \<Rightarrow> (item list \<times> byte_array) result" where
  "read_items h b [] = Inr ([], b)"
| "read_items h b (it # its) =
     rbind (read_item h b it) (\<lambda>(v, b1). rbind (read_items h b1 its) (\<lambda>(vs, b2). Inr (v # vs, b2)))"

text \<open>
  What the codecs can carry: strings whose length fits the prefix, and which are not empty (an empty
  string that ends the last block cannot be read back, see \<open>readStringF16_empty_at_end\<close>).
\<close>

fun item_ok :: "item \<Rightarrow> bool" where
  "item_ok (StringF16 s) \<longleftrightarrow> s \<noteq> [] \<and> length s < 2 ^ 16"
| "item_ok (StringF32 s) \<longleftrightarrow> s \<noteq> [] \<and> length s < 2 ^ 32"
| "item_ok (StringF64 s) \<longleftrightarrow> s \<noteq> [] \<and> length s < 2 ^ 64"
| "item_ok (StringVint s) \<longleftrightarrow> s \<noteq> [] \<and> length s < 2 ^ 64"
| "item_ok _ \<longleftrightarrow> True"

lemmas write_defs = writeFint8_def writeFuint8_def writeFint16_def writeFuint16_def writeFint32_def
  writeFuint32_def writeFint64_def writeFuint64_def writeFloat_def writeDouble_def writeInt32_def
  writeUint32_def writeInt64_def writeUint64_def writeStringF16_def writeStringF32_def
  writeStringF64_def writeStringVint_def

lemma writeUint_room [simp]:
  "\<not> 5 < length (writeUint32_loop v)" "\<not> 10 < length (writeUint64_loop w)"
  using length_writeUint32_loop [of 0 v] length_writeUint64_loop [of 0 w] by simp_all

text \<open>Every typed write puts the encoding of its value at the cursor.\<close>

lemma write_item_wire:
  assumes "ba_inv b"
  shows "\<exists>b'. write_item h b it = Inr b' \<and> ba.wrote b (wire (m_endian b) it) b'"
proof -
  note one = ba.put_wrote [OF assms]
  have two: "\<exists>b'. rbind (ba_write b xs) (\<lambda>b'. ba_write b' ys) = Inr b' \<and> ba.wrote b (xs @ ys) b'"
    for xs ys using one [of xs] ba.put_put [of b xs _ ys] by fastforce
  show ?thesis
    by (cases it) (simp_all add: write_defs mem_bytes_swap_unless one two Let_def)
qed


lemma got_eq: "r = Inr (v, b') \<Longrightarrow> got C r = Inr (C v, b')"
  by (simp add: got_def)

lemma readUint32_upcoming:
  "ba.upcoming b (writeUint32_loop v @ ys) \<Longrightarrow>
   \<exists>b'. readUint32 h b = Inr (v, b') \<and> ba.consumed b (length (writeUint32_loop v)) b'"
  using readUint32_loop_upcoming [of 0 b v ys h] by (simp add: readUint32_def)

lemma readUint64_upcoming:
  "ba.upcoming b (writeUint64_loop v @ ys) \<Longrightarrow>
   \<exists>b'. readUint64 h b = Inr (v, b') \<and> ba.consumed b (length (writeUint64_loop v)) b'"
  using readUint64_loop_upcoming [of 0 b v ys h] by (simp add: readUint64_def)

text \<open>A length prefix followed by that many bytes, for any reader of the prefix.\<close>

lemma read_prefixed:
  assumes "ba.upcoming b (pre @ s @ ys)" "s \<noteq> []"
    and "\<exists>b'. rd b = Inr (v, b') \<and> ba.consumed b (length pre) b'" and "n v = length s"
  shows "\<exists>b'. rbind (rd b) (\<lambda>(v, b'). ba_read b' (n v)) = Inr (s, b')
           \<and> ba.consumed b (length pre + length s) b'"
proof -
  obtain b1 where b1: "rd b = Inr (v, b1)" "ba.consumed b (length pre) b1" using assms(3) by blast
  then have "ba.upcoming b1 (s @ ys)" using ba.upcoming_consumed [OF assms(1)] by blast
  with assms(2) obtain b2 where "ba_read b1 (length s) = Inr (s, b2)" "ba.consumed b1 (length s) b2"
    using ba.get_upcoming by blast
  with b1 assms(4) ba.consumed_trans show ?thesis by fastforce
qed

lemmas read_defs = readFint8_def readFuint8_def readFint16_def readFuint16_def readFint32_def
  readFuint32_def readFint64_def readFuint64_def readFloat_def readDouble_def

lemmas read_string_defs = readStringF16_def readStringF32_def readStringF64_def readStringVint_def

lemma readInt32_upcoming:
  "ba.upcoming b (writeUint32_loop (EncodeZigzag32 v) @ ys) \<Longrightarrow>
   \<exists>b'. readInt32 h b = Inr (v, b') \<and> ba.consumed b (length (writeUint32_loop (EncodeZigzag32 v))) b'"
  using readUint32_upcoming [of b "EncodeZigzag32 v" ys h]
  by (auto simp: readInt32_def DecodeZigzag32_Encode)

lemma readInt64_upcoming:
  "ba.upcoming b (writeUint64_loop (EncodeZigzag64 v) @ ys) \<Longrightarrow>
   \<exists>b'. readInt64 h b = Inr (v, b') \<and> ba.consumed b (length (writeUint64_loop (EncodeZigzag64 v))) b'"
  using readUint64_upcoming [of b "EncodeZigzag64 v" ys h]
  by (auto simp: readInt64_def DecodeZigzag64_Encode)

lemma readFint8_readFuint8: "readFint8 h b = readFuint8 h b"
  by (simp add: read_defs)

text \<open>Every typed read returns the value whose encoding is coming up, and consumes exactly that.\<close>

lemma read_item_wire:
  assumes "item_ok it" "ba.upcoming b (wire (m_endian b) it @ ys)"
  shows "\<exists>b'. read_item h b it = Inr (it, b') \<and> ba.consumed b (length (wire (m_endian b) it)) b'"
proof -
  note xx16 = read_XX_upcoming [where 'a = 16 and b = b and host = h, simplified]
  note xx32 = read_XX_upcoming [where 'a = 32 and b = b and host = h, simplified]
  note xx64 = read_XX_upcoming [where 'a = 64 and b = b and host = h, simplified]
  show ?thesis
  proof (cases it)
    case (StringF16 s)
    then have "\<exists>b'. readStringF16 h b = Inr (s, b')
        \<and> ba.consumed b (length (mem_bytes (m_endian b) (of_nat (length s) :: u16)) + length s) b'"
      unfolding read_string_defs read_defs using assms
      by (intro read_prefixed [where v = "of_nat (length s) :: u16" and ys = ys])
         (auto intro: xx16 simp: unat_of_nat take_bit_nat_eq_self)
    with StringF16 show ?thesis by (auto dest: got_eq)
  next
    case (StringF32 s)
    then have "\<exists>b'. readStringF32 h b = Inr (s, b')
        \<and> ba.consumed b (length (mem_bytes (m_endian b) (of_nat (length s) :: u32)) + length s) b'"
      unfolding read_string_defs read_defs using assms
      by (intro read_prefixed [where v = "of_nat (length s) :: u32" and ys = ys])
         (auto intro: xx32 simp: unat_of_nat take_bit_nat_eq_self)
    with StringF32 show ?thesis by (auto dest: got_eq)
  next
    case (StringF64 s)
    then have "\<exists>b'. readStringF64 h b = Inr (s, b')
        \<and> ba.consumed b (length (mem_bytes (m_endian b) (of_nat (length s) :: u64)) + length s) b'"
      unfolding read_string_defs read_defs using assms
      by (intro read_prefixed [where v = "of_nat (length s) :: u64" and ys = ys])
         (auto intro: xx64 simp: unat_of_nat take_bit_nat_eq_self)
    with StringF64 show ?thesis by (auto dest: got_eq)
  next
    case (StringVint s)
    then have "\<exists>b'. readStringVint h b = Inr (s, b')
        \<and> ba.consumed b (length (writeUint64_loop (of_nat (length s))) + length s) b'"
      unfolding read_string_defs using assms
      by (intro read_prefixed [where v = "of_nat (length s) :: u64" and ys = ys])
         (auto intro: readUint64_upcoming simp: unat_of_nat take_bit_nat_eq_self)
    with StringVint show ?thesis by (auto dest: got_eq)
  qed (use assms(2) in \<open>auto simp: readFint8_readFuint8 readFint16_def readFuint16_def readFint32_def readFuint32_def
        readFint64_def readFuint64_def readFloat_def readDouble_def
        dest!: xx16 xx32 xx64 readUint32_upcoming [of _ _ _ h] readUint64_upcoming [of _ _ _ h]
          readInt32_upcoming [of _ _ _ h] readInt64_upcoming [of _ _ _ h]
          readFuint8_upcoming [of _ _ _ h] dest: got_eq\<close>)
qed


lemma write_items_wire:
  "ba_inv b \<Longrightarrow> \<exists>b'. write_items h b its = Inr b'
     \<and> ba.wrote b (concat (map (wire (m_endian b)) its)) b'"
proof (induction its arbitrary: b)
  case Nil
  then show ?case by (simp add: ba.wrote_Nil)
next
  case (Cons it its)
  obtain b1 where b1: "write_item h b it = Inr b1" "ba.wrote b (wire (m_endian b) it) b1"
    using write_item_wire [OF Cons.prems] by blast
  then have "ba_inv b1" "m_endian b1 = m_endian b" by (auto dest: ba.wroteD)
  with Cons.IH [of b1] ba.wrote_trans [OF b1(2)] b1(1) show ?case by force
qed

lemma read_items_wire:
  "list_all item_ok its \<Longrightarrow> ba.upcoming b (concat (map (wire (m_endian b)) its)) \<Longrightarrow>
   \<exists>b'. read_items h b its = Inr (its, b')
     \<and> ba.consumed b (length (concat (map (wire (m_endian b)) its))) b'"
proof (induction its arbitrary: b)
  case Nil
  then show ?case by (simp add: ba.consumed_0)
next
  case (Cons it its)
  let ?rest = "concat (map (wire (m_endian b)) its)"
  have up: "ba.upcoming b (wire (m_endian b) it @ ?rest)" using Cons.prems(2) by simp
  obtain b1 where b1: "read_item h b it = Inr (it, b1)"
    "ba.consumed b (length (wire (m_endian b) it)) b1"
    using read_item_wire [OF _ up] Cons.prems(1) by auto
  then have "m_endian b1 = m_endian b" "ba.upcoming b1 ?rest"
    using ba.upcoming_consumed [OF up] by (auto simp: ba.consumed_def)
  with Cons.IH [of b1] Cons.prems(1) ba.consumed_trans [OF b1(2)] b1(1) show ?case by force
qed

section \<open>Properties\<close>



lemma EncodeZigzag32_value:
  "uint (EncodeZigzag32 v) = (if sint v < 0 then - 2 * sint v - 1 else 2 * sint v)"
proof -
  have r: "- (2 ^ 31) \<le> sint v" "sint v < 2 ^ 31" using sint_ge [of v] sint_lt [of v] by simp_all
  have "EncodeZigzag32 v = word_of_int (if sint v < 0 then - 2 * sint v - 1 else 2 * sint v)"
    by (auto simp: EncodeZigzag32_def)
  then show ?thesis using r by (auto simp: uint_word_of_int take_bit_eq_mod)
qed

lemma EncodeZigzag64_value:
  "uint (EncodeZigzag64 v) = (if sint v < 0 then - 2 * sint v - 1 else 2 * sint v)"
proof -
  have r: "- (2 ^ 63) \<le> sint v" "sint v < 2 ^ 63" using sint_ge [of v] sint_lt [of v] by simp_all
  have "EncodeZigzag64 v = word_of_int (if sint v < 0 then - 2 * sint v - 1 else 2 * sint v)"
    by (auto simp: EncodeZigzag64_def)
  then show ?thesis using r by (auto simp: uint_word_of_int take_bit_eq_mod)
qed

text \<open>
  The zigzag codecs lose nothing: decoding an encoded value gives the value back, for
  every 32 and 64 bit integer, with the wrap-around of the machine; and values of small magnitude
  get small codes, \<open>2v\<close> for \<open>v \<ge> 0\<close> and \<open>-2v-1\<close> for \<open>v < 0\<close>.
\<close>

lemma zigzag_correct:
  "DecodeZigzag32 (EncodeZigzag32 v) = v \<and> DecodeZigzag64 (EncodeZigzag64 w) = w
   \<and> uint (EncodeZigzag32 v) = (if sint v < 0 then - 2 * sint v - 1 else 2 * sint v)
   \<and> uint (EncodeZigzag64 w) = (if sint w < 0 then - 2 * sint w - 1 else 2 * sint w)"
  by (simp only: DecodeZigzag32_Encode DecodeZigzag64_Encode EncodeZigzag32_value
      EncodeZigzag64_value simp_thms)

text \<open>
  What a 16 bit length prefix does to a longer string: the prefix is the length modulo \<open>2^16\<close>.
\<close>

lemma writeStringF16_wire:
  assumes "ba_inv b"
  shows "\<exists>b1. writeStringF16 h b s = Inr b1
    \<and> ba.wrote b (mem_bytes (m_endian b) (of_nat (length s) :: u16) @ s) b1"
  using write_item_wire [OF assms, of h "StringF16 s"] by simp

text \<open>
  \<open>writeStringF16\<close> stores the length of the string modulo \<open>2^16\<close> and all of its bytes, so
  \<open>readStringF16\<close> at the same place returns only the first \<open>length mod 2^16\<close> bytes of a longer string
  and leaves the cursor inside the string: the rest is read as the next item.
\<close>

lemma readStringF16_truncates:
  assumes "ba_inv b" "length s mod 2 ^ 16 \<noteq> 0"
  shows "\<exists>b1 b2 b3. writeStringF16 h1 b s = Inr b1 \<and> setPosition b1 (m_position b) = Inr b2
           \<and> readStringF16 h2 b2 = Inr (take (length s mod 2 ^ 16) s, b3)
           \<and> m_position b3 = m_position b1 - (length s - length s mod 2 ^ 16)"
proof -
  let ?n = "length s mod 2 ^ 16" and ?v = "of_nat (length s) :: u16"
  let ?w = "mem_bytes (m_endian b) ?v"
  obtain b1 where b1: "writeStringF16 h1 b s = Inr b1" "ba.wrote b (?w @ s) b1"
    using writeStringF16_wire [OF assms(1)] by blast
  obtain b2 where b2: "setPosition b1 (m_position b) = Inr b2" "ba.upcoming b2 (?w @ s)"
    "m_endian b2 = m_endian b" "m_position b2 = m_position b"
    using ba.wrote_upcoming [OF b1(2)] by blast
  have le: "?n \<le> length s" by simp
  have "\<exists>b'. readStringF16 h2 b2 = Inr (take ?n s, b') \<and> ba.consumed b2 (length ?w + length (take ?n s)) b'"
    unfolding readStringF16_def
  proof (rule read_prefixed [where v = ?v and ys = "drop ?n s"])
    show "ba.upcoming b2 (?w @ take ?n s @ drop ?n s)" using b2(2) by simp
    show "take ?n s \<noteq> []" using assms(2) by auto
    show "\<exists>b'. readFuint16 h2 b2 = Inr (?v, b') \<and> ba.consumed b2 (length ?w) b'"
      using read_XX_upcoming [where 'a = 16 and b = b2 and host = h2 and v = ?v and ys = s] b2(2,3)
      by (simp add: readFuint16_def)
    show "unat ?v = length (take ?n s)" by (simp add: unat_of_nat take_bit_eq_mod)
  qed
  then obtain b3 where b3: "readStringF16 h2 b2 = Inr (take ?n s, b3)"
    "ba.consumed b2 (length ?w + length (take ?n s)) b3" by blast
  have "m_position b3 = m_position b1 - (length s - ?n)"
    using b3(2) ba.wroteD [OF b1(2)] b2(4) le by (simp add: ba.consumed_def min_absorb2)
  with b1(1) b2(1) b3(1) show ?thesis by blast
qed

text \<open>
  An empty string whose two byte prefix ends the last block is written without an error, but
  reading it back fails: after the prefix the cursor is past the chain, and \<open>read\<close> dereferences the
  null current node before it looks at the size.
\<close>

lemma readStringF16_empty_at_end:
  assumes "ba_inv b" "m_position b + 2 = m_capacity b"
  shows "\<exists>b1 b2. writeStringF16 h b [] = Inr b1 \<and> setPosition b1 (m_position b) = Inr b2
           \<and> readStringF16 h b2 = Inl Null_deref"
proof -
  let ?w = "mem_bytes (m_endian b) (0 :: u16)"
  have len: "length ?w = 2" by simp
  have ne: "?w \<noteq> []" by (rule length_mem_bytes_ne) simp
  have wr: "writeStringF16 h b [] = ba_write b ?w"
  proof -
    have "rbind (ba_write b ?w) (\<lambda>b'. ba_write b' []) = ba_write b ?w"
      by (cases "ba_write b ?w") (simp_all add: ba_write_def)
    then show ?thesis by (simp add: writeStringF16_def writeFuint16_def mem_bytes_swap_unless)
  qed
  obtain b1 junk where b1: "ba_write b ?w = Inr b1" "ba_inv b1" "m_position b1 = m_position b + 2"
    "m_capacity b1 = m_capacity b"
    by (rule ba_write_spec [OF assms(1) ne]) (use len assms(2) in \<open>auto simp: getCapacity_def\<close>)
  have "ba.wrote b ?w b1" using ba.put_wrote [OF assms(1), of ?w] b1(1) by simp
  from ba.wrote_upcoming [OF this] obtain b2 where b2: "setPosition b1 (m_position b) = Inr b2"
    "ba.upcoming b2 ?w" "m_endian b2 = m_endian b" "m_position b2 = m_position b" by blast
  have cap2: "m_capacity b2 = m_capacity b"
    by (rule setPosition_spec [OF b1(2), of "m_position b"]) (use b2(1) b1(4) assms(2) in auto)
  obtain b3 where b3: "readFuint16 h b2 = Inr (0, b3)" "ba.consumed b2 2 b3"
    using read_XX_upcoming [where 'a = 16 and b = b2 and host = h and v = 0 and ys = "[]"] b2(2,3)
    by (auto simp: readFuint16_def)
  have inv3: "ba_inv b3" and pos3: "m_position b3 = m_position b + 2"
    using b3(2) b2(4) by (auto simp: ba.consumed_def)
  have inv2: "ba_inv b2" using b2(2) by (simp add: ba.upcoming_def)
  have room: "2 \<le> getReadSize b2"
    using ba_invD(5) [OF inv3] b3(2) b2(4) length_ba_data [OF inv2] length_ba_data [OF inv3] pos3
    by (simp add: ba.consumed_def getReadSize_def)
  obtain bs where bs: "ba_read b2 2 = Inr (bs, b3)"
    using b3(1) by (auto simp: readFuint16_def read_XX_def returns Let_def)
  have "m_position b2 < m_capacity b2" using b2(4) cap2 assms(2) by simp
  then have "m_capacity b3 = m_capacity b"
    by (rule ba_read_spec [OF inv2 room]) (use bs cap2 in simp)
  then have "m_cur b3 = None" using ba_invD(4,7) [OF inv3] pos3 assms(2) by (simp add: cursor_def)
  then have "ba_read b3 0 = Inl Null_deref"
    using ba_invD(1) [OF inv3] by (simp add: ba_read_def)
  with b3(1) have "readStringF16 h b2 = Inl Null_deref" by (simp add: readStringF16_def)
  with wr b1(1) b2(1) show ?thesis by simp
qed

end
