(* ===== verification/Fiber.thy ===== *)
theory Fiber
  imports Prelude
begin

text \<open>
  The coroutines of windgent/fiber.h and windgent/fiber.cc, as one thread sees them. A \<open>Fiber::ptr\<close>
  is an address; the thread-local variables \<open>t_fiber\<close>, \<open>t_threadFiber\<close> and the scheduler's
  \<open>t_scheduler_fiber\<close> and the two global counters are fields of the state. \<open>swapcontext\<close> is the field
  \<open>running\<close>: the fiber whose context executes. \<open>malloc\<close> and \<open>getcontext\<close> succeed. The user function of a
  fiber is a number, and whether it throws is an argument of the entry functions. The step relation
  is the discipline of the scheduler: the main fiber switches a fiber in, the fiber yields or ends.
\<close>

text \<open>\<open>TERMED\<close> is the \<open>TERM\<close> of the source, which is a keyword here.\<close>

datatype fiber_state = INIT | HOLD | EXEC | TERMED | READY | EXCEPT

datatype fiber_entry = MainFunc | CallerMainFunc

record fiber =
  m_id :: u64
  m_stacksize :: u32
  m_state :: fiber_state
  m_ctx :: "fiber_entry option"
  m_stack :: bool
  m_cb :: "nat option"

record fiber_thread =
  fibers :: "nat \<rightharpoonup> fiber"
  t_fiber :: "nat option"
  t_threadFiber :: "nat option"
  t_scheduler_fiber :: "nat option"
  running :: "nat option"
  s_fiber_id :: u64
  s_fiber_count :: u64

abbreviation the_fiber :: "fiber_thread \<Rightarrow> nat \<Rightarrow> fiber" where
  "the_fiber s p \<equiv> the (fibers s p)"

definition set_state :: "fiber_thread \<Rightarrow> nat \<Rightarrow> fiber_state \<Rightarrow> fiber_thread" where
  "set_state s p st = s\<lparr>fibers := (fibers s)(p \<mapsto> (the_fiber s p)\<lparr>m_state := st\<rparr>)\<rparr>"

section \<open>Construction and destruction\<close>

definition SetThis :: "fiber_thread \<Rightarrow> nat option \<Rightarrow> fiber_thread" where
  "SetThis s f = s\<lparr>t_fiber := f\<rparr>"

text \<open>\<open>Fiber::Fiber()\<close>, the main fiber of a thread: no stack, no function.\<close>

definition Fiber_main :: "nat \<Rightarrow> fiber_thread \<Rightarrow> fiber_thread" where
  "Fiber_main p s =
     (SetThis s (Some p))\<lparr>fibers := (fibers s)(p \<mapsto>
        \<lparr>m_id = 0, m_stacksize = 0, m_state = EXEC, m_ctx = None, m_stack = False, m_cb = None\<rparr>),
        s_fiber_count := s_fiber_count s + 1\<rparr>"

definition Fiber_new :: "u32 \<Rightarrow> nat \<Rightarrow> fiber_thread \<Rightarrow> nat option \<Rightarrow> u32 \<Rightarrow> bool \<Rightarrow> fiber_thread" where
  "Fiber_new config p s cb stacksize use_caller =
     s\<lparr>fibers := (fibers s)(p \<mapsto>
         \<lparr>m_id = s_fiber_id s + 1, m_stacksize = (if stacksize \<noteq> 0 then stacksize else config), m_state = INIT,
          m_ctx = Some (if \<not> use_caller then MainFunc else CallerMainFunc), m_stack = True, m_cb = cb\<rparr>),
       s_fiber_id := s_fiber_id s + 1, s_fiber_count := s_fiber_count s + 1\<rparr>"

text \<open>
  \<open>~Fiber\<close>. The flag of the result says whether the stack was freed: \<open>MallocStackAllocator::Dealloc\<close>
  frees its argument only when it is null.
\<close>

definition Dealloc :: "bool \<Rightarrow> bool" where
  "Dealloc ptr \<longleftrightarrow> \<not> ptr"

definition Fiber_destroy :: "fiber_thread \<Rightarrow> nat \<Rightarrow> (bool \<times> fiber_thread) result" where
  "Fiber_destroy s p =
     (case fibers s p of
        None \<Rightarrow> Inl Null_deref
      | Some f \<Rightarrow>
          let s = s\<lparr>s_fiber_count := s_fiber_count s - 1\<rparr> in
          if m_stack f then
            if m_state f \<in> {TERMED, EXCEPT, INIT}
            then Inr (Dealloc (m_stack f), s\<lparr>fibers := (fibers s)(p := None)\<rparr>) else Inl Assert_failed
          else if m_cb f \<noteq> None \<or> m_state f \<noteq> EXEC then Inl Assert_failed
          else
            let s = (if t_fiber s = Some p then SetThis s None else s) in
            Inr (True, s\<lparr>fibers := (fibers s)(p := None)\<rparr>))"

definition Fiber_reset :: "fiber_thread \<Rightarrow> nat \<Rightarrow> nat option \<Rightarrow> fiber_thread result" where
  "Fiber_reset s p cb =
     (case fibers s p of
        None \<Rightarrow> Inl Null_deref
      | Some f \<Rightarrow>
          if \<not> m_stack f \<or> m_state f \<notin> {TERMED, EXCEPT, INIT} then Inl Assert_failed
          else Inr (s\<lparr>fibers := (fibers s)(p \<mapsto> f\<lparr>m_cb := cb, m_ctx := Some MainFunc, m_state := INIT\<rparr>)\<rparr>))"

section \<open>Switching\<close>

definition fiber_call :: "fiber_thread \<Rightarrow> nat \<Rightarrow> fiber_thread result" where
  "fiber_call s p =
     (let s = set_state (SetThis s (Some p)) p EXEC in
      if t_threadFiber s = None then Inl Null_deref else Inr (s\<lparr>running := Some p\<rparr>))"

definition fiber_back :: "fiber_thread \<Rightarrow> nat \<Rightarrow> fiber_thread result" where
  "fiber_back s p =
     (let s = SetThis s (t_threadFiber s) in
      if t_threadFiber s = None then Inl Null_deref else Inr (s\<lparr>running := t_threadFiber s\<rparr>))"

definition swapIn :: "fiber_thread \<Rightarrow> nat \<Rightarrow> fiber_thread result" where
  "swapIn s p =
     (let s = SetThis s (Some p) in
      if m_state (the_fiber s p) = EXEC then Inl Assert_failed
      else let s = set_state s p EXEC in
        if t_scheduler_fiber s = None then Inl Null_deref else Inr (s\<lparr>running := Some p\<rparr>))"

definition swapOut :: "fiber_thread \<Rightarrow> nat \<Rightarrow> fiber_thread result" where
  "swapOut s p =
     (let s = SetThis s (t_scheduler_fiber s) in
      if t_scheduler_fiber s = None then Inl Null_deref else Inr (s\<lparr>running := t_scheduler_fiber s\<rparr>))"

text \<open>\<open>GetThis\<close>; \<open>q\<close> is the address of a main fiber, should one have to be made.\<close>

definition GetThis :: "nat \<Rightarrow> fiber_thread \<Rightarrow> nat \<times> fiber_thread" where
  "GetThis q s =
     (case t_fiber s of
        Some p \<Rightarrow> (p, s)
      | None \<Rightarrow> (q, (Fiber_main q s)\<lparr>t_threadFiber := Some q\<rparr>))"

definition YieldToReady :: "nat \<Rightarrow> fiber_thread \<Rightarrow> fiber_thread result" where
  "YieldToReady q s =
     (let (cur, s) = GetThis q s in
      if m_state (the_fiber s cur) \<noteq> EXEC then Inl Assert_failed
      else swapOut (set_state s cur READY) cur)"

definition YieldToHold :: "nat \<Rightarrow> fiber_thread \<Rightarrow> fiber_thread result" where
  "YieldToHold q s =
     (let (cur, s) = GetThis q s in
      if m_state (the_fiber s cur) \<noteq> EXEC then Inl Assert_failed
      else swapOut (set_state s cur HOLD) cur)"

definition GetFiberId :: "fiber_thread \<Rightarrow> u64" where
  "GetFiberId s = (case t_fiber s of Some p \<Rightarrow> m_id (the_fiber s p) | None \<Rightarrow> 0)"

definition TotalFibers :: "fiber_thread \<Rightarrow> u64" where
  "TotalFibers s = s_fiber_count s"

text \<open>
  The entry functions, from the return of the user function to the switch back. An empty
  \<open>std::function\<close> throws when it is called.
\<close>

definition entry_end :: "fiber_thread \<Rightarrow> nat \<Rightarrow> bool \<Rightarrow> fiber_thread" where
  "entry_end s cur throws =
     (let f = the_fiber s cur in
      if throws \<or> m_cb f = None then set_state s cur EXCEPT
      else s\<lparr>fibers := (fibers s)(cur \<mapsto> f\<lparr>m_cb := None, m_state := TERMED\<rparr>)\<rparr>)"

definition run_MainFunc :: "nat \<Rightarrow> fiber_thread \<Rightarrow> bool \<Rightarrow> fiber_thread result" where
  "run_MainFunc q s throws =
     (let (cur, s) = GetThis q s in swapOut (entry_end s cur throws) cur)"

definition run_CallerMainFunc :: "nat \<Rightarrow> fiber_thread \<Rightarrow> bool \<Rightarrow> fiber_thread result" where
  "run_CallerMainFunc q s throws =
     (let (cur, s) = GetThis q s in fiber_back (entry_end s cur throws) cur)"

section \<open>The discipline of a scheduling thread\<close>

text \<open>
  A thread of the scheduler: its main fiber is the scheduling fiber (\<open>Scheduler::run\<close>), it makes fibers,
  switches one in that is not executing, and that fiber yields or ends.
\<close>

definition thread_start :: "nat \<Rightarrow> fiber_thread" where
  "thread_start q =
     (snd (GetThis q \<lparr>fibers = Map.empty, t_fiber = None, t_threadFiber = None, t_scheduler_fiber = None,
        running = Some q, s_fiber_id = 0, s_fiber_count = 0\<rparr>))\<lparr>t_scheduler_fiber := Some q\<rparr>"

inductive fiber_step :: "fiber_thread \<Rightarrow> fiber_thread \<Rightarrow> bool" where
  step_new: "p \<notin> dom (fibers s) \<Longrightarrow> fiber_step s (Fiber_new c p s cb n False)"
| step_in: "running s = t_scheduler_fiber s \<Longrightarrow> p \<in> dom (fibers s) \<Longrightarrow> Some p \<noteq> t_scheduler_fiber s \<Longrightarrow>
    m_state (the_fiber s p) \<in> {INIT, HOLD, READY} \<Longrightarrow> swapIn s p = Inr s' \<Longrightarrow> fiber_step s s'"
| step_ready: "running s \<noteq> t_scheduler_fiber s \<Longrightarrow> YieldToReady q s = Inr s' \<Longrightarrow> fiber_step s s'"
| step_hold: "running s \<noteq> t_scheduler_fiber s \<Longrightarrow> YieldToHold q s = Inr s' \<Longrightarrow> fiber_step s s'"
| step_end: "running s \<noteq> t_scheduler_fiber s \<Longrightarrow> run_MainFunc q s throws = Inr s' \<Longrightarrow> fiber_step s s'"
| step_reset: "running s = t_scheduler_fiber s \<Longrightarrow> Some p \<noteq> t_scheduler_fiber s \<Longrightarrow>
    Fiber_reset s p cb = Inr s' \<Longrightarrow> fiber_step s s'"

inductive fiber_reachable :: "fiber_thread \<Rightarrow> bool" where
  reach_start: "fiber_reachable (thread_start q)"
| reach_step: "fiber_reachable s \<Longrightarrow> fiber_step s s' \<Longrightarrow> fiber_reachable s'"

definition fiber_inv :: "fiber_thread \<Rightarrow> bool" where
  "fiber_inv s \<longleftrightarrow> t_scheduler_fiber s \<noteq> None \<and> t_threadFiber s = t_scheduler_fiber s
     \<and> t_fiber s = running s \<and> running s \<noteq> None
     \<and> fibers s (the (t_scheduler_fiber s)) \<noteq> None \<and> fibers s (the (running s)) \<noteq> None
     \<and> (\<forall>p f. fibers s p = Some f \<longrightarrow>
          (m_state f = EXEC \<longleftrightarrow> Some p = t_scheduler_fiber s \<or> Some p = running s))"

lemma fiber_inv_start: "fiber_inv (thread_start q)"
  by (auto simp: fiber_inv_def thread_start_def GetThis_def Fiber_main_def SetThis_def)

lemmas switch_defs = swapIn_def swapOut_def YieldToReady_def YieldToHold_def run_MainFunc_def entry_end_def
  GetThis_def SetThis_def set_state_def Let_def

lemma fiber_inv_step: "fiber_step s s' \<Longrightarrow> fiber_inv s \<Longrightarrow> fiber_inv s'"
proof (induction rule: fiber_step.induct)
  case (step_new p s c cb n)
  then show ?case by (auto simp: fiber_inv_def Fiber_new_def)
next
  case (step_in s p s')
  then show ?case by (auto simp: fiber_inv_def switch_defs split: if_splits)
next
  case (step_ready s q s')
  then show ?case by (auto simp: fiber_inv_def switch_defs split: if_splits)
next
  case (step_hold s q s')
  then show ?case by (auto simp: fiber_inv_def switch_defs split: if_splits)
next
  case (step_end s q throws s')
  then show ?case by (auto simp: fiber_inv_def switch_defs split: if_splits)
next
  case (step_reset s p cb s')
  then show ?case by (auto simp: fiber_inv_def Fiber_reset_def split: if_splits option.splits)
qed

lemma fiber_reachable_inv: "fiber_reachable s \<Longrightarrow> fiber_inv s"
  by (induction rule: fiber_reachable.induct) (auto intro: fiber_inv_start fiber_inv_step)

section \<open>Properties\<close>

text \<open>
  \<^bold>\<open>C25\<close>. On a scheduling thread \<open>t_fiber\<close> always names the fiber that executes, and the executing
  state \<open>EXEC\<close> is held by exactly that fiber and the main fiber. So the assertions of the switches never
  fail: whenever a fiber other than the main one executes, \<open>YieldToReady\<close>, \<open>YieldToHold\<close> and the end of
  its function (with or without an exception) return control to the main fiber, with the state
  \<open>READY\<close>, \<open>HOLD\<close> or one of \<open>TERM\<close> and \<open>EXCEPT\<close>.
\<close>

theorem fiber_discipline:
  assumes "fiber_reachable s"
  shows "t_fiber s = running s
    \<and> (\<forall>p f. fibers s p = Some f \<longrightarrow> (m_state f = EXEC \<longleftrightarrow> Some p = t_scheduler_fiber s \<or> Some p = running s))
    \<and> (\<forall>p. running s = Some p \<and> running s \<noteq> t_scheduler_fiber s \<longrightarrow>
         (\<exists>s'. YieldToReady q s = Inr s' \<and> running s' = t_scheduler_fiber s \<and> m_state (the_fiber s' p) = READY)
       \<and> (\<exists>s'. YieldToHold q s = Inr s' \<and> running s' = t_scheduler_fiber s \<and> m_state (the_fiber s' p) = HOLD)
       \<and> (\<exists>s'. run_MainFunc q s throws = Inr s' \<and> running s' = t_scheduler_fiber s
            \<and> m_state (the_fiber s' p) = (if throws \<or> m_cb (the_fiber s p) = None then EXCEPT else TERMED)))
    \<and> (\<forall>p f. running s = t_scheduler_fiber s \<and> fibers s p = Some f \<and> Some p \<noteq> t_scheduler_fiber s \<longrightarrow>
         (\<exists>s'. swapIn s p = Inr s' \<and> running s' = Some p \<and> m_state (the_fiber s' p) = EXEC))"
proof -
  have inv: "fiber_inv s" using assms by (rule fiber_reachable_inv)
  have ret: "\<exists>s'. swapOut s1 p = Inr s' \<and> running s' = t_scheduler_fiber s1 \<and> fibers s' = fibers s1"
    if "t_scheduler_fiber s1 \<noteq> None" for s1 p using that by (auto simp: swapOut_def SetThis_def)
  have yield: "(\<exists>s'. YieldToReady q s = Inr s' \<and> running s' = t_scheduler_fiber s \<and> m_state (the_fiber s' p) = READY)
       \<and> (\<exists>s'. YieldToHold q s = Inr s' \<and> running s' = t_scheduler_fiber s \<and> m_state (the_fiber s' p) = HOLD)
       \<and> (\<exists>s'. run_MainFunc q s throws = Inr s' \<and> running s' = t_scheduler_fiber s
            \<and> m_state (the_fiber s' p) = (if throws \<or> m_cb (the_fiber s p) = None then EXCEPT else TERMED))"
    if "running s = Some p" for p
    using inv that by (auto simp: fiber_inv_def switch_defs)
  have "\<exists>s'. swapIn s p = Inr s' \<and> running s' = Some p \<and> m_state (the_fiber s' p) = EXEC"
    if "running s = t_scheduler_fiber s" "fibers s p = Some f" "Some p \<noteq> t_scheduler_fiber s" for p f
    using inv that by (auto simp: fiber_inv_def switch_defs)
  with yield inv show ?thesis by (auto simp: fiber_inv_def)
qed

text \<open>A thread that has made a fiber and switched it in.\<close>

definition demo_thread :: fiber_thread where
  "demo_thread = (set_state (Fiber_new 131072 2 (thread_start 1) (Some 9) 0 False) 2 EXEC)
     \<lparr>t_fiber := Some 2, running := Some 2\<rparr>"

lemma demo_thread_reachable: "fiber_reachable demo_thread"
proof -
  have 1: "fiber_reachable (Fiber_new 131072 2 (thread_start 1) (Some 9) 0 False)" (is "fiber_reachable ?s")
    by (rule reach_step [OF reach_start], rule step_new)
       (simp add: thread_start_def GetThis_def Fiber_main_def SetThis_def)
  have "fiber_step ?s demo_thread"
    by (rule step_in [where p = 2])
       (simp_all add: demo_thread_def thread_start_def Fiber_new_def GetThis_def Fiber_main_def SetThis_def
         swapIn_def set_state_def Let_def)
  with 1 show ?thesis by (rule reach_step)
qed

theorem fiber_discipline_witness:
  "t_fiber demo_thread = Some 2 \<and> (\<exists>s'. YieldToHold 0 demo_thread = Inr s' \<and> running s' = Some 1)"
proof -
  have r: "running demo_thread = Some 2" "t_scheduler_fiber demo_thread = Some 1"
    by (simp_all add: demo_thread_def thread_start_def Fiber_new_def GetThis_def Fiber_main_def
        SetThis_def set_state_def)
  show ?thesis using fiber_discipline [OF demo_thread_reachable, of 0 False] r by fastforce
qed

text \<open>
  The stack of a fiber is never given back: \<open>~Fiber\<close> of a fiber with a stack either fails its
  assertion or ends without freeing the stack.
\<close>

lemma Fiber_destroy_leaks_stack:
  assumes "fibers s p = Some f" "m_stack f"
  shows "Fiber_destroy s p = Inl Assert_failed
    \<or> (\<exists>s'. Fiber_destroy s p = Inr (False, s') \<and> s_fiber_count s' = s_fiber_count s - 1)"
  using assms by (simp add: Fiber_destroy_def Dealloc_def Let_def)

end
