(* ===== verification/Scheduler.thy ===== *)
theory Scheduler
  imports Fiber
begin

text \<open>
  The fiber scheduler of windgent/scheduler.h and windgent/scheduler.cc. The state \<open>scheduler\<close> holds the
  task queue, the counters and flags, the states of the fibers, and the threads that execute
  \<open>Scheduler::run\<close>. The loop of \<open>run\<close> is cut where another thread can interfere: the section under the
  lock (\<open>run_top\<close>), the choice of what to execute and the switch into a fiber (\<open>run_dispatch\<close>), the
  return of the fiber with the state it left (\<open>fiber_returns\<close>), the decrement of the counter
  (\<open>run_after\<close>) and the evaluation of the state (\<open>run_reschedule\<close>). \<open>sched_step\<close> lets any thread make its
  next move and anyone schedule a task, so the invariants hold for all interleavings. The virtual
  \<open>tickle\<close> and \<open>idle\<close> belong to the subclass (theory IO\_Manager); whether \<open>tickle\<close> is called is returned.
\<close>

section \<open>Tasks\<close>

record task =
  ft_fiber :: "nat option"
  ft_cb :: "nat option"
  threadId :: int

definition task_reset :: task where
  "task_reset = \<lparr>ft_fiber = None, ft_cb = None, threadId = - 1\<rparr>"

definition fiber_task :: "nat \<Rightarrow> int \<Rightarrow> task" where
  "fiber_task f thr = \<lparr>ft_fiber = Some f, ft_cb = None, threadId = thr\<rparr>"

definition cb_task :: "nat option \<Rightarrow> int \<Rightarrow> task" where
  "cb_task cb thr = \<lparr>ft_fiber = None, ft_cb = cb, threadId = thr\<rparr>"

section \<open>State\<close>

datatype pc = Top | Dispatch | InFiber | AfterFiber | ReschedFiber | InCb | AfterCb | ReschedCb
  | InIdle | AfterIdle | Exited

record thread =
  th_id :: int
  th_pc :: pc
  th_ft :: task
  th_active :: bool
  th_cb_fiber :: "nat option"
  th_idle_fiber :: nat

record scheduler =
  m_fibers :: "task list"
  m_activeThreadCount :: nat
  m_idleThreadCount :: nat
  m_stopping :: bool
  m_autostop :: bool
  m_threadCount :: nat
  m_rootFiber :: "nat option"
  m_rootThread :: int
  fstate :: "nat \<Rightarrow> fiber_state"
  threads :: "thread list"

text \<open>
  The constructor. \<open>GetThis()\<close> is given by \<open>has_this\<close>; \<open>root\<close> and \<open>tid\<close> are the address of the root
  fiber and the identifier of the calling thread.
\<close>

definition Scheduler_new :: "nat \<Rightarrow> bool \<Rightarrow> bool \<Rightarrow> nat \<Rightarrow> int \<Rightarrow> scheduler result" where
  "Scheduler_new nthreads use_caller has_this root tid =
     (if nthreads = 0 \<or> use_caller \<and> has_this then Inl Assert_failed
      else Inr \<lparr>m_fibers = [], m_activeThreadCount = 0, m_idleThreadCount = 0, m_stopping = True, m_autostop = False,
        m_threadCount = (if use_caller then nthreads - 1 else nthreads),
        m_rootFiber = (if use_caller then Some root else None), m_rootThread = (if use_caller then tid else - 1),
        fstate = (\<lambda>_. INIT), threads = []\<rparr>)"

definition hasIdleThreads :: "scheduler \<Rightarrow> bool" where
  "hasIdleThreads s \<longleftrightarrow> m_idleThreadCount s > 0"

section \<open>Scheduling a task\<close>

text \<open>The result says whether \<open>tickle\<close> is needed.\<close>

definition scheduleNoLock :: "scheduler \<Rightarrow> task \<Rightarrow> bool \<times> scheduler" where
  "scheduleNoLock s ft =
     (m_fibers s = [],
      if ft_fiber ft \<noteq> None \<or> ft_cb ft \<noteq> None then s\<lparr>m_fibers := m_fibers s @ [ft]\<rparr> else s)"

definition schedule :: "scheduler \<Rightarrow> task \<Rightarrow> bool \<times> scheduler" where
  "schedule s ft = scheduleNoLock s ft"

text \<open>The overload for a range of callbacks, as \<open>idle\<close> uses it for the expired timers.\<close>

fun schedule_all :: "scheduler \<Rightarrow> nat option list \<Rightarrow> bool \<times> scheduler" where
  "schedule_all s [] = (False, s)"
| "schedule_all s (cb # cbs) =
     (let (t, s') = scheduleNoLock s (cb_task cb (- 1)); (t', s'') = schedule_all s' cbs in (t \<or> t', s''))"

definition Scheduler_stopping :: "scheduler \<Rightarrow> bool" where
  "Scheduler_stopping s \<longleftrightarrow>
     m_stopping s \<and> m_autostop s \<and> m_fibers s = [] \<and> m_activeThreadCount s = 0"

section \<open>The loop of a thread\<close>

text \<open>
  The search through the queue: tasks for another thread are skipped and ask for a \<open>tickle\<close>, fibers that
  execute are skipped, the first other task is taken out. The result is the task, the rest of the
  queue, and \<open>tickle_me\<close>.
\<close>

fun pick :: "int \<Rightarrow> (nat \<Rightarrow> fiber_state) \<Rightarrow> task list \<Rightarrow> (task option \<times> task list \<times> bool) result" where
  "pick tid st [] = Inr (None, [], False)"
| "pick tid st (ft # q) =
     (if threadId ft \<noteq> - 1 \<and> threadId ft \<noteq> tid then
        rbind (pick tid st q) (\<lambda>(r, q', t). Inr (r, ft # q', True))
      else if ft_fiber ft = None \<and> ft_cb ft = None then Inl Assert_failed
      else if (case ft_fiber ft of Some f \<Rightarrow> st f = EXEC | None \<Rightarrow> False) then
        rbind (pick tid st q) (\<lambda>(r, q', t). Inr (r, ft # q', t))
      else Inr (Some ft, q, q \<noteq> []))"

text \<open>\<open>run\<close> from the head of the loop to the end of the locked section, for a thread.\<close>

definition run_top :: "scheduler \<Rightarrow> thread \<Rightarrow> (bool \<times> scheduler \<times> thread) result" where
  "run_top s th =
     rbind (pick (th_id th) (fstate s) (m_fibers s)) (\<lambda>(r, q, tickle_me).
       case r of
         None \<Rightarrow> Inr (tickle_me, s\<lparr>m_fibers := q\<rparr>, th\<lparr>th_pc := Dispatch, th_ft := task_reset, th_active := False\<rparr>)
       | Some ft \<Rightarrow> Inr (tickle_me, s\<lparr>m_fibers := q, m_activeThreadCount := m_activeThreadCount s + 1\<rparr>,
           th\<lparr>th_pc := Dispatch, th_ft := ft, th_active := True\<rparr>))"

text \<open>\<open>Fiber::swapIn\<close> as far as the scheduler sees it: the assertion and the state.\<close>

definition swap_in :: "scheduler \<Rightarrow> nat \<Rightarrow> scheduler result" where
  "swap_in s f = (if fstate s f = EXEC then Inl Assert_failed else Inr (s\<lparr>fstate := (fstate s)(f := EXEC)\<rparr>))"

text \<open>
  The three branches of the loop up to the switch. \<open>fresh\<close> is the address of a new callback fiber; an old
  one is reset, which asserts that it is in a final state.
\<close>

definition run_dispatch :: "nat \<Rightarrow> scheduler \<Rightarrow> thread \<Rightarrow> (scheduler \<times> thread) result" where
  "run_dispatch fresh s th =
     (let ft = th_ft th; runnable = (case ft_fiber ft of Some f \<Rightarrow> fstate s f \<notin> {TERMED, EXCEPT} | None \<Rightarrow> False) in
      if runnable then rbind (swap_in s (the (ft_fiber ft))) (\<lambda>s'. Inr (s', th\<lparr>th_pc := InFiber\<rparr>))
      else if ft_cb ft \<noteq> None then
        case th_cb_fiber th of
          Some f \<Rightarrow>
            if fstate s f \<notin> {TERMED, EXCEPT, INIT} then Inl Assert_failed
            else rbind (swap_in (s\<lparr>fstate := (fstate s)(f := INIT)\<rparr>) f)
              (\<lambda>s'. Inr (s', th\<lparr>th_pc := InCb, th_ft := task_reset\<rparr>))
        | None \<Rightarrow>
            rbind (swap_in (s\<lparr>fstate := (fstate s)(fresh := INIT)\<rparr>) fresh)
              (\<lambda>s'. Inr (s', th\<lparr>th_pc := InCb, th_ft := task_reset, th_cb_fiber := Some fresh\<rparr>))
      else if th_active th then
        Inr (s\<lparr>m_activeThreadCount := m_activeThreadCount s - 1\<rparr>, th\<lparr>th_pc := Top\<rparr>)
      else if fstate s (th_idle_fiber th) = TERMED then Inr (s, th\<lparr>th_pc := Exited\<rparr>)
      else rbind (swap_in (s\<lparr>m_idleThreadCount := m_idleThreadCount s + 1\<rparr>) (th_idle_fiber th))
        (\<lambda>s'. Inr (s', th\<lparr>th_pc := InIdle\<rparr>)))"

text \<open>The fiber a thread executes gives control back, in the state \<open>st\<close>.\<close>

definition current_fiber :: "thread \<Rightarrow> nat option" where
  "current_fiber th =
     (case th_pc th of
        InFiber \<Rightarrow> ft_fiber (th_ft th)
      | InCb \<Rightarrow> th_cb_fiber th
      | InIdle \<Rightarrow> Some (th_idle_fiber th)
      | _ \<Rightarrow> None)"

definition fiber_returns :: "fiber_state \<Rightarrow> scheduler \<Rightarrow> thread \<Rightarrow> (scheduler \<times> thread) result" where
  "fiber_returns st s th =
     (case current_fiber th of
        None \<Rightarrow> Inl Logic_error
      | Some f \<Rightarrow>
          Inr (s\<lparr>fstate := (fstate s)(f := st)\<rparr>,
            th\<lparr>th_pc := (case th_pc th of InFiber \<Rightarrow> AfterFiber | InCb \<Rightarrow> AfterCb | _ \<Rightarrow> AfterIdle)\<rparr>))"

text \<open>\<open>--m_activeThreadCount\<close>, or \<open>--m_idleThreadCount\<close> and the state of the idle fiber.\<close>

definition run_after :: "scheduler \<Rightarrow> thread \<Rightarrow> (scheduler \<times> thread) result" where
  "run_after s th =
     (case th_pc th of
        AfterFiber \<Rightarrow> Inr (s\<lparr>m_activeThreadCount := m_activeThreadCount s - 1\<rparr>, th\<lparr>th_pc := ReschedFiber\<rparr>)
      | AfterCb \<Rightarrow> Inr (s\<lparr>m_activeThreadCount := m_activeThreadCount s - 1\<rparr>, th\<lparr>th_pc := ReschedCb\<rparr>)
      | AfterIdle \<Rightarrow>
          let f = th_idle_fiber th in
          Inr (s\<lparr>m_idleThreadCount := m_idleThreadCount s - 1,
                 fstate := (if fstate s f \<notin> {TERMED, EXCEPT} then (fstate s)(f := HOLD) else fstate s)\<rparr>,
            th\<lparr>th_pc := Top\<rparr>)
      | _ \<Rightarrow> Inl Logic_error)"

definition run_reschedule :: "scheduler \<Rightarrow> thread \<Rightarrow> (bool \<times> scheduler \<times> thread) result" where
  "run_reschedule s th =
     (case th_pc th of
        ReschedFiber \<Rightarrow>
          (case ft_fiber (th_ft th) of
             None \<Rightarrow> Inl Null_deref
           | Some f \<Rightarrow>
               let th' = th\<lparr>th_pc := Top, th_ft := task_reset\<rparr> in
               if fstate s f = READY then let (t, s') = schedule s (fiber_task f (- 1)) in Inr (t, s', th')
               else if fstate s f \<notin> {TERMED, EXCEPT} then Inr (False, s\<lparr>fstate := (fstate s)(f := HOLD)\<rparr>, th')
               else Inr (False, s, th'))
      | ReschedCb \<Rightarrow>
          (case th_cb_fiber th of
             None \<Rightarrow> Inl Null_deref
           | Some f \<Rightarrow>
               if fstate s f = READY then
                 let (t, s') = schedule s (fiber_task f (- 1)) in Inr (t, s', th\<lparr>th_pc := Top, th_cb_fiber := None\<rparr>)
               else if fstate s f \<in> {TERMED, EXCEPT} then
                 Inr (False, s\<lparr>fstate := (fstate s)(f := INIT)\<rparr>, th\<lparr>th_pc := Top\<rparr>)
               else Inr (False, s\<lparr>fstate := (fstate s)(f := HOLD)\<rparr>, th\<lparr>th_pc := Top, th_cb_fiber := None\<rparr>))
      | _ \<Rightarrow> Inl Logic_error)"

section \<open>Start and stop\<close>

text \<open>A thread that enters \<open>run\<close>, with a new idle fiber.\<close>

definition new_thread :: "int \<Rightarrow> nat \<Rightarrow> thread" where
  "new_thread tid idle =
     \<lparr>th_id = tid, th_pc = Top, th_ft = task_reset, th_active = False, th_cb_fiber = None, th_idle_fiber = idle\<rparr>"

definition Scheduler_start :: "(nat \<Rightarrow> int \<times> nat) \<Rightarrow> scheduler \<Rightarrow> scheduler result" where
  "Scheduler_start mk s =
     (if \<not> m_stopping s then Inr s
      else if threads s \<noteq> [] then Inl Assert_failed
      else Inr (s\<lparr>m_stopping := False,
        threads := map (\<lambda>i. new_thread (fst (mk i)) (snd (mk i))) [0..<m_threadCount s]\<rparr>))"

text \<open>
  What \<open>stop\<close> does after it has set the flags: return at once, execute \<open>run\<close> in the root fiber and
  then join the threads, or just join them. The first component counts the calls of \<open>tickle\<close>; \<open>stop_f\<close>
  is the virtual \<open>stopping\<close>, \<open>is_this\<close> says whether \<open>GetThis()\<close> is this scheduler.
\<close>

datatype stop_action = Stop_returns | Stop_calls nat | Stop_joins

definition Scheduler_stop :: "(scheduler \<Rightarrow> bool) \<Rightarrow> bool \<Rightarrow> scheduler \<Rightarrow> (nat \<times> stop_action \<times> scheduler) result" where
  "Scheduler_stop stop_f is_this s =
     (let s = s\<lparr>m_autostop := True\<rparr>;
          only_caller = (case m_rootFiber s of
            Some f \<Rightarrow> m_threadCount s = 0 \<and> fstate s f \<in> {TERMED, INIT} | None \<Rightarrow> False);
          s = (if only_caller then s\<lparr>m_stopping := True\<rparr> else s) in
      if only_caller \<and> stop_f s then Inr (0, Stop_returns, s)
      else if (m_rootThread s \<noteq> - 1) \<noteq> is_this then Inl Assert_failed
      else
        let s = s\<lparr>m_stopping := True\<rparr> in
        case m_rootFiber s of
          None \<Rightarrow> Inr (m_threadCount s, Stop_joins, s)
        | Some f \<Rightarrow> Inr (m_threadCount s + 1, if \<not> stop_f s then Stop_calls f else Stop_joins, s))"

text \<open>The destructor; the result says whether it resets \<open>t_scheduler\<close>.\<close>

definition Scheduler_destroy :: "bool \<Rightarrow> scheduler \<Rightarrow> bool result" where
  "Scheduler_destroy is_this s = (if m_stopping s then Inr is_this else Inl Assert_failed)"

lemma stop_stops: "Scheduler_stop stop_f is_this s = Inr (n, act, s') \<Longrightarrow> m_stopping s' \<and> m_autostop s'"
  by (auto simp: Scheduler_stop_def Let_def split: option.splits if_splits)

text \<open>
  \<open>switchTo\<close>: \<open>this_sched\<close> says whether the current scheduler is null, this one, or another; the result
  says whether the current fiber \<open>cur\<close> yields.
\<close>

definition switchTo :: "bool option \<Rightarrow> int \<Rightarrow> nat \<Rightarrow> scheduler \<Rightarrow> int \<Rightarrow> (bool \<times> scheduler) result" where
  "switchTo this_sched tid cur s thr =
     (case this_sched of
        None \<Rightarrow> Inl Assert_failed
      | Some is_this \<Rightarrow>
          if is_this \<and> (thr = - 1 \<or> thr = tid) then Inr (False, s)
          else Inr (True, snd (schedule s (fiber_task cur thr))))"

section \<open>Interleavings\<close>

text \<open>The next move of thread \<open>i\<close>; \<open>st\<close> is the state its fiber leaves when it gives control back.\<close>

definition put_thread :: "nat \<Rightarrow> scheduler \<times> thread \<Rightarrow> scheduler" where
  "put_thread i r = (fst r)\<lparr>threads := (threads (fst r))[i := snd r]\<rparr>"

definition thread_move :: "nat \<Rightarrow> fiber_state \<Rightarrow> nat \<Rightarrow> scheduler \<Rightarrow> scheduler result" where
  "thread_move fresh st i s =
     (if i \<ge> length (threads s) then Inl Out_of_bounds
      else let th = threads s ! i in
        case th_pc th of
          Top \<Rightarrow> rbind (run_top s th) (\<lambda>r. Inr (put_thread i (snd r)))
        | Dispatch \<Rightarrow> rbind (run_dispatch fresh s th) (\<lambda>r. Inr (put_thread i r))
        | InFiber \<Rightarrow> rbind (fiber_returns st s th) (\<lambda>r. Inr (put_thread i r))
        | InCb \<Rightarrow> rbind (fiber_returns st s th) (\<lambda>r. Inr (put_thread i r))
        | InIdle \<Rightarrow> rbind (fiber_returns st s th) (\<lambda>r. Inr (put_thread i r))
        | AfterFiber \<Rightarrow> rbind (run_after s th) (\<lambda>r. Inr (put_thread i r))
        | AfterCb \<Rightarrow> rbind (run_after s th) (\<lambda>r. Inr (put_thread i r))
        | AfterIdle \<Rightarrow> rbind (run_after s th) (\<lambda>r. Inr (put_thread i r))
        | ReschedFiber \<Rightarrow> rbind (run_reschedule s th) (\<lambda>r. Inr (put_thread i (snd r)))
        | ReschedCb \<Rightarrow> rbind (run_reschedule s th) (\<lambda>r. Inr (put_thread i (snd r)))
        | Exited \<Rightarrow> Inl Logic_error)"

inductive sched_step :: "scheduler \<Rightarrow> scheduler \<Rightarrow> bool" where
  do_schedule: "schedule s ft = (t, s') \<Longrightarrow> sched_step s s'"
| do_move: "thread_move fresh st i s = Inr s' \<Longrightarrow> sched_step s s'"
| do_enter: "sched_step s (s\<lparr>threads := threads s @ [new_thread tid idle]\<rparr>)"
| do_stop: "Scheduler_stop stop_f is_this s = Inr (n, a, s') \<Longrightarrow> sched_step s s'"

inductive sched_reachable :: "scheduler \<Rightarrow> bool" where
  reach_new: "Scheduler_new n uc h root tid = Inr s \<Longrightarrow> Scheduler_start mk s = Inr s' \<Longrightarrow> sched_reachable s'"
| reach_step: "sched_reachable s \<Longrightarrow> sched_step s s' \<Longrightarrow> sched_reachable s'"

section \<open>The counters\<close>

definition counted :: "thread \<Rightarrow> bool" where
  "counted th \<longleftrightarrow> th_pc th \<in> {InFiber, AfterFiber, InCb, AfterCb} \<or> th_pc th = Dispatch \<and> th_active th"

definition idling :: "thread \<Rightarrow> bool" where
  "idling th \<longleftrightarrow> th_pc th \<in> {InIdle, AfterIdle}"

definition task_ok :: "task \<Rightarrow> bool" where
  "task_ok ft \<longleftrightarrow> ft_fiber ft \<noteq> None \<or> ft_cb ft \<noteq> None"

definition thread_ok :: "thread \<Rightarrow> bool" where
  "thread_ok th \<longleftrightarrow> (th_pc th = Dispatch \<longrightarrow> (if th_active th then task_ok (th_ft th) else th_ft th = task_reset))"

definition sched_inv :: "scheduler \<Rightarrow> bool" where
  "sched_inv s \<longleftrightarrow> m_activeThreadCount s = length (filter counted (threads s))
     \<and> m_idleThreadCount s = length (filter idling (threads s))
     \<and> list_all task_ok (m_fibers s) \<and> list_all thread_ok (threads s)"

lemma count_update:
  "i < length xs \<Longrightarrow>
   length (filter P (xs[i := x])) + (if P (xs ! i) then 1 else 0) = length (filter P xs) + (if P x then 1 else 0)"
proof (induction xs arbitrary: i)
  case (Cons a xs)
  then show ?case by (cases i) auto
qed simp

text \<open>What \<open>pick\<close> takes and what it leaves.\<close>

definition eligible :: "int \<Rightarrow> (nat \<Rightarrow> fiber_state) \<Rightarrow> task \<Rightarrow> bool" where
  "eligible tid st ft \<longleftrightarrow> (threadId ft = - 1 \<or> threadId ft = tid)
     \<and> (case ft_fiber ft of Some f \<Rightarrow> st f \<noteq> EXEC | None \<Rightarrow> True)"

definition foreign :: "int \<Rightarrow> task \<Rightarrow> bool" where
  "foreign tid ft \<longleftrightarrow> threadId ft \<noteq> - 1 \<and> threadId ft \<noteq> tid"

lemma pick_Cons:
  assumes "task_ok ft"
  shows "pick tid st (ft # q) =
    (if eligible tid st ft then Inr (Some ft, q, q \<noteq> [])
     else rbind (pick tid st q) (\<lambda>(r, q', t). Inr (r, ft # q', foreign tid ft \<or> t)))"
proof (cases "foreign tid ft")
  case True
  then show ?thesis by (simp add: foreign_def eligible_def)
next
  case False
  then have "threadId ft = - 1 \<or> threadId ft = tid" "\<not> (threadId ft \<noteq> - 1 \<and> threadId ft \<noteq> tid)"
    by (auto simp: foreign_def)
  with assms show ?thesis
    by (cases "ft_fiber ft") (simp_all add: foreign_def eligible_def task_ok_def del: de_Morgan_conj)
qed

declare pick.simps(2) [simp del]

lemma pick_spec:
  "list_all task_ok q \<Longrightarrow>
   pick tid st q = Inr (case dropWhile (\<lambda>ft. \<not> eligible tid st ft) q of
       [] \<Rightarrow> (None, q, list_ex (foreign tid) q)
     | ft # post \<Rightarrow>
         (let pre = takeWhile (\<lambda>ft. \<not> eligible tid st ft) q in
          (Some ft, pre @ post, post \<noteq> [] \<or> list_ex (foreign tid) pre)))"
proof (induction q)
  case (Cons ft q)
  then have ok: "task_ok ft" and IH: "pick tid st q = Inr (case dropWhile (\<lambda>ft. \<not> eligible tid st ft) q of
       [] \<Rightarrow> (None, q, list_ex (foreign tid) q)
     | ft # post \<Rightarrow>
         (let pre = takeWhile (\<lambda>ft. \<not> eligible tid st ft) q in
          (Some ft, pre @ post, post \<noteq> [] \<or> list_ex (foreign tid) pre)))" by simp_all
  show ?case
    by (cases "eligible tid st ft"; cases "dropWhile (\<lambda>ft. \<not> eligible tid st ft) q")
       (simp_all add: pick_Cons [OF ok] IH Let_def del: dropWhile_eq_Nil_conv)
qed simp

lemma pick_ok:
  assumes "list_all task_ok q"
  shows "\<exists>r q' t. pick tid st q = Inr (r, q', t) \<and> list_all task_ok q' \<and> (\<forall>ft. r = Some ft \<longrightarrow> task_ok ft)"
proof (cases "dropWhile (\<lambda>ft. \<not> eligible tid st ft) q")
  case Nil
  then show ?thesis using pick_spec [OF assms, of tid st] assms by (simp del: dropWhile_eq_Nil_conv)
next
  case (Cons ft post)
  have "q = takeWhile (\<lambda>ft. \<not> eligible tid st ft) q @ ft # post"
    using takeWhile_dropWhile_id [of "\<lambda>ft. \<not> eligible tid st ft" q] Cons by simp
  with assms have "list_all task_ok (takeWhile (\<lambda>ft. \<not> eligible tid st ft) q @ ft # post)" by simp
  then show ?thesis using pick_spec [OF assms, of tid st] Cons by (simp add: Let_def)
qed

lemma sched_inv_update:
  assumes "sched_inv s" "i < length (threads s)" "thread_ok th" "list_all task_ok (m_fibers s')"
    "threads s' = (threads s)[i := th]"
    "m_activeThreadCount s' + (if counted (threads s ! i) then 1 else 0) = m_activeThreadCount s + (if counted th then 1 else 0)"
    "m_idleThreadCount s' + (if idling (threads s ! i) then 1 else 0) = m_idleThreadCount s + (if idling th then 1 else 0)"
  shows "sched_inv s'"
proof -
  have "list_all thread_ok ((threads s)[i := th])"
    using assms(1-3) by (auto simp: sched_inv_def list_all_iff dest!: set_update_subset_insert [THEN subsetD])
  then show ?thesis
    using assms count_update [OF assms(2), of counted th] count_update [OF assms(2), of idling th]
    by (simp add: sched_inv_def)
qed

lemma counted_pos: "sched_inv s \<Longrightarrow> i < length (threads s) \<Longrightarrow> counted (threads s ! i) \<Longrightarrow> 0 < m_activeThreadCount s"
  by (auto simp: sched_inv_def filter_empty_conv)

lemma idling_pos: "sched_inv s \<Longrightarrow> i < length (threads s) \<Longrightarrow> idling (threads s ! i) \<Longrightarrow> 0 < m_idleThreadCount s"
  by (auto simp: sched_inv_def filter_empty_conv)

lemma thread_ok_nth: "sched_inv s \<Longrightarrow> i < length (threads s) \<Longrightarrow> thread_ok (threads s ! i)"
  by (simp add: sched_inv_def list_all_length)

text \<open>Each move of a thread keeps the invariant.\<close>

lemma sched_inv_schedule: "sched_inv s \<Longrightarrow> schedule s ft = (t, s') \<Longrightarrow> sched_inv s'"
  by (auto simp: sched_inv_def schedule_def scheduleNoLock_def task_ok_def)

lemma swap_in_eq [returns]: "swap_in s f = Inr s' \<longleftrightarrow> fstate s f \<noteq> EXEC \<and> s' = s\<lparr>fstate := (fstate s)(f := EXEC)\<rparr>"
  by (auto simp: swap_in_def)

lemmas thread_defs = counted_def idling_def thread_ok_def put_thread_def

lemma sched_inv_top:
  assumes "sched_inv s" "i < length (threads s)" "th_pc (threads s ! i) = Top"
    "run_top s (threads s ! i) = Inr (t, s', th)"
  shows "sched_inv (put_thread i (s', th))"
proof -
  obtain r q t' where p: "pick (th_id (threads s ! i)) (fstate s) (m_fibers s) = Inr (r, q, t')"
    "list_all task_ok q" "\<forall>ft. r = Some ft \<longrightarrow> task_ok ft"
    using pick_ok assms(1) unfolding sched_inv_def by blast
  show ?thesis
    using assms(3,4) p
    by (intro sched_inv_update [OF assms(1,2), of th])
       (auto simp: run_top_def thread_defs split: option.splits)
qed

lemma run_dispatch_cases:
  assumes "run_dispatch fresh s o' = Inr (s', th)"
  obtains (run) "ft_fiber (th_ft o') \<noteq> None \<or> ft_cb (th_ft o') \<noteq> None" "th_pc th = InFiber \<or> th_pc th = InCb"
      "m_activeThreadCount s' = m_activeThreadCount s" "m_idleThreadCount s' = m_idleThreadCount s"
      "threads s' = threads s" "m_fibers s' = m_fibers s"
    | (drop) "th_active o'" "th_pc th = Top" "m_activeThreadCount s' = m_activeThreadCount s - 1"
      "m_idleThreadCount s' = m_idleThreadCount s" "threads s' = threads s" "m_fibers s' = m_fibers s"
    | (exit) "\<not> th_active o'" "th_pc th = Exited" "s' = s"
    | (idle) "\<not> th_active o'" "th_pc th = InIdle" "m_activeThreadCount s' = m_activeThreadCount s"
      "m_idleThreadCount s' = m_idleThreadCount s + 1" "threads s' = threads s" "m_fibers s' = m_fibers s"
proof -
  let ?ft = "th_ft o'"
  let ?r = "case ft_fiber ?ft of Some f \<Rightarrow> fstate s f \<notin> {TERMED, EXCEPT} | None \<Rightarrow> False"
  consider (a) "?r" | (b) "\<not> ?r" "ft_cb ?ft \<noteq> None" | (c) "\<not> ?r" "ft_cb ?ft = None" "th_active o'"
    | (d) "\<not> ?r" "ft_cb ?ft = None" "\<not> th_active o'" by blast
  then show thesis
  proof cases
    case a
    with assms show thesis
      by (intro run) (auto simp: run_dispatch_def Let_def returns split: option.splits)
  next
    case b
    with assms show thesis
      by (intro run; cases "th_cb_fiber o'")
         (auto simp: run_dispatch_def returns split: if_splits)
  next
    case c
    with assms show thesis by (intro drop) (auto simp: run_dispatch_def)
  next
    case d
    show thesis
    proof (cases "fstate s (th_idle_fiber o') = TERMED")
      case True
      with assms d show thesis by (intro exit) (auto simp: run_dispatch_def)
    next
      case False
      with assms d show thesis by (intro idle) (auto simp: run_dispatch_def returns)
    qed
  qed
qed

lemma sched_inv_dispatch:
  assumes "sched_inv s" "i < length (threads s)" "th_pc (threads s ! i) = Dispatch"
    "run_dispatch fresh s (threads s ! i) = Inr (s', th)"
  shows "sched_inv (put_thread i (s', th))"
proof -
  let ?o = "threads s ! i"
  have ok: "thread_ok ?o" by (rule thread_ok_nth [OF assms(1,2)])
  have q: "list_all task_ok (m_fibers s)" using assms(1) by (simp add: sched_inv_def)
  have active: "th_active ?o" if "ft_fiber (th_ft ?o) \<noteq> None \<or> ft_cb (th_ft ?o) \<noteq> None"
    using ok assms(3) that by (auto simp: thread_ok_def task_reset_def split: if_splits)
  have pos: "0 < m_activeThreadCount s" if "th_active ?o"
    using counted_pos [OF assms(1,2)] assms(3) that by (simp add: counted_def)
  note upd = sched_inv_update [OF assms(1,2), of th "put_thread i (s', th)"]
  from assms(4) show ?thesis
  proof (cases rule: run_dispatch_cases)
    case run
    with active q assms(3) show ?thesis by (intro upd) (auto simp: thread_defs)
  next
    case drop
    with pos q assms(3) show ?thesis by (intro upd) (auto simp: thread_defs)
  next
    case exit
    with q assms(3) show ?thesis by (intro upd) (auto simp: thread_defs)
  next
    case idle
    with q assms(3) show ?thesis by (intro upd) (auto simp: thread_defs)
  qed
qed

lemma sched_inv_return:
  assumes "sched_inv s" "i < length (threads s)" "fiber_returns st s (threads s ! i) = Inr (s', th)"
  shows "sched_inv (put_thread i (s', th))"
  using assms(1,3)
  by (intro sched_inv_update [OF assms(1,2), of th])
     (auto simp: fiber_returns_def current_fiber_def thread_defs sched_inv_def split: pc.splits option.splits)

lemma sched_inv_after:
  assumes "sched_inv s" "i < length (threads s)" "run_after s (threads s ! i) = Inr (s', th)"
  shows "sched_inv (put_thread i (s', th))"
proof -
  have pos: "counted (threads s ! i) \<Longrightarrow> 0 < m_activeThreadCount s" "idling (threads s ! i) \<Longrightarrow> 0 < m_idleThreadCount s"
    using counted_pos [OF assms(1,2)] idling_pos [OF assms(1,2)] by auto
  show ?thesis
    using assms(1,3) pos
    by (intro sched_inv_update [OF assms(1,2), of th])
       (auto simp: run_after_def thread_defs sched_inv_def Let_def split: pc.splits)
qed

lemma sched_inv_reschedule:
  assumes "sched_inv s" "i < length (threads s)" "run_reschedule s (threads s ! i) = Inr (t, s', th)"
  shows "sched_inv (put_thread i (s', th))"
proof (rule sched_inv_update [OF assms(1,2)])
  have "list_all task_ok (m_fibers s)" using assms(1) by (simp add: sched_inv_def)
  then show "list_all task_ok (m_fibers (put_thread i (s', th)))"
    using assms(3) by (auto simp: run_reschedule_def schedule_def scheduleNoLock_def fiber_task_def task_ok_def
        put_thread_def Let_def split: pc.splits option.splits if_splits)
  show "thread_ok th" "threads (put_thread i (s', th)) = (threads s)[i := th]"
    "m_activeThreadCount (put_thread i (s', th)) + (if counted (threads s ! i) then 1 else 0)
      = m_activeThreadCount s + (if counted th then 1 else 0)"
    "m_idleThreadCount (put_thread i (s', th)) + (if idling (threads s ! i) then 1 else 0)
      = m_idleThreadCount s + (if idling th then 1 else 0)"
    using assms(3) by (auto simp: run_reschedule_def schedule_def scheduleNoLock_def thread_defs
        Let_def split: pc.splits option.splits if_splits)
qed

lemma sched_inv_stop: "sched_inv s \<Longrightarrow> Scheduler_stop f is_this s = Inr (n, a, s') \<Longrightarrow> sched_inv s'"
  by (auto simp: Scheduler_stop_def Let_def sched_inv_def split: if_splits option.splits)

lemma sched_inv_move:
  assumes "thread_move fresh st i s = Inr s'" "sched_inv s"
  shows "sched_inv s'"
proof -
  have i: "i < length (threads s)" using assms(1) by (auto simp: thread_move_def split: if_splits)
  let ?th = "threads s ! i"
  consider (top) t s1 th where "th_pc ?th = Top" "run_top s ?th = Inr (t, s1, th)" "s' = put_thread i (s1, th)"
    | (dis) s1 th where "th_pc ?th = Dispatch" "run_dispatch fresh s ?th = Inr (s1, th)" "s' = put_thread i (s1, th)"
    | (ret) s1 th where "fiber_returns st s ?th = Inr (s1, th)" "s' = put_thread i (s1, th)"
    | (aft) s1 th where "run_after s ?th = Inr (s1, th)" "s' = put_thread i (s1, th)"
    | (res) t s1 th where "run_reschedule s ?th = Inr (t, s1, th)" "s' = put_thread i (s1, th)"
    using assms(1) i by (cases "th_pc ?th") (auto simp: thread_move_def returns)
  then show ?thesis
  proof cases
    case top
    then show ?thesis using sched_inv_top [OF assms(2) i] by blast
  next
    case dis
    then show ?thesis using sched_inv_dispatch [OF assms(2) i] by blast
  next
    case ret
    then show ?thesis using sched_inv_return [OF assms(2) i] by blast
  next
    case aft
    then show ?thesis using sched_inv_after [OF assms(2) i] by blast
  next
    case res
    then show ?thesis using sched_inv_reschedule [OF assms(2) i] by blast
  qed
qed

lemma sched_inv_step: "sched_step s s' \<Longrightarrow> sched_inv s \<Longrightarrow> sched_inv s'"
proof (induction rule: sched_step.induct)
  case (do_enter s tid idle)
  then show ?case by (simp add: sched_inv_def new_thread_def counted_def idling_def thread_ok_def)
qed (auto intro: sched_inv_schedule sched_inv_move sched_inv_stop)

lemma sched_inv_start:
  "Scheduler_new n uc h root tid = Inr s \<Longrightarrow> Scheduler_start mk s = Inr s' \<Longrightarrow> sched_inv s'"
  by (auto simp: Scheduler_new_def Scheduler_start_def sched_inv_def new_thread_def thread_defs
      filter_empty_conv list_all_iff split: if_splits)

lemma sched_reachable_inv: "sched_reachable s \<Longrightarrow> sched_inv s"
  by (induction rule: sched_reachable.induct) (auto intro: sched_inv_start sched_inv_step)

section \<open>Properties\<close>

text \<open>
  \<^bold>\<open>C7\<close>. In every interleaving of the threads the two counters are exact:
  \<open>m_activeThreadCount\<close> is the number of threads that hold a task, \<open>m_idleThreadCount\<close> the number of
  threads in their idle fiber. The queue holds no empty task, so the assertion in the search never
  fails. And when \<open>Scheduler::stopping\<close> answers true, the queue is empty and no thread executes a task.
\<close>

theorem scheduler_counters:
  assumes "sched_reachable s"
  shows "m_activeThreadCount s = length (filter counted (threads s))
    \<and> m_idleThreadCount s = length (filter idling (threads s))
    \<and> (\<forall>th. \<exists>t s' th'. run_top s th = Inr (t, s', th'))
    \<and> (Scheduler_stopping s \<longrightarrow> m_fibers s = []
         \<and> (\<forall>th \<in> set (threads s). th_pc th \<notin> {InFiber, AfterFiber, InCb, AfterCb}))"
proof -
  have inv: "sched_inv s" using assms by (rule sched_reachable_inv)
  have top: "\<exists>t s' th'. run_top s th = Inr (t, s', th')" for th
  proof -
    obtain r q t where "pick (th_id th) (fstate s) (m_fibers s) = Inr (r, q, t)"
      using pick_ok inv unfolding sched_inv_def by blast
    then show ?thesis by (cases r) (auto simp: run_top_def)
  qed
  have "th_pc th \<notin> {InFiber, AfterFiber, InCb, AfterCb}" if "Scheduler_stopping s" "th \<in> set (threads s)" for th
  proof -
    have "filter counted (threads s) = []"
      using that(1) inv by (simp add: Scheduler_stopping_def sched_inv_def)
    with that(2) show ?thesis by (auto simp: filter_empty_conv counted_def)
  qed
  moreover have "Scheduler_stopping s \<longrightarrow> m_fibers s = []" by (simp add: Scheduler_stopping_def)
  moreover have "m_activeThreadCount s = length (filter counted (threads s))"
    "m_idleThreadCount s = length (filter idling (threads s))" using inv by (simp_all add: sched_inv_def)
  ultimately show ?thesis using top by blast
qed

text \<open>A scheduler with one worker thread.\<close>

definition one_worker :: scheduler where
  "one_worker = \<lparr>m_fibers = [], m_activeThreadCount = 0, m_idleThreadCount = 0, m_stopping = False,
     m_autostop = False, m_threadCount = 1, m_rootFiber = None, m_rootThread = - 1, fstate = (\<lambda>_. INIT),
     threads = [new_thread 1 100]\<rparr>"

lemma one_worker_reachable: "sched_reachable one_worker"
  by (rule reach_new [of 1 False False 0 0 "\<lparr>m_fibers = [], m_activeThreadCount = 0, m_idleThreadCount = 0, m_stopping = True,
     m_autostop = False, m_threadCount = 1, m_rootFiber = None, m_rootThread = - 1, fstate = (\<lambda>_. INIT), threads = []\<rparr>"
     "\<lambda>_. (1, 100)"])
     (simp_all add: Scheduler_new_def Scheduler_start_def one_worker_def)

theorem scheduler_counters_witness:
  "m_activeThreadCount one_worker = 0 \<and> (\<exists>t s' th'. run_top one_worker (new_thread 1 100) = Inr (t, s', th'))"
  using scheduler_counters [OF one_worker_reachable] by (simp add: one_worker_def)

text \<open>
  \<^bold>\<open>C18\<close>. The search of a thread takes the first task in the queue that it may execute (not pinned to
  another thread, not a fiber that executes already), leaves all other tasks in their order, and asks
  for a \<open>tickle\<close> exactly when tasks remain behind the one it took or it passed a task of another
  thread. When it finds none, the queue is unchanged.
\<close>

theorem pick_first_eligible:
  assumes "sched_reachable s" "pick tid (fstate s) (m_fibers s) = Inr (r, q', t)"
  shows "case r of
      None \<Rightarrow> q' = m_fibers s \<and> list_all (\<lambda>ft. \<not> eligible tid (fstate s) ft) (m_fibers s)
        \<and> (t \<longleftrightarrow> list_ex (foreign tid) (m_fibers s))
    | Some ft \<Rightarrow> eligible tid (fstate s) ft \<and>
        (\<exists>pre post. m_fibers s = pre @ ft # post \<and> q' = pre @ post
           \<and> list_all (\<lambda>ft. \<not> eligible tid (fstate s) ft) pre
           \<and> (t \<longleftrightarrow> post \<noteq> [] \<or> list_ex (foreign tid) pre))"
proof -
  let ?E = "\<lambda>ft. \<not> eligible tid (fstate s) ft" and ?q = "m_fibers s"
  have ok: "list_all task_ok ?q" using sched_reachable_inv [OF assms(1)] by (simp add: sched_inv_def)
  note sp = pick_spec [OF ok, of tid "fstate s"]
  have pre: "list_all ?E (takeWhile ?E ?q)" by (auto simp: list_all_iff dest: set_takeWhileD)
  show ?thesis
  proof (cases "dropWhile ?E ?q")
    case Nil
    then have "list_all ?E ?q" by (simp add: list_all_iff)
    with Nil sp assms(2) show ?thesis by (simp del: dropWhile_eq_Nil_conv)
  next
    case (Cons ft post)
    have "?q = takeWhile ?E ?q @ ft # post"
      using takeWhile_dropWhile_id [of ?E ?q] Cons by simp
    moreover have "eligible tid (fstate s) ft" using Cons by (metis dropWhile_eq_Cons_conv)
    ultimately show ?thesis using Cons sp assms(2) pre by (auto simp: Let_def)
  qed
qed

definition pinned_queue :: scheduler where
  "pinned_queue = one_worker\<lparr>m_fibers := [cb_task (Some 1) 2, cb_task (Some 2) 1, cb_task (Some 3) (- 1)]\<rparr>"

lemma schedule_reachable: "sched_reachable s \<Longrightarrow> sched_reachable (snd (schedule s ft))"
  by (rule reach_step, assumption, rule do_schedule, rule prod.collapse [symmetric])

lemma move_reachable: "sched_reachable s \<Longrightarrow> thread_move fresh st i s = Inr s' \<Longrightarrow> sched_reachable s'"
  by (rule reach_step, assumption, rule do_move)

lemma pinned_queue_reachable: "sched_reachable pinned_queue"
proof -
  have "pinned_queue = snd (schedule (snd (schedule (snd (schedule one_worker (cb_task (Some 1) 2)))
      (cb_task (Some 2) 1))) (cb_task (Some 3) (- 1)))"
    by (simp add: pinned_queue_def schedule_def scheduleNoLock_def cb_task_def one_worker_def)
  then show ?thesis by (metis schedule_reachable one_worker_reachable)
qed

theorem pick_first_eligible_witness:
  "pick 1 (fstate pinned_queue) (m_fibers pinned_queue)
     = Inr (Some (cb_task (Some 2) 1), [cb_task (Some 1) 2, cb_task (Some 3) (- 1)], True)
   \<and> eligible 1 (fstate pinned_queue) (cb_task (Some 2) 1)"
proof -
  have "pick 1 (fstate pinned_queue) (m_fibers pinned_queue)
     = Inr (Some (cb_task (Some 2) 1), [cb_task (Some 1) 2, cb_task (Some 3) (- 1)], True)"
    by (simp add: pinned_queue_def one_worker_def pick.simps cb_task_def)
  with pick_first_eligible [OF pinned_queue_reachable this] show ?thesis by simp
qed

text \<open>
  \<open>stopping\<close> can answer true while a task is still to be executed: after a fiber has yielded
  with \<open>YieldToReady\<close>, \<open>run\<close> decrements \<open>m_activeThreadCount\<close> before it puts the fiber back into the
  queue, and in between a stopping scheduler looks finished. The next step of the same thread makes
  the queue non-empty again.
\<close>

lemma stopping_before_reschedule:
  "\<exists>s s'. sched_reachable s \<and> Scheduler_stopping s \<and> sched_step s s' \<and> m_fibers s' = [fiber_task 5 (- 1)]"
proof -
  let ?s1 = "one_worker\<lparr>m_fibers := [fiber_task 5 (- 1)]\<rparr>"
  let ?th = "(new_thread 1 100)\<lparr>th_pc := ReschedFiber, th_ft := fiber_task 5 (- 1), th_active := True\<rparr>"
  let ?s4 = "one_worker\<lparr>threads := [?th\<lparr>th_pc := AfterFiber\<rparr>], m_activeThreadCount := 1, fstate := (\<lambda>_. INIT)(5 := READY)\<rparr>"
  let ?s5 = "?s4\<lparr>m_autostop := True, m_stopping := True\<rparr>"
  let ?s6 = "?s5\<lparr>threads := [?th], m_activeThreadCount := 0\<rparr>"
  let ?s7 = "?s6\<lparr>m_fibers := [fiber_task 5 (- 1)], threads := [(new_thread 1 100)\<lparr>th_active := True\<rparr>]\<rparr>"
  note d = one_worker_def new_thread_def fiber_task_def task_reset_def thread_move_def put_thread_def
  have "snd (schedule one_worker (fiber_task 5 (- 1))) = ?s1"
    by (simp add: schedule_def scheduleNoLock_def d)
  then have 1: "sched_reachable ?s1" using schedule_reachable [OF one_worker_reachable, of "fiber_task 5 (- 1)"] by simp
  have "rbind (thread_move 0 READY 0 ?s1) (\<lambda>s. rbind (thread_move 0 READY 0 s) (thread_move 0 READY 0)) = Inr ?s4"
    by (simp add: d run_top_def pick.simps run_dispatch_def swap_in_def fiber_returns_def current_fiber_def Let_def)
  then obtain s2 s3 where m: "thread_move 0 READY 0 ?s1 = Inr s2" "thread_move 0 READY 0 s2 = Inr s3"
    "thread_move 0 READY 0 s3 = Inr ?s4" unfolding rbind_eq_Inr by (elim exE conjE)
  have 4: "sched_reachable ?s4"
    by (rule move_reachable [OF move_reachable [OF move_reachable [OF 1 m(1)] m(2)] m(3)])
  have "Scheduler_stop (\<lambda>_. False) False ?s4 = Inr (1, Stop_joins, ?s5)" by (simp add: Scheduler_stop_def d)
  then have 5: "sched_reachable ?s5" by (rule reach_step [OF 4 do_stop])
  have "thread_move 0 READY 0 ?s5 = Inr ?s6" by (simp add: d run_after_def)
  then have 6: "sched_reachable ?s6" by (rule move_reachable [OF 5])
  have "thread_move 0 READY 0 ?s6 = Inr ?s7"
    by (simp add: d run_reschedule_def schedule_def scheduleNoLock_def)
  then have 7: "sched_step ?s6 ?s7" by (rule do_move)
  have "Scheduler_stopping ?s6" by (simp add: Scheduler_stopping_def d)
  with 6 7 show ?thesis by (intro exI [of _ ?s6] exI [of _ ?s7]) simp
qed

text \<open>
  A fiber that is pinned to a thread and yields with \<open>YieldToReady\<close> loses its thread: \<open>run\<close>
  puts it back with \<open>schedule(ft.fiber)\<close>, whose thread argument defaults to -1, so any thread may go on
  with it.
\<close>

lemma ready_fiber_loses_thread:
  assumes "th_pc th = ReschedFiber" "ft_fiber (th_ft th) = Some f" "fstate s f = READY"
  shows "\<exists>t s' th'. run_reschedule s th = Inr (t, s', th')
    \<and> m_fibers s' = m_fibers s @ [fiber_task f (- 1)]
    \<and> (\<forall>tid. \<not> foreign tid (last (m_fibers s')))"
  using assms
  by (simp add: run_reschedule_def schedule_def scheduleNoLock_def fiber_task_def foreign_def)

end
