(* ===== verification/Ordered.thy ===== *)
theory Ordered
  imports Prelude
begin

text \<open>
  \<open>std::set\<close> and \<open>std::map\<close> with a comparator, as the containers of timer.h and http.h use them. A
  container is the list of its elements in iteration order, an iterator its index, and \<open>end()\<close> the
  length. The operations search for the first element that is not less than the key, which is what
  the library does on a container that is sorted by its comparator; the locales \<open>strict_weak\<close> and
  \<open>strict_total\<close> state what the library requires of a comparator and prove that the operations keep
  the container sorted and implement insertion, lookup and removal. Timer\_Manager interprets
  \<open>strict_total\<close> for the timer comparator, Http interprets \<open>strict_weak\<close> for \<open>CaseInsentiveLess\<close>, Log\_Config for the
  order of log definitions, Config \<open>strict_total\<close> for the ids of listeners, and this theory for the order of \<open>std::string\<close>.
\<close>

section \<open>Sets\<close>

definition lower_bound :: "('a \<Rightarrow> 'a \<Rightarrow> bool) \<Rightarrow> 'a \<Rightarrow> 'a list \<Rightarrow> nat" where
  "lower_bound lt x xs = length (takeWhile (\<lambda>y. lt y x) xs)"

definition set_find :: "('a \<Rightarrow> 'a \<Rightarrow> bool) \<Rightarrow> 'a \<Rightarrow> 'a list \<Rightarrow> nat" where
  "set_find lt x xs =
     (let i = lower_bound lt x xs in if i < length xs \<and> \<not> lt x (xs ! i) then i else length xs)"

definition set_insert :: "('a \<Rightarrow> 'a \<Rightarrow> bool) \<Rightarrow> 'a \<Rightarrow> 'a list \<Rightarrow> 'a list \<times> nat" where
  "set_insert lt x xs =
     (let i = lower_bound lt x xs in
      if i < length xs \<and> \<not> lt x (xs ! i) then (xs, i) else (take i xs @ x # drop i xs, i))"

definition set_erase :: "nat \<Rightarrow> 'a list \<Rightarrow> 'a list result" where
  "set_erase i xs = (if i < length xs then Inr (take i xs @ drop (Suc i) xs) else Inl Bad_iterator)"

section \<open>Maps\<close>

fun map_find :: "('k \<Rightarrow> 'k \<Rightarrow> bool) \<Rightarrow> 'k \<Rightarrow> ('k \<times> 'v) list \<Rightarrow> 'v option" where
  "map_find lt k [] = None"
| "map_find lt k ((k', v) # m) =
     (if lt k' k then map_find lt k m else if lt k k' then None else Some v)"

text \<open>\<open>m[k] = v\<close>: an equivalent key keeps its spelling.\<close>

fun map_put :: "('k \<Rightarrow> 'k \<Rightarrow> bool) \<Rightarrow> 'k \<Rightarrow> 'v \<Rightarrow> ('k \<times> 'v) list \<Rightarrow> ('k \<times> 'v) list" where
  "map_put lt k v [] = [(k, v)]"
| "map_put lt k v ((k', v') # m) =
     (if lt k' k then (k', v') # map_put lt k v m
      else if lt k k' then (k, v) # (k', v') # m else (k', v) # m)"

lemma map_put_last:
  "\<forall>e \<in> set m. lt (fst e) k \<Longrightarrow> map_put lt k v m = m @ [(k, v)]"
  by (induction m) auto

text \<open>\<open>m.erase(k)\<close>.\<close>

definition map_del :: "('k \<Rightarrow> 'k \<Rightarrow> bool) \<Rightarrow> 'k \<Rightarrow> ('k \<times> 'v) list \<Rightarrow> ('k \<times> 'v) list" where
  "map_del lt k m = filter (\<lambda>(k', v). lt k' k \<or> lt k k') m"

section \<open>Comparators\<close>

locale strict_weak =
  fixes lt :: "'a \<Rightarrow> 'a \<Rightarrow> bool"
  assumes asym: "lt x y \<Longrightarrow> \<not> lt y x"
    and neg_trans: "\<not> lt x y \<Longrightarrow> \<not> lt y z \<Longrightarrow> \<not> lt x z"
begin

lemma irrefl [simp]: "\<not> lt x x"
  using asym by blast

lemma lt_trans: "lt x y \<Longrightarrow> lt y z \<Longrightarrow> lt x z"
  using asym neg_trans by blast

lemma lt_not_trans: "lt x y \<Longrightarrow> \<not> lt z y \<Longrightarrow> lt x z"
  using neg_trans by blast

definition equiv :: "'a \<Rightarrow> 'a \<Rightarrow> bool" where
  "equiv x y \<longleftrightarrow> \<not> lt x y \<and> \<not> lt y x"

lemma equiv_refl [simp]: "equiv x x"
  by (simp add: equiv_def)

lemma equiv_sym: "equiv x y \<longleftrightarrow> equiv y x"
  by (auto simp: equiv_def)

lemma equiv_trans: "equiv x y \<Longrightarrow> equiv y z \<Longrightarrow> equiv x z"
  using neg_trans by (auto simp: equiv_def)

lemma equiv_lt: "equiv x y \<Longrightarrow> lt x z \<longleftrightarrow> lt y z" "equiv x y \<Longrightarrow> lt z x \<longleftrightarrow> lt z y"
  using neg_trans by (auto simp: equiv_def)

text \<open>In a sorted container the elements less than a key are a prefix.\<close>

abbreviation ordered :: "'a list \<Rightarrow> bool" where
  "ordered \<equiv> sorted_wrt lt"

lemma takeWhile_less_filter:
  "ordered xs \<Longrightarrow> takeWhile (\<lambda>y. lt y x) xs = filter (\<lambda>y. lt y x) xs"
proof (induction xs)
  case (Cons a xs)
  show ?case
  proof (cases "lt a x")
    case False
    then have "\<not> lt y x" if "y \<in> set xs" for y using that Cons.prems lt_trans by auto
    then have "filter (\<lambda>y. lt y x) xs = []" by (simp add: filter_empty_conv)
    with False show ?thesis by simp
  qed (use Cons in simp)
qed simp

lemma drop_not_less:
  assumes "ordered xs" "y \<in> set (drop (lower_bound lt x xs) xs)"
  shows "\<not> lt y x"
  using assms
proof (induction xs)
  case (Cons a xs)
  then show ?case using lt_trans by (cases "lt a x") (auto simp: lower_bound_def)
qed simp

lemma take_less: "y \<in> set (take (lower_bound lt x xs) xs) \<Longrightarrow> lt y x"
  by (metis lower_bound_def set_takeWhileD takeWhile_eq_take)

lemma lower_bound_le [simp]: "lower_bound lt x xs \<le> length xs"
  by (simp add: lower_bound_def length_takeWhile_le)

lemma set_find_le [simp]: "set_find lt x xs \<le> length xs"
  by (simp add: set_find_def Let_def)

lemma set_find_equiv:
  assumes "ordered xs" "set_find lt x xs < length xs"
  shows "equiv (xs ! set_find lt x xs) x"
proof -
  let ?i = "lower_bound lt x xs"
  have i: "set_find lt x xs = ?i" "?i < length xs" "\<not> lt x (xs ! ?i)"
    using assms(2) by (auto simp: set_find_def Let_def split: if_splits)
  then have "xs ! ?i \<in> set (drop ?i xs)" by (metis Cons_nth_drop_Suc list.set_intros(1))
  then show ?thesis using drop_not_less [OF assms(1)] i by (auto simp: equiv_def)
qed

lemma set_find_some:
  assumes "ordered xs"
  shows "set_find lt x xs < length xs \<longleftrightarrow> (\<exists>y \<in> set xs. equiv y x)"
proof
  assume "set_find lt x xs < length xs"
  with set_find_equiv [OF assms this] show "\<exists>y \<in> set xs. equiv y x" by auto
next
  assume "\<exists>y \<in> set xs. equiv y x"
  then obtain y where y: "y \<in> set xs" "equiv y x" by blast
  let ?i = "lower_bound lt x xs"
  have "y \<notin> set (take ?i xs)" using take_less [of y x xs] y(2) by (auto simp: equiv_def)
  with y(1) have d: "y \<in> set (drop ?i xs)" by (metis append_take_drop_id Un_iff set_append)
  then have i: "?i < length xs" by (cases "?i < length xs") auto
  then have "drop ?i xs = xs ! ?i # drop (Suc ?i) xs" by (simp add: Cons_nth_drop_Suc)
  moreover have "ordered (drop ?i xs)" using assms by (rule sorted_wrt_drop)
  ultimately have "y = xs ! ?i \<or> lt (xs ! ?i) y" using d by auto
  then have "\<not> lt x (xs ! ?i)" using y(2) lt_trans [of x "xs ! ?i" y] by (auto simp: equiv_def)
  with i show "set_find lt x xs < length xs" by (simp add: set_find_def Let_def)
qed

lemma ordered_equiv_unique: "ordered xs \<Longrightarrow> x \<in> set xs \<Longrightarrow> y \<in> set xs \<Longrightarrow> equiv x y \<Longrightarrow> x = y"
  by (induction xs) (auto simp: equiv_def)

lemma find_unique:
  assumes "ordered xs" "y \<in> set xs" "equiv y x"
  shows "xs ! set_find lt x xs = y"
proof -
  have i: "set_find lt x xs < length xs" using set_find_some assms by blast
  then have "equiv (xs ! set_find lt x xs) y" using set_find_equiv [OF assms(1)] equiv_trans equiv_sym assms(3) by blast
  with i assms show ?thesis using ordered_equiv_unique by auto
qed

lemma find_mem:
  assumes "ordered xs"
  shows "set_find lt x xs < length xs \<and> xs ! set_find lt x xs = x \<longleftrightarrow> x \<in> set xs"
  using set_find_some [OF assms, of x] find_unique [OF assms, of x x] equiv_refl [of x] nth_mem by metis

lemma insert_fresh:
  assumes "ordered xs" "\<And>y. y \<in> set xs \<Longrightarrow> \<not> equiv y x"
  shows "set (fst (set_insert lt x xs)) = insert x (set xs)"
proof -
  have "\<not> set_find lt x xs < length xs" using set_find_some [OF assms(1)] assms(2) by blast
  then have "fst (set_insert lt x xs) = take (lower_bound lt x xs) xs @ x # drop (lower_bound lt x xs) xs"
    by (auto simp: set_find_def set_insert_def Let_def split: if_splits)
  moreover have "set xs = set (take (lower_bound lt x xs) xs) \<union> set (drop (lower_bound lt x xs) xs)"
    by (metis append_take_drop_id set_append)
  ultimately show ?thesis by auto
qed

lemma ordered_erase:
  assumes "ordered xs" "set_erase i xs = Inr ys"
  shows "ordered ys"
proof -
  have "i < length xs" and ys: "ys = take i xs @ drop (Suc i) xs"
    using assms(2) by (auto simp: set_erase_def split: if_splits)
  then have "ordered (take i xs @ xs ! i # drop (Suc i) xs)"
    using assms(1) id_take_nth_drop [of i xs] by simp
  then show ?thesis unfolding ys by (simp add: sorted_wrt_append)
qed

lemma ordered_insert:
  assumes "ordered xs"
  shows "ordered (fst (set_insert lt x xs))"
proof (cases "lower_bound lt x xs < length xs \<and> \<not> lt x (xs ! lower_bound lt x xs)")
  case False
  let ?i = "lower_bound lt x xs"
  have "ordered (take ?i xs @ drop ?i xs)" using assms by simp
  then have app: "ordered (take ?i xs)" "ordered (drop ?i xs)"
    "\<forall>y \<in> set (take ?i xs). \<forall>z \<in> set (drop ?i xs). lt y z"
    by (auto simp only: sorted_wrt_append)
  have "lt x z" if z: "z \<in> set (drop ?i xs)" for z
  proof -
    have i: "?i < length xs" using z by (cases "?i < length xs") auto
    then have "lt x (xs ! ?i)" using False by simp
    moreover have "drop ?i xs = xs ! ?i # drop (Suc ?i) xs" using i by (simp add: Cons_nth_drop_Suc)
    ultimately show ?thesis using z app(2) lt_trans by auto
  qed
  with app take_less [of _ x xs] False assms show ?thesis
    by (simp add: set_insert_def Let_def sorted_wrt_append)
qed (use assms in \<open>simp add: set_insert_def Let_def\<close>)

lemma insert_all_fresh:
  assumes "ordered xs" "sorted_wrt (\<lambda>x y. \<not> equiv x y) ys" "\<And>x y. x \<in> set xs \<Longrightarrow> y \<in> set ys \<Longrightarrow> \<not> equiv x y"
  shows "ordered (foldl (\<lambda>st x. fst (set_insert lt x st)) xs ys)
    \<and> set (foldl (\<lambda>st x. fst (set_insert lt x st)) xs ys) = set xs \<union> set ys"
  using assms
proof (induction ys arbitrary: xs)
  case (Cons y ys)
  have "set (fst (set_insert lt y xs)) = insert y (set xs)" using Cons.prems by (intro insert_fresh) auto
  then show ?case using Cons.IH [OF ordered_insert [OF Cons.prems(1), of y]] Cons.prems by auto
qed simp

lemma insert_last: "(\<And>y. y \<in> set xs \<Longrightarrow> lt y x) \<Longrightarrow> fst (set_insert lt x xs) = xs @ [x]"
proof -
  assume "\<And>y. y \<in> set xs \<Longrightarrow> lt y x"
  then have "lower_bound lt x xs = length xs" by (simp add: lower_bound_def takeWhile_eq_all_conv [THEN iffD2])
  then show ?thesis by (simp add: set_insert_def)
qed

lemma insert_all: "ordered (xs @ ys) \<Longrightarrow> foldl (\<lambda>st x. fst (set_insert lt x st)) xs ys = xs @ ys"
proof (induction ys arbitrary: xs)
  case (Cons y ys)
  then have "fst (set_insert lt y xs) = xs @ [y]" by (intro insert_last) (simp add: sorted_wrt_append)
  with Cons show ?case by simp
qed simp

text \<open>Two sorted containers with the same elements are the same.\<close>

lemma insert_iter: "fst (set_insert lt x xs) ! snd (set_insert lt x xs) = x
    \<or> fst (set_insert lt x xs) = xs"
  by (auto simp: set_insert_def Let_def nth_append)

text \<open>Maps.\<close>

abbreviation ordered_map :: "('a \<times> 'v) list \<Rightarrow> bool" where
  "ordered_map \<equiv> sorted_wrt (\<lambda>e f. lt (fst e) (fst f))"

lemma map_find_above:
  "ordered_map m \<Longrightarrow> \<forall>e \<in> set m. lt k (fst e) \<Longrightarrow> map_find lt k m = None"
  using asym by (cases m) auto

lemma fst_map_put: "e \<in> set (map_put lt k v m) \<Longrightarrow> e \<in> set m \<or> fst e = k \<or> (\<exists>v'. (fst e, v') \<in> set m)"
  by (induction lt k v m rule: map_put.induct) (auto split: if_splits)

lemma ordered_map_put: "ordered_map m \<Longrightarrow> ordered_map (map_put lt k v m)"
proof (induction m)
  case (Cons e m)
  obtain k' v' where e: "e = (k', v')" by force
  have le: "lt k' (fst f)" if "f \<in> set (map_put lt k v m)" "lt k' k" for f
    using fst_map_put [OF that(1)] Cons.prems that(2) e by auto
  show ?case using Cons lt_trans by (auto simp: e le)
qed simp

lemma map_find_put:
  "ordered_map m \<Longrightarrow>
   map_find lt k (map_put lt k' v m) = (if equiv k k' then Some v else map_find lt k m)"
proof (induction m)
  case Nil
  then show ?case using equiv_sym by (auto simp: equiv_def)
next
  case (Cons e m)
  obtain a w where e: "e = (a, w)" by force
  have IH: "map_find lt k (map_put lt k' v m) = (if equiv k k' then Some v else map_find lt k m)"
    using Cons by simp
  have up: "map_find lt k (e # m) = None" if "lt k a"
    using that Cons.prems lt_trans by (intro map_find_above) (auto simp: e)
  consider "lt a k'" | "lt k' a" "\<not> lt a k'" | "equiv a k'" using asym by (auto simp: equiv_def)
  then show ?case
  proof cases
    case 1
    then show ?thesis using IH equiv_lt(2) [of k k' a] asym [of a k] by (auto simp: e equiv_def)
  next
    case 2
    then have "lt k a" if "lt k k'" using that lt_trans by blast
    with 2 up show ?thesis by (auto simp: e equiv_def)
  next
    case 3
    then have "equiv k a \<longleftrightarrow> equiv k k'" using equiv_trans equiv_sym by blast
    with 3 show ?thesis by (auto simp: e equiv_def)
  qed
qed

lemma ordered_map_del: "ordered_map m \<Longrightarrow> ordered_map (map_del lt k m)"
  by (simp add: map_del_def sorted_wrt_filter)

lemma map_find_del:
  "ordered_map m \<Longrightarrow>
   map_find lt k (map_del lt k' m) = (if equiv k k' then None else map_find lt k m)"
proof (induction m)
  case Nil
  then show ?case by (simp add: map_del_def)
next
  case (Cons e m)
  obtain a w where e: "e = (a, w)" by force
  have IH: "map_find lt k (map_del lt k' m) = (if equiv k k' then None else map_find lt k m)"
    using Cons by simp
  show ?case
  proof (cases "equiv a k'")
    case True
    then have del: "map_del lt k' (e # m) = map_del lt k' m" by (auto simp: map_del_def e equiv_def)
    have up: "map_find lt k m = None" if "lt k a"
      using that Cons.prems lt_trans by (intro map_find_above) (auto simp: e)
    have "equiv k a \<longleftrightarrow> equiv k k'" using True equiv_trans equiv_sym by blast
    then show ?thesis unfolding del using IH up by (auto simp: e equiv_def)
  next
    case False
    then have "map_del lt k' (e # m) = (a, w) # map_del lt k' m"
      by (auto simp: map_del_def e equiv_def)
    moreover have "\<not> equiv k k'" if "equiv k a" using that False equiv_trans equiv_sym by blast
    ultimately show ?thesis using IH by (simp add: e equiv_def)
  qed
qed

end

text \<open>
  A comparator that tells all elements apart, as the one of the timers does by the address: the
  container is then the sorted list of a finite set.
\<close>

locale strict_total = strict_weak +
  assumes total: "x \<noteq> y \<Longrightarrow> lt x y \<or> lt y x"
begin

lemma equiv_eq: "equiv x y \<longleftrightarrow> x = y"
  using total by (auto simp: equiv_def)

lemma ordered_distinct: "ordered xs \<Longrightarrow> distinct xs"
  by (induction xs) auto

lemma set_find_end: "ordered xs \<Longrightarrow> set_find lt x xs < length xs \<longleftrightarrow> x \<in> set xs"
  using set_find_some equiv_eq by auto

lemma find_nth: "ordered xs \<Longrightarrow> x \<in> set xs \<Longrightarrow> xs ! set_find lt x xs = x"
  using set_find_equiv set_find_end equiv_eq by blast

lemma erase_find:
  assumes "ordered xs"
  shows "set_erase (set_find lt x xs) xs = (if x \<in> set xs then Inr (remove1 x xs) else Inl Bad_iterator)"
proof (cases "x \<in> set xs")
  case True
  let ?i = "set_find lt x xs"
  have i: "?i < length xs" "xs ! ?i = x" using True assms set_find_end find_nth by auto
  have "x \<notin> set (take ?i xs)"
    using ordered_distinct [OF assms] i id_take_nth_drop [of ?i xs]
    by (metis distinct_append disjoint_iff list.set_intros(1))
  then have "remove1 x xs = take ?i xs @ drop (Suc ?i) xs"
    using i id_take_nth_drop [of ?i xs] remove1_append [of x "take ?i xs" "x # drop (Suc ?i) xs"] by simp
  with True i show ?thesis by (simp add: set_erase_def)
qed (use set_find_end [OF assms, of x] in \<open>simp add: set_erase_def\<close>)

lemma set_of_insert: "ordered xs \<Longrightarrow> set (fst (set_insert lt x xs)) = insert x (set xs)"
proof (cases "lower_bound lt x xs < length xs \<and> \<not> lt x (xs ! lower_bound lt x xs)")
  case True
  assume "ordered xs"
  moreover have "set_find lt x xs < length xs" using True by (simp add: set_find_def Let_def)
  ultimately have "x \<in> set xs" using set_find_end by blast
  with True show ?thesis by (auto simp: set_insert_def Let_def)
next
  case False
  have "set xs = set (take (lower_bound lt x xs) xs) \<union> set (drop (lower_bound lt x xs) xs)"
    by (metis append_take_drop_id set_append)
  with False show ?thesis by (auto simp: set_insert_def Let_def)
qed

lemma insert_iter_nth: "ordered xs \<Longrightarrow> fst (set_insert lt x xs) ! snd (set_insert lt x xs) = x"
  using find_nth [of xs x] set_find_end [of xs x]
  by (auto simp: set_insert_def set_find_def Let_def nth_append min_absorb2 split: if_splits)

lemma insert_at_front:
  assumes "ordered xs"
  shows "snd (set_insert lt x xs) = 0 \<longleftrightarrow> hd (fst (set_insert lt x xs)) = x"
proof -
  let ?r = "set_insert lt x xs"
  have ord: "distinct (fst ?r)" using ordered_distinct ordered_insert [OF assms] by blast
  have ne: "fst ?r \<noteq> []" using set_of_insert [OF assms, of x] by auto
  have le: "snd ?r < length (fst ?r)"
    by (auto simp: set_insert_def Let_def less_Suc_eq_le)
  show ?thesis
    using insert_iter_nth [OF assms, of x] hd_conv_nth [OF ne] nth_eq_iff_index_eq [OF ord le, of 0] ne
    by (metis length_greater_0_conv)
qed

text \<open>Inserting the elements of a sorted container one after the other rebuilds it.\<close>

lemma ordered_unique: "ordered xs \<Longrightarrow> ordered ys \<Longrightarrow> set xs = set ys \<Longrightarrow> xs = ys"
proof (induction xs arbitrary: ys)
  case (Cons x xs)
  then obtain y ys' where ys: "ys = y # ys'" by (cases ys) auto
  have "x = y" using Cons.prems asym unfolding ys by (metis list.set_intros(1) set_ConsD sorted_wrt.simps(2))
  moreover have "set xs = set ys'"
    using Cons.prems ordered_distinct [of "x # xs"] ordered_distinct [of ys] \<open>x = y\<close> unfolding ys by auto
  ultimately show ?case using Cons ys by simp
qed simp

end

section \<open>Strings as keys\<close>

text \<open>\<open>operator<\<close> of \<open>std::string\<close>: lexicographic, with the characters compared as unsigned numbers.\<close>

fun str_less :: "string \<Rightarrow> string \<Rightarrow> bool" where
  "str_less [] [] = False"
| "str_less [] (y # ys) = True"
| "str_less (x # xs) [] = False"
| "str_less (x # xs) (y # ys) = (of_char x < (of_char y :: nat) \<or> x = y \<and> str_less xs ys)"

lemma of_char_nat_eq: "(of_char x :: nat) = of_char y \<longleftrightarrow> x = y"
  by simp

interpretation sl: strict_total str_less
proof
  show asym: "str_less x y \<Longrightarrow> \<not> str_less y x" for x y by (induction x y rule: str_less.induct) auto
  show total: "x \<noteq> y \<Longrightarrow> str_less x y \<or> str_less y x" for x y
    by (induction x y rule: str_less.induct) (use of_char_nat_eq nat_neq_iff in auto)
  have trans: "str_less x y \<Longrightarrow> str_less y z \<Longrightarrow> str_less x z" for x y z
  proof (induction x z arbitrary: y rule: str_less.induct)
    case (4 a x b z)
    then show ?case by (cases y) auto
  qed (auto elim: str_less.elims)
  show "\<not> str_less x y \<Longrightarrow> \<not> str_less y z \<Longrightarrow> \<not> str_less x z" for x y z using asym total trans by metis
qed

lemma sl_equiv [simp]: "sl.equiv x y \<longleftrightarrow> x = y"
  by (rule sl.equiv_eq)

end
