(* ===== verification/Timer_Manager.thy ===== *)
theory Timer_Manager
  imports Ordered
begin

text \<open>
  The timers of windgent/timer.h and windgent/timer.cc. A \<open>Timer::ptr\<close> is an address, the timers
  live in a heap, and \<open>m_timers\<close> is the \<open>std::set\<close> of addresses in iteration order, sorted by
  \<open>Timer::Comparator\<close>. A callback is an identifier, \<open>None\<close> the empty \<open>std::function\<close>. The time
  \<open>windgent::GetCurrentMS()\<close> and the address of a new timer are arguments. An operation that calls
  the virtual \<open>onTimerInsertedAtFront\<close> returns whether it does. Every operation holds the lock of
  the manager while it works on the set, so operations are atomic steps.
\<close>

section \<open>Timers\<close>

text \<open>\<open>std::bind(&Ontimer, weak_cond, cb)\<close> is \<open>Ontimer c cb\<close>, with \<open>c\<close> naming the condition object.\<close>

datatype callback = Callback nat | Ontimer nat callback

fun run_callback :: "(nat \<Rightarrow> bool) \<Rightarrow> callback \<Rightarrow> nat list" where
  "run_callback alive (Callback n) = [n]"
| "run_callback alive (Ontimer c cb) = (if alive c then run_callback alive cb else [])"

record timer =
  m_isRecur :: bool
  m_ms :: u64
  m_next :: u64
  m_cb :: "callback option"

record timer_manager =
  tm_heap :: "nat \<rightharpoonup> timer"
  m_timers :: "nat list"
  m_tickled :: bool
  m_previouseTime :: u64

definition Comparator :: "(nat \<rightharpoonup> timer) \<Rightarrow> nat option \<Rightarrow> nat option \<Rightarrow> bool" where
  "Comparator h lhs rhs =
     (case (lhs, rhs) of
        (None, None) \<Rightarrow> False
      | (None, Some _) \<Rightarrow> True
      | (Some _, None) \<Rightarrow> False
      | (Some p, Some q) \<Rightarrow>
          (let a = m_next (the (h p)); b = m_next (the (h q)) in
           if a < b then True else if a > b then False else p < q))"

abbreviation before :: "(nat \<rightharpoonup> timer) \<Rightarrow> nat \<Rightarrow> nat \<Rightarrow> bool" where
  "before h p q \<equiv> Comparator h (Some p) (Some q)"

text \<open>The two constructors of \<open>Timer\<close>; the second is the search key of \<open>listExpiredCbs\<close>.\<close>

definition Timer_new :: "u64 \<Rightarrow> u64 \<Rightarrow> callback option \<Rightarrow> bool \<Rightarrow> timer" where
  "Timer_new now ms cb isRecur =
     \<lparr>m_isRecur = isRecur, m_ms = ms, m_next = now + ms, m_cb = cb\<rparr>"

definition Timer_at :: "u64 \<Rightarrow> timer" where
  "Timer_at nxt = \<lparr>m_isRecur = False, m_ms = 0, m_next = nxt, m_cb = None\<rparr>"

definition TimerManager_new :: "u64 \<Rightarrow> timer_manager" where
  "TimerManager_new now =
     \<lparr>tm_heap = Map.empty, m_timers = [], m_tickled = False, m_previouseTime = now\<rparr>"

section \<open>Operations on a timer\<close>

definition cancel :: "timer_manager \<Rightarrow> nat \<Rightarrow> (bool \<times> timer_manager) result" where
  "cancel m p =
     (case tm_heap m p of
        None \<Rightarrow> Inl Null_deref
      | Some t \<Rightarrow>
          if m_cb t \<noteq> None then
            let h = (tm_heap m)(p \<mapsto> t\<lparr>m_cb := None\<rparr>); it = set_find (before h) p (m_timers m) in
            rbind (set_erase it (m_timers m)) (\<lambda>ts. Inr (True, m\<lparr>tm_heap := h, m_timers := ts\<rparr>))
          else Inr (False, m))"

definition refresh :: "u64 \<Rightarrow> timer_manager \<Rightarrow> nat \<Rightarrow> (bool \<times> timer_manager) result" where
  "refresh now m p =
     (case tm_heap m p of
        None \<Rightarrow> Inl Null_deref
      | Some t \<Rightarrow>
          if m_cb t = None then Inr (False, m)
          else let it = set_find (before (tm_heap m)) p (m_timers m) in
            if it = length (m_timers m) then Inr (False, m)
            else rbind (set_erase it (m_timers m)) (\<lambda>ts.
              let h = (tm_heap m)(p \<mapsto> t\<lparr>m_next := now + m_ms t\<rparr>) in
              Inr (True, m\<lparr>tm_heap := h, m_timers := fst (set_insert (before h) p ts)\<rparr>)))"

text \<open>\<open>TimerManager::addTimer(Timer::ptr, WrLock&)\<close>; the result says whether the front was tickled.\<close>

definition addTimer_locked :: "timer_manager \<Rightarrow> nat \<Rightarrow> bool \<times> timer_manager" where
  "addTimer_locked m p =
     (let (ts, it) = set_insert (before (tm_heap m)) p (m_timers m);
          at_front = (it = 0 \<and> \<not> m_tickled m) in
      (at_front, m\<lparr>m_timers := ts, m_tickled := (if at_front then True else m_tickled m)\<rparr>))"

text \<open>The result is the returned flag, whether the front was tickled, and the new state.\<close>

definition reset :: "u64 \<Rightarrow> timer_manager \<Rightarrow> nat \<Rightarrow> u64 \<Rightarrow> bool \<Rightarrow> (bool \<times> bool \<times> timer_manager) result" where
  "reset now m p ms from_now =
     (case tm_heap m p of
        None \<Rightarrow> Inl Null_deref
      | Some t \<Rightarrow>
          if ms = m_ms t \<and> \<not> from_now then Inr (True, False, m)
          else if m_cb t = None then Inr (False, False, m)
          else let it = set_find (before (tm_heap m)) p (m_timers m) in
            if it = length (m_timers m) then Inr (False, False, m)
            else rbind (set_erase it (m_timers m)) (\<lambda>ts.
              let start = (if from_now then now else m_next t - m_ms t);
                  h = (tm_heap m)(p \<mapsto> t\<lparr>m_ms := ms, m_next := start + ms\<rparr>);
                  (front, m') = addTimer_locked (m\<lparr>tm_heap := h, m_timers := ts\<rparr>) p in
              Inr (True, front, m')))"

section \<open>Operations of the manager\<close>

definition addTimer :: "u64 \<Rightarrow> nat \<Rightarrow> timer_manager \<Rightarrow> u64 \<Rightarrow> callback option \<Rightarrow> bool \<Rightarrow> bool \<times> timer_manager" where
  "addTimer now p m ms cb isRecur =
     addTimer_locked (m\<lparr>tm_heap := (tm_heap m)(p \<mapsto> Timer_new now ms cb isRecur)\<rparr>) p"

definition addCondTimer ::
  "u64 \<Rightarrow> nat \<Rightarrow> timer_manager \<Rightarrow> u64 \<Rightarrow> callback \<Rightarrow> nat \<Rightarrow> bool \<Rightarrow> bool \<times> timer_manager" where
  "addCondTimer now p m ms cb weak_cond isRecur =
     addTimer now p m ms (Some (Ontimer weak_cond cb)) isRecur"

definition getTimeOfNextTimer :: "u64 \<Rightarrow> timer_manager \<Rightarrow> u64 \<times> timer_manager" where
  "getTimeOfNextTimer now m =
     (case m_timers m of
        [] \<Rightarrow> (NOT 0, m)
      | p # _ \<Rightarrow>
          let nxt = m_next (the (tm_heap m p)) in
          (if now \<ge> nxt then 0 else nxt - now, m\<lparr>m_tickled := False\<rparr>))"

definition detectClockRollover :: "u64 \<Rightarrow> timer_manager \<Rightarrow> bool \<times> timer_manager" where
  "detectClockRollover now m =
     (now < m_previouseTime m \<and> now < m_previouseTime m - 60 * 60 * 1000,
      m\<lparr>m_previouseTime := now\<rparr>)"

text \<open>The loop over the expired timers: a recurring timer is armed again, another one is spent.\<close>

fun requeue :: "u64 \<Rightarrow> timer_manager \<Rightarrow> nat list \<Rightarrow> callback option list \<times> timer_manager" where
  "requeue now m [] = ([], m)"
| "requeue now m (p # ps) =
     (let t = the (tm_heap m p);
          m' = (if m_isRecur t
                then let h = (tm_heap m)(p \<mapsto> t\<lparr>m_next := now + m_ms t\<rparr>) in
                  m\<lparr>tm_heap := h, m_timers := fst (set_insert (before h) p (m_timers m))\<rparr>
                else m\<lparr>tm_heap := (tm_heap m)(p \<mapsto> t\<lparr>m_cb := None\<rparr>)\<rparr>);
          (cbs, m'') = requeue now m' ps in
      (m_cb t # cbs, m''))"

text \<open>\<open>q\<close> is the address of the search key \<open>now_timer\<close>.\<close>

definition listExpiredCbs :: "u64 \<Rightarrow> nat \<Rightarrow> timer_manager \<Rightarrow> callback option list \<times> timer_manager" where
  "listExpiredCbs now q m =
     (case m_timers m of
        [] \<Rightarrow> ([], m)
      | p # _ \<Rightarrow>
          let (rollover, m) = detectClockRollover now m in
          if \<not> rollover \<and> m_next (the (tm_heap m p)) > now then ([], m)
          else
            let h = (tm_heap m)(q \<mapsto> Timer_at now); ts = m_timers m;
                it = (if rollover then length ts else lower_bound (before h) q ts);
                it = it + length (takeWhile (\<lambda>p. m_next (the (tm_heap m p)) = now) (drop it ts)) in
            requeue now (m\<lparr>m_timers := drop it ts\<rparr>) (take it ts))"

definition hasTimer :: "timer_manager \<Rightarrow> bool" where
  "hasTimer m \<longleftrightarrow> m_timers m \<noteq> []"

section \<open>The comparator\<close>

interpretation ts: strict_total "before h" for h
  by unfold_locales (auto simp: Comparator_def Let_def split: if_splits)

lemma before_fun_upd [simp]: "p \<noteq> r \<Longrightarrow> q \<noteq> r \<Longrightarrow> before (h(r := t)) p q = before h p q"
  by (simp add: Comparator_def)

lemma before_same_next:
  "m_next (the (h p)) = m_next (the (h' p)) \<Longrightarrow> m_next (the (h q)) = m_next (the (h' q)) \<Longrightarrow>
   before h p q = before h' p q"
  by (simp add: Comparator_def)

lemma ordered_cong:
  assumes "\<And>p. p \<in> set ts \<Longrightarrow> m_next (the (h p)) = m_next (the (h' p))"
  shows "ts.ordered h ts = ts.ordered h' ts"
  using assms
proof (induction ts)
  case (Cons p ts)
  then have "before h p q = before h' p q" if "q \<in> set ts" for q
    using that by (intro before_same_next) auto
  with Cons show ?case by simp
qed simp

lemma ordered_fun_upd [simp]: "p \<notin> set ts \<Longrightarrow> ts.ordered (h(p := t)) ts = ts.ordered h ts"
  by (rule ordered_cong) auto

lemma ordered_next_le:
  "ts.ordered h (p # ts) \<Longrightarrow> q \<in> set ts \<Longrightarrow> m_next (the (h p)) \<le> m_next (the (h q))"
  by (auto simp: Comparator_def Let_def split: if_splits)

section \<open>The invariant\<close>

text \<open>
  The set is sorted by its comparator, although the keys \<open>m_next\<close> of its elements change, and every
  timer whose callback is set is in it.
\<close>

definition tm_inv :: "timer_manager \<Rightarrow> bool" where
  "tm_inv m \<longleftrightarrow> ts.ordered (tm_heap m) (m_timers m) \<and> set (m_timers m) \<subseteq> dom (tm_heap m)
     \<and> (\<forall>p t. tm_heap m p = Some t \<and> m_cb t \<noteq> None \<longrightarrow> p \<in> set (m_timers m))"

lemma tm_invD:
  assumes "tm_inv m"
  shows "ts.ordered (tm_heap m) (m_timers m)" "set (m_timers m) \<subseteq> dom (tm_heap m)"
    "tm_heap m p = Some t \<Longrightarrow> m_cb t \<noteq> None \<Longrightarrow> p \<in> set (m_timers m)"
    "distinct (m_timers m)"
  using assms ts.ordered_distinct unfolding tm_inv_def by blast+

lemma tm_inv_new: "tm_inv (TimerManager_new now)"
  by (simp add: tm_inv_def TimerManager_new_def)

text \<open>What taking a timer out of the set and putting it back with a new key gives.\<close>

lemma remove1_ordered: "ts.ordered h ts \<Longrightarrow> ts.ordered (h(p := t)) (remove1 p ts)"
proof -
  assume o: "ts.ordered h ts"
  then have "p \<notin> set (remove1 p ts)" using ts.ordered_distinct [of h ts] by simp
  moreover have "ts.ordered h (remove1 p ts)"
    using o ts.ordered_distinct [OF o]
    by (simp add: distinct_remove1_removeAll removeAll_filter_not_eq sorted_wrt_filter)
  ultimately show ?thesis by simp
qed

lemma insert_ordered:
  "p \<notin> set ts \<Longrightarrow> ts.ordered h ts \<Longrightarrow>
   ts.ordered (h(p := t)) (fst (set_insert (before (h(p := t))) p ts))
   \<and> set (fst (set_insert (before (h(p := t))) p ts)) = insert p (set ts)"
  using ts.ordered_insert [of "h(p := t)" ts p] ts.set_of_insert [of "h(p := t)" ts p] by simp

lemma cancel_eq:
  assumes "tm_inv m" "tm_heap m p = Some t"
  shows "cancel m p = Inr (m_cb t \<noteq> None,
    if m_cb t \<noteq> None then m\<lparr>tm_heap := (tm_heap m)(p \<mapsto> t\<lparr>m_cb := None\<rparr>),
      m_timers := remove1 p (m_timers m)\<rparr> else m)"
proof (cases "m_cb t = None")
  case False
  let ?h = "(tm_heap m)(p \<mapsto> t\<lparr>m_cb := None\<rparr>)"
  have "ts.ordered ?h (m_timers m)"
    using tm_invD(1) [OF assms(1)] assms(2) by (subst ordered_cong [of _ _ "tm_heap m"]) auto
  from ts.erase_find [OF this, of p] tm_invD(3) [OF assms False] False assms(2)
  show ?thesis by (simp add: cancel_def Let_def)
qed (use assms in \<open>simp add: cancel_def\<close>)

lemma find_not_end: "tm_inv m \<Longrightarrow> p \<in> set (m_timers m) \<Longrightarrow>
    set_find (before (tm_heap m)) p (m_timers m) \<noteq> length (m_timers m)"
  using ts.set_find_end [OF tm_invD(1), of m p] by auto

lemma refresh_eq:
  fixes now :: u64
  assumes "tm_inv m" "tm_heap m p = Some t"
  defines "h \<equiv> (tm_heap m)(p \<mapsto> t\<lparr>m_next := now + m_ms t\<rparr>)"
  shows "refresh now m p = Inr (m_cb t \<noteq> None,
    if m_cb t \<noteq> None then m\<lparr>tm_heap := h,
      m_timers := fst (set_insert (before h) p (remove1 p (m_timers m)))\<rparr> else m)"
proof (cases "m_cb t = None")
  case False
  have p: "p \<in> set (m_timers m)" using tm_invD(3) [OF assms(1,2) False] .
  show ?thesis
    using ts.erase_find [OF tm_invD(1) [OF assms(1)], of p] find_not_end [OF assms(1) p] p False assms(2)
    by (simp add: refresh_def Let_def h_def)
qed (use assms in \<open>simp add: refresh_def\<close>)

lemma reset_eq:
  fixes now ms :: u64 and from_now :: bool
  assumes "tm_inv m" "tm_heap m p = Some t"
  defines "h \<equiv> (tm_heap m)(p \<mapsto> t\<lparr>m_ms := ms,
             m_next := (if from_now then now else m_next t - m_ms t) + ms\<rparr>)"
  shows "reset now m p ms from_now =
    (if ms = m_ms t \<and> \<not> from_now then Inr (True, False, m)
     else if m_cb t = None then Inr (False, False, m)
     else Inr (True, addTimer_locked (m\<lparr>tm_heap := h, m_timers := remove1 p (m_timers m)\<rparr>) p))"
proof (cases "m_cb t = None")
  case False
  have p: "p \<in> set (m_timers m)" using tm_invD(3) [OF assms(1,2) False] .
  show ?thesis
    using ts.erase_find [OF tm_invD(1) [OF assms(1)], of p] find_not_end [OF assms(1) p] p False assms(2)
    by (auto simp: reset_def Let_def h_def split: prod.split)
qed (use assms in \<open>simp add: reset_def\<close>)

lemma addTimer_locked_fields:
  "tm_heap (snd (addTimer_locked m p)) = tm_heap m"
  "m_timers (snd (addTimer_locked m p)) = fst (set_insert (before (tm_heap m)) p (m_timers m))"
  "m_previouseTime (snd (addTimer_locked m p)) = m_previouseTime m"
  by (simp_all add: addTimer_locked_def Let_def split: prod.split)

text \<open>
  The set without \<open>p\<close> under a heap where only \<open>p\<close> may differ: inserting \<open>p\<close> gives back a state with
  the invariant.
\<close>

lemma tm_inv_insert:
  assumes "tm_inv m" "set ts = set (m_timers m) - {p}" "ts.ordered (tm_heap m) ts"
    "m_timers m' = fst (set_insert (before (tm_heap m')) p ts)" "tm_heap m' = (tm_heap m)(p \<mapsto> t)"
  shows "tm_inv m'"
proof -
  have "p \<notin> set ts" using assms(2) by simp
  from insert_ordered [OF this assms(3)] assms tm_invD(2) [OF assms(1)] tm_invD(3) [OF assms(1)]
  show ?thesis by (auto simp: tm_inv_def)
qed

lemma tm_inv_cancel: "tm_inv m \<Longrightarrow> cancel m p = Inr (r, m') \<Longrightarrow> tm_inv m'"
proof (cases "tm_heap m p")
  case (Some t)
  assume inv: "tm_inv m" and c: "cancel m p = Inr (r, m')"
  show ?thesis
  proof (cases "m_cb t = None")
    case False
    with c cancel_eq [OF inv Some] have m': "m' = m\<lparr>tm_heap := (tm_heap m)(p \<mapsto> t\<lparr>m_cb := None\<rparr>),
      m_timers := remove1 p (m_timers m)\<rparr>" by simp
    show ?thesis
      using remove1_ordered [OF tm_invD(1) [OF inv], of p "Some (t\<lparr>m_cb := None\<rparr>)"]
        tm_invD(2-4) [OF inv] unfolding m'
      by (auto simp: tm_inv_def split: if_splits)
  qed (use c inv cancel_eq [OF inv Some] in simp)
qed (simp add: cancel_def)

lemma remove1_facts: "tm_inv m \<Longrightarrow> set (remove1 p (m_timers m)) = set (m_timers m) - {p}
    \<and> ts.ordered (tm_heap m) (remove1 p (m_timers m))"
  using remove1_ordered [OF tm_invD(1), of m p "tm_heap m p"] tm_invD(4) [of m]
  by (simp add: fun_upd_idem)

lemma tm_inv_refresh: "tm_inv m \<Longrightarrow> refresh now m p = Inr (r, m') \<Longrightarrow> tm_inv m'"
proof (cases "tm_heap m p")
  case (Some t)
  assume inv: "tm_inv m" and c: "refresh now m p = Inr (r, m')"
  show ?thesis
  proof (cases "m_cb t = None")
    case False
    with c refresh_eq [OF inv Some] show ?thesis
      using remove1_facts [OF inv, of p]
      by (intro tm_inv_insert [OF inv, of "remove1 p (m_timers m)" p]) auto
  qed (use c inv refresh_eq [OF inv Some] in simp)
qed (simp add: refresh_def)

lemma tm_inv_reset: "tm_inv m \<Longrightarrow> reset now m p ms fn = Inr (r, f, m') \<Longrightarrow> tm_inv m'"
proof (cases "tm_heap m p")
  case (Some t)
  assume inv: "tm_inv m" and c: "reset now m p ms fn = Inr (r, f, m')"
  show ?thesis
  proof (cases "m' = m")
    case False
    let ?h = "(tm_heap m)(p \<mapsto> t\<lparr>m_ms := ms, m_next := (if fn then now else m_next t - m_ms t) + ms\<rparr>)"
    have m': "m' = snd (addTimer_locked (m\<lparr>tm_heap := ?h, m_timers := remove1 p (m_timers m)\<rparr>) p)"
      using c False unfolding reset_eq [OF inv Some] by (auto split: if_splits)
    show ?thesis
      using remove1_facts [OF inv, of p]
      by (intro tm_inv_insert [OF inv, of "remove1 p (m_timers m)" p]) (simp_all add: m' addTimer_locked_fields)
  qed (use inv in simp)
qed (simp add: reset_def)

lemma tm_inv_addTimer:
  assumes "tm_inv m" "p \<notin> dom (tm_heap m)"
  shows "tm_inv (snd (addTimer now p m ms cb isRecur))"
proof (rule tm_inv_insert [OF assms(1)])
  show "set (m_timers m) = set (m_timers m) - {p}" using tm_invD(2) [OF assms(1)] assms(2) by blast
  show "ts.ordered (tm_heap m) (m_timers m)" using tm_invD(1) [OF assms(1)] .
qed (simp_all add: addTimer_def addTimer_locked_fields)

section \<open>Expiry\<close>

definition nxt :: "timer_manager \<Rightarrow> nat \<Rightarrow> u64" where
  "nxt m p = m_next (the (tm_heap m p))"

text \<open>What \<open>requeue\<close> does to one expired timer.\<close>

definition expire :: "u64 \<Rightarrow> timer \<Rightarrow> timer" where
  "expire now t = (if m_isRecur t then t\<lparr>m_next := now + m_ms t\<rparr> else t\<lparr>m_cb := None\<rparr>)"

lemma requeue_spec:
  assumes "distinct ps" "set ps \<subseteq> dom (tm_heap m)" "set ps \<inter> set (m_timers m) = {}"
    "ts.ordered (tm_heap m) (m_timers m)" "requeue now m ps = (cbs, m')"
  shows "cbs = map (\<lambda>p. m_cb (the (tm_heap m p))) ps
    \<and> tm_heap m' = (\<lambda>p. if p \<in> set ps then map_option (expire now) (tm_heap m p) else tm_heap m p)
    \<and> ts.ordered (tm_heap m') (m_timers m')
    \<and> set (m_timers m') = set (m_timers m) \<union> {p \<in> set ps. m_isRecur (the (tm_heap m p))}
    \<and> m_tickled m' = m_tickled m \<and> m_previouseTime m' = m_previouseTime m"
  using assms
proof (induction ps arbitrary: m cbs)
  case (Cons p ps)
  obtain t where t: "tm_heap m p = Some t" using Cons.prems(2) by auto
  let ?h = "(tm_heap m)(p \<mapsto> expire now t)"
  define m1 where "m1 = m\<lparr>tm_heap := ?h, m_timers := (if m_isRecur t
    then fst (set_insert (before ?h) p (m_timers m)) else m_timers m)\<rparr>"
  have p: "p \<notin> set ps" "p \<notin> set (m_timers m)" using Cons.prems(1,3) by auto
  note ins = insert_ordered [OF p(2) Cons.prems(4), of "Some (expire now t)"]
  obtain cbs' where rq: "requeue now m1 ps = (cbs', m')" "cbs = m_cb t # cbs'"
    using Cons.prems(5) t by (auto simp: m1_def expire_def Let_def split: prod.splits if_splits)
  have o1: "ts.ordered (tm_heap m1) (m_timers m1)" using ins p(2) Cons.prems(4) by (simp add: m1_def)
  have s1: "set (m_timers m1) = set (m_timers m) \<union> {q. q = p \<and> m_isRecur t}"
    using ins by (auto simp: m1_def)
  have "set ps \<subseteq> dom (tm_heap m1)" "set ps \<inter> set (m_timers m1) = {}" "distinct ps"
    using Cons.prems(1-3) p s1 by (auto simp: m1_def)
  note IH = Cons.IH [OF this(3,1,2) o1 rq(1)]
  have same: "tm_heap m1 q = tm_heap m q" if "q \<in> set ps" for q using that p by (auto simp: m1_def)
  have "map (\<lambda>p. m_cb (the (tm_heap m1 p))) ps = map (\<lambda>p. m_cb (the (tm_heap m p))) ps"
    using same by simp
  moreover have "{q \<in> set ps. m_isRecur (the (tm_heap m1 q))} = {q \<in> set ps. m_isRecur (the (tm_heap m q))}"
    using same by auto
  moreover have "tm_heap m' = (\<lambda>q. if q \<in> set (p # ps) then map_option (expire now) (tm_heap m q) else tm_heap m q)"
    using IH p t same by (auto simp: m1_def)
  ultimately show ?case using IH rq(2) s1 t by (auto simp: m1_def)
qed simp

text \<open>In a sorted set the timers due at \<open>now\<close> are a prefix, whatever the address of the search key.\<close>

lemma due_prefix:
  fixes now :: u64
  assumes "ts.ordered h ts" "q \<notin> set ts"
  defines "it \<equiv> lower_bound (before (h(q \<mapsto> Timer_at now))) q ts"
  shows "it + length (takeWhile (\<lambda>p. m_next (the (h p)) = now) (drop it ts))
    = length (filter (\<lambda>p. m_next (the (h p)) \<le> now) ts)"
    "take (length (filter (\<lambda>p. m_next (the (h p)) \<le> now) ts)) ts = filter (\<lambda>p. m_next (the (h p)) \<le> now) ts"
    "drop (length (filter (\<lambda>p. m_next (the (h p)) \<le> now) ts)) ts = filter (\<lambda>p. now < m_next (the (h p))) ts"
proof -
  let ?k = "\<lambda>p. m_next (the (h p))"
  define B where "B = before (h(q \<mapsto> Timer_at now))"
  have all: "it + length (takeWhile (\<lambda>p. ?k p = now) (drop it ts)) = length (filter (\<lambda>p. ?k p \<le> now) ts)
    \<and> take (length (filter (\<lambda>p. ?k p \<le> now) ts)) ts = filter (\<lambda>p. ?k p \<le> now) ts
    \<and> drop (length (filter (\<lambda>p. ?k p \<le> now) ts)) ts = filter (\<lambda>p. now < ?k p) ts"
    unfolding it_def B_def [symmetric] using assms(1,2)
  proof (induction ts)
    case (Cons p ts)
    note IH = Cons.IH
    have le: "?k p \<le> ?k r" if "r \<in> set ts" for r using ordered_next_le [OF Cons.prems(1) that] .
    have tail: "ts.ordered h ts" "q \<notin> set ts" "p \<noteq> q" using Cons.prems by auto
    have key: "B p q \<longleftrightarrow> ?k p < now \<or> (?k p = now \<and> p < q)"
      using tail(3) by (auto simp: B_def Comparator_def Timer_at_def Let_def)
    show ?case
    proof (cases "?k p \<le> now")
      case True
      have keyr: "B r q \<longleftrightarrow> ?k r < now \<or> (?k r = now \<and> r < q)" if "r \<in> set ts" for r
        using tail(2) that by (auto simp: B_def Comparator_def Timer_at_def Let_def)
      have lb0: "lower_bound B q ts = 0" if "\<not> B p q"
      proof (cases ts)
        case ts: (Cons r ts')
        have "p < r" if "?k r = ?k p" using Cons.prems(1) that
          by (auto simp: ts Comparator_def Let_def split: if_splits)
        then have "\<not> B r q" using keyr [of r] key that le [of r] True by (auto simp: ts)
        then show ?thesis by (simp add: lower_bound_def ts)
      qed (simp add: lower_bound_def)
      show ?thesis using IH [OF tail(1,2)] True key lb0 by (auto simp: lower_bound_def)
    next
      case False
      then have big: "now < ?k r" if "r \<in> set ts" for r using le [OF that] by simp
      then have "filter (\<lambda>p. ?k p \<le> now) ts = []" "filter (\<lambda>p. now < ?k p) ts = ts"
        by (auto simp: filter_empty_conv filter_id_conv not_le)
      with False key show ?thesis by (auto simp: lower_bound_def)
    qed
  qed (simp add: lower_bound_def)
  then show "it + length (takeWhile (\<lambda>p. ?k p = now) (drop it ts)) = length (filter (\<lambda>p. ?k p \<le> now) ts)"
    "take (length (filter (\<lambda>p. ?k p \<le> now) ts)) ts = filter (\<lambda>p. ?k p \<le> now) ts"
    "drop (length (filter (\<lambda>p. ?k p \<le> now) ts)) ts = filter (\<lambda>p. now < ?k p) ts"
    by blast+
qed

definition rollover_at :: "u64 \<Rightarrow> timer_manager \<Rightarrow> bool" where
  "rollover_at now m \<longleftrightarrow> fst (detectClockRollover now m)"

text \<open>The timers \<open>listExpiredCbs\<close> takes out, in order: those due, or all after a clock rollover.\<close>

definition due :: "u64 \<Rightarrow> timer_manager \<Rightarrow> nat list" where
  "due now m = (if rollover_at now m then m_timers m else filter (\<lambda>p. nxt m p \<le> now) (m_timers m))"

lemma listExpiredCbs_requeue:
  assumes "tm_inv m" "q \<notin> dom (tm_heap m)" "m_timers m \<noteq> []"
  shows "listExpiredCbs now q m =
    requeue now (m\<lparr>m_previouseTime := now, m_timers := filter (\<lambda>p. p \<notin> set (due now m)) (m_timers m)\<rparr>) (due now m)"
proof -
  obtain p ts where ts: "m_timers m = p # ts" using assms(3) by (cases "m_timers m") auto
  note ord = tm_invD(1) [OF assms(1)]
  have q: "q \<notin> set (m_timers m)" using tm_invD(2) [OF assms(1)] assms(2) by blast
  note pre = due_prefix [OF ord q, of now]
  have rest: "filter (\<lambda>p. p \<notin> set (due now m)) (m_timers m) =
    (if rollover_at now m then [] else filter (\<lambda>p. now < m_next (the (tm_heap m p))) (m_timers m))"
    by (auto simp: due_def nxt_def not_le intro!: filter_cong)
  show ?thesis
  proof (cases "\<not> rollover_at now m \<and> m_next (the (tm_heap m p)) > now")
    case True
    then have "now < m_next (the (tm_heap m r))" if "r \<in> set (m_timers m)" for r
      using that ordered_next_le [of "tm_heap m" p ts r] ord unfolding ts by auto
    then have "due now m = []" using True by (auto simp: due_def nxt_def filter_empty_conv not_le)
    with True show ?thesis
      by (simp add: listExpiredCbs_def ts rollover_at_def detectClockRollover_def)
  next
    case False
    let ?it = "if rollover_at now m then length (m_timers m)
      else lower_bound (before ((tm_heap m)(q \<mapsto> Timer_at now))) q (m_timers m)"
    let ?n = "?it + length (takeWhile (\<lambda>p. m_next (the (tm_heap m p)) = now) (drop ?it (m_timers m)))"
    have "listExpiredCbs now q m = requeue now (m\<lparr>m_previouseTime := now, m_timers := drop ?n (m_timers m)\<rparr>)
      (take ?n (m_timers m))"
      unfolding listExpiredCbs_def using False
      by (auto simp: ts rollover_at_def detectClockRollover_def Let_def simp del: requeue.simps)
    moreover have "?n = length (due now m)" using pre(1) by (simp add: due_def nxt_def)
    ultimately have "listExpiredCbs now q m = requeue now (m\<lparr>m_previouseTime := now,
      m_timers := drop (length (due now m)) (m_timers m)\<rparr>) (take (length (due now m)) (m_timers m))"
      by presburger
    also have "drop (length (due now m)) (m_timers m) = filter (\<lambda>p. p \<notin> set (due now m)) (m_timers m)"
      unfolding rest using pre(3) by (simp add: due_def nxt_def)
    also have "take (length (due now m)) (m_timers m) = due now m"
      using pre(2) by (simp add: due_def nxt_def)
    finally show ?thesis .
  qed
qed

lemma set_due_subset: "set (due now m) \<subseteq> set (m_timers m)"
  by (auto simp: due_def)

lemma listExpiredCbs_spec:
  assumes "tm_inv m" "q \<notin> dom (tm_heap m)" "listExpiredCbs now q m = (cbs, m')"
  shows "cbs = map (\<lambda>p. m_cb (the (tm_heap m p))) (due now m)"
    "tm_heap m' = (\<lambda>p. if p \<in> set (due now m) then map_option (expire now) (tm_heap m p) else tm_heap m p)"
    "ts.ordered (tm_heap m') (m_timers m')"
    "set (m_timers m') = (set (m_timers m) - set (due now m))
       \<union> {p \<in> set (due now m). m_isRecur (the (tm_heap m p))}"
    "m_tickled m' = m_tickled m"
proof -
  have all: "cbs = map (\<lambda>p. m_cb (the (tm_heap m p))) (due now m)
    \<and> tm_heap m' = (\<lambda>p. if p \<in> set (due now m) then map_option (expire now) (tm_heap m p) else tm_heap m p)
    \<and> ts.ordered (tm_heap m') (m_timers m')
    \<and> set (m_timers m') = (set (m_timers m) - set (due now m))
       \<union> {p \<in> set (due now m). m_isRecur (the (tm_heap m p))}
    \<and> m_tickled m' = m_tickled m"
  proof (cases "m_timers m = []")
    case True
    with assms(3) have "cbs = []" "m' = m" "due now m = []"
      by (auto simp: listExpiredCbs_def due_def)
    with True show ?thesis by simp
  next
    case False
    let ?m = "m\<lparr>m_previouseTime := now, m_timers := filter (\<lambda>p. p \<notin> set (due now m)) (m_timers m)\<rparr>"
    have d: "distinct (due now m)" "set (due now m) \<subseteq> dom (tm_heap ?m)"
      "set (due now m) \<inter> set (m_timers ?m) = {}" "ts.ordered (tm_heap ?m) (m_timers ?m)"
      using tm_invD(1,2,4) [OF assms(1)] set_due_subset [of now m]
      by (auto simp: due_def sorted_wrt_filter)
    have "requeue now ?m (due now m) = (cbs, m')"
      using listExpiredCbs_requeue [OF assms(1,2) False] assms(3) by simp
    from requeue_spec [OF d this] show ?thesis by auto
  qed
  then show "cbs = map (\<lambda>p. m_cb (the (tm_heap m p))) (due now m)"
    "tm_heap m' = (\<lambda>p. if p \<in> set (due now m) then map_option (expire now) (tm_heap m p) else tm_heap m p)"
    "ts.ordered (tm_heap m') (m_timers m')"
    "set (m_timers m') = (set (m_timers m) - set (due now m))
       \<union> {p \<in> set (due now m). m_isRecur (the (tm_heap m p))}"
    "m_tickled m' = m_tickled m"
    by blast+
qed

lemma tm_inv_listExpiredCbs:
  assumes "tm_inv m" "q \<notin> dom (tm_heap m)" "listExpiredCbs now q m = (cbs, m')"
  shows "tm_inv m'"
proof -
  note sp = listExpiredCbs_spec [OF assms]
  note I = tm_invD [OF assms(1)]
  have "p \<in> set (m_timers m')" if "tm_heap m' p = Some t" "m_cb t \<noteq> None" for p t
  proof (cases "p \<in> set (due now m)")
    case True
    with that sp(2) obtain t0 where "tm_heap m p = Some t0" "t = expire now t0" by auto
    with that(2) True show ?thesis unfolding sp(4) by (auto simp: expire_def split: if_splits)
  next
    case False
    with that sp(2) I(3) [of p t] show ?thesis unfolding sp(4) by auto
  qed
  moreover have "set (m_timers m') \<subseteq> dom (tm_heap m')"
    using sp(2,4) I(2) set_due_subset [of now m] by (auto simp: dom_def subset_iff)
  ultimately show ?thesis using sp(3) by (auto simp: tm_inv_def)
qed

lemma getTimeOfNextTimer_state:
  "snd (getTimeOfNextTimer now m) = (if m_timers m = [] then m else m\<lparr>m_tickled := False\<rparr>)"
  by (simp add: getTimeOfNextTimer_def Let_def split: list.split)

lemma tm_inv_getTimeOfNextTimer: "tm_inv m \<Longrightarrow> tm_inv (snd (getTimeOfNextTimer now m))"
  by (auto simp: getTimeOfNextTimer_state tm_inv_def)

section \<open>Runs\<close>

text \<open>
  The calls the scheduler and the users of a manager make, in any order and at any time. A timer
  that a step uses was returned by \<open>addTimer\<close>, so its address is in the heap.
\<close>

inductive tm_step :: "timer_manager \<Rightarrow> timer_manager \<Rightarrow> bool" where
  step_cancel: "cancel m p = Inr (r, m') \<Longrightarrow> tm_step m m'"
| step_refresh: "refresh now m p = Inr (r, m') \<Longrightarrow> tm_step m m'"
| step_reset: "reset now m p ms from_now = Inr (r, f, m') \<Longrightarrow> tm_step m m'"
| step_add: "p \<notin> dom (tm_heap m) \<Longrightarrow> addTimer now p m ms cb isRecur = (f, m') \<Longrightarrow> tm_step m m'"
| step_time: "getTimeOfNextTimer now m = (w, m') \<Longrightarrow> tm_step m m'"
| step_expire: "q \<notin> dom (tm_heap m) \<Longrightarrow> listExpiredCbs now q m = (cbs, m') \<Longrightarrow> tm_step m m'"

inductive tm_reachable :: "timer_manager \<Rightarrow> bool" where
  reach_new: "tm_reachable (TimerManager_new now)"
| reach_step: "tm_reachable m \<Longrightarrow> tm_step m m' \<Longrightarrow> tm_reachable m'"

lemma tm_inv_step: "tm_step m m' \<Longrightarrow> tm_inv m \<Longrightarrow> tm_inv m'"
proof (induction rule: tm_step.induct)
  case (step_add p m now ms cb isRecur f m')
  then show ?case using tm_inv_addTimer [of m p now ms cb isRecur] by simp
next
  case (step_time now m w m')
  then show ?case using tm_inv_getTimeOfNextTimer [of m now] by simp
qed (auto intro: tm_inv_cancel tm_inv_refresh tm_inv_reset tm_inv_listExpiredCbs)

lemma tm_reachable_inv: "tm_reachable m \<Longrightarrow> tm_inv m"
  by (induction rule: tm_reachable.induct) (auto intro: tm_inv_new tm_inv_step)

text \<open>A timer that is out of the set and has no callback stays so.\<close>

definition spent :: "nat \<Rightarrow> timer_manager \<Rightarrow> bool" where
  "spent p m \<longleftrightarrow> p \<notin> set (m_timers m) \<and> (\<exists>t. tm_heap m p = Some t \<and> m_cb t = None)"

lemma set_insert_fst_ordered:
  "p \<notin> set ts \<Longrightarrow> ts.ordered h ts \<Longrightarrow>
   set (fst (set_insert (before (h(p \<mapsto> t))) p ts)) = insert p (set ts)"
  using insert_ordered [of p ts h "Some t"] by simp

lemma spent_step:
  assumes "tm_step m m'" "tm_inv m" "spent p m"
  shows "spent p m'"
  using assms
proof (induction rule: tm_step.induct)
  case (step_cancel m q r m')
  then obtain t where t: "tm_heap m q = Some t" by (cases "tm_heap m q") (auto simp: cancel_def)
  from step_cancel cancel_eq [OF step_cancel(2) t] t show ?case
    by (auto simp: spent_def split: if_splits dest: notin_set_remove1)
next
  case (step_refresh now m q r m')
  then obtain t where t: "tm_heap m q = Some t" by (cases "tm_heap m q") (auto simp: refresh_def)
  let ?h = "(tm_heap m)(q \<mapsto> t\<lparr>m_next := now + m_ms t\<rparr>)"
  note rem = remove1_facts [OF step_refresh(2), of q]
  show ?case
  proof (cases "m_cb t = None")
    case False
    then have m': "m' = m\<lparr>tm_heap := ?h,
        m_timers := fst (set_insert (before ?h) q (remove1 q (m_timers m)))\<rparr>"
      using step_refresh(1) refresh_eq [OF step_refresh(2) t, of now] by simp
    have "set (m_timers m') = insert q (set (m_timers m))"
      using set_insert_fst_ordered [of q "remove1 q (m_timers m)" "tm_heap m"] rem
        tm_invD(3) [OF step_refresh(2) t False] by (auto simp: m')
    moreover have "tm_heap m' = ?h" by (simp add: m')
    ultimately show ?thesis using step_refresh(3) False t by (auto simp: spent_def)
  qed (use step_refresh refresh_eq [OF step_refresh(2) t, of now] in simp)
next
  case (step_reset now m q ms fn r f m')
  then obtain t where t: "tm_heap m q = Some t" by (cases "tm_heap m q") (auto simp: reset_def)
  let ?h = "(tm_heap m)(q \<mapsto> t\<lparr>m_ms := ms, m_next := (if fn then now else m_next t - m_ms t) + ms\<rparr>)"
  note rem = remove1_facts [OF step_reset(2), of q]
  consider "m' = m" | "m_cb t \<noteq> None"
    "m' = snd (addTimer_locked (m\<lparr>tm_heap := ?h, m_timers := remove1 q (m_timers m)\<rparr>) q)"
    using step_reset(1) unfolding reset_eq [OF step_reset(2) t] by (auto split: if_splits)
  then show ?case
  proof cases
    case 2
    have "set (m_timers m') = insert q (set (m_timers m))"
      using set_insert_fst_ordered [of q "remove1 q (m_timers m)" "tm_heap m"] rem
        tm_invD(3) [OF step_reset(2) t 2(1)] by (auto simp: 2(2) addTimer_locked_fields)
    moreover have "tm_heap m' = ?h" by (simp add: 2(2) addTimer_locked_fields)
    ultimately show ?thesis using step_reset(3) 2(1) t by (auto simp: spent_def)
  qed (use step_reset(3) in simp)
next
  case (step_add q m now ms cb isRecur f m')
  have m': "m' = snd (addTimer now q m ms cb isRecur)" using step_add by simp
  have "q \<notin> set (m_timers m)" using tm_invD(2) [OF step_add(3)] step_add(1) by blast
  from set_insert_fst_ordered [OF this tm_invD(1) [OF step_add(3)]]
  have "set (m_timers m') = insert q (set (m_timers m))"
    "tm_heap m' = (tm_heap m)(q \<mapsto> Timer_new now ms cb isRecur)"
    by (simp_all add: m' addTimer_def addTimer_locked_fields)
  with step_add(1,4) show ?case by (auto simp: spent_def)
next
  case (step_time now m w m')
  then show ?case using getTimeOfNextTimer_state [of now m] by (auto simp: spent_def split: if_splits)
next
  case (step_expire q m now cbs m')
  have "p \<notin> set (due now m)" using step_expire(4) set_due_subset [of now m] by (auto simp: spent_def)
  with step_expire listExpiredCbs_spec [OF step_expire(3,1,2)] show ?case by (auto simp: spent_def)
qed

lemma spent_steps: "tm_step\<^sup>*\<^sup>* m m' \<Longrightarrow> tm_inv m \<Longrightarrow> spent p m \<Longrightarrow> tm_inv m' \<and> spent p m'"
  by (induction rule: rtranclp_induct) (auto intro: tm_inv_step spent_step)

lemma ordered_sorted_next: "ts.ordered (tm_heap m) ts \<Longrightarrow> sorted (map (nxt m) ts)"
  by (induction ts) (auto simp: nxt_def intro: ordered_next_le)

section \<open>Properties\<close>

text \<open>
  \<^bold>\<open>C4\<close>. In every state a timer manager reaches, the set of timers is sorted by the time of the next
  execution and holds every timer whose callback is set, so \<open>cancel\<close> of any timer never erases
  \<open>end()\<close>: it returns true for an armed timer and false for any other.
\<close>

theorem timers_stay_sorted:
  assumes "tm_reachable m"
  shows "sorted (map (nxt m) (m_timers m)) \<and> distinct (m_timers m)
    \<and> (\<forall>p t. tm_heap m p = Some t \<longrightarrow>
         (m_cb t \<noteq> None \<longrightarrow> p \<in> set (m_timers m)) \<and> (\<exists>m'. cancel m p = Inr (m_cb t \<noteq> None, m')))"
  using tm_reachable_inv [OF assms] ordered_sorted_next tm_invD(1,3,4) cancel_eq by blast

text \<open>
  \<^bold>\<open>C5\<close>. \<open>listExpiredCbs\<close> returns the callbacks of exactly the timers that are due, in the order of
  their time (all of them after the clock went back by more than an hour). Afterwards a recurring
  timer that was due is set to \<open>now + m_ms\<close> and still in the set, another one that was due is out of
  the set without a callback, and no other timer has changed.
\<close>

theorem listExpiredCbs_exact:
  assumes "tm_reachable m" "q \<notin> dom (tm_heap m)" "listExpiredCbs now q m = (cbs, m')"
  shows "cbs = map (\<lambda>p. m_cb (the (tm_heap m p))) (due now m)
    \<and> sorted (map (nxt m) (due now m))
    \<and> (\<forall>p. p \<in> set (due now m) \<longleftrightarrow> p \<in> set (m_timers m) \<and> (rollover_at now m \<or> nxt m p \<le> now))
    \<and> (\<forall>p t. tm_heap m p = Some t \<longrightarrow>
         (if p \<notin> set (due now m)
          then tm_heap m' p = Some t \<and> (p \<in> set (m_timers m') \<longleftrightarrow> p \<in> set (m_timers m))
          else if m_isRecur t
          then tm_heap m' p = Some (t\<lparr>m_next := now + m_ms t\<rparr>) \<and> p \<in> set (m_timers m')
          else tm_heap m' p = Some (t\<lparr>m_cb := None\<rparr>) \<and> p \<notin> set (m_timers m')))"
proof -
  note inv = tm_reachable_inv [OF assms(1)]
  note sp = listExpiredCbs_spec [OF inv assms(2,3)]
  have "sorted (map (nxt m) (due now m))"
    using ordered_sorted_next [OF tm_invD(1) [OF inv]] by (auto simp: due_def sorted_map sorted_wrt_filter)
  moreover have "\<forall>p. p \<in> set (due now m) \<longleftrightarrow> p \<in> set (m_timers m) \<and> (rollover_at now m \<or> nxt m p \<le> now)"
    by (auto simp: due_def)
  ultimately show ?thesis using sp set_due_subset [of now m] by (auto simp: expire_def)
qed

text \<open>A manager with one armed timer due at 110, and a run that reaches it.\<close>

definition demo :: timer_manager where
  "demo = snd (addTimer 100 5 (TimerManager_new 100) 10 (Some (Callback 1)) False)"

lemma demo_eq:
  "demo = \<lparr>tm_heap = [5 \<mapsto> \<lparr>m_isRecur = False, m_ms = 10, m_next = 110, m_cb = Some (Callback 1)\<rparr>],
     m_timers = [5], m_tickled = True, m_previouseTime = 100\<rparr>"
  by (simp add: demo_def addTimer_def addTimer_locked_def TimerManager_new_def Timer_new_def
      set_insert_def lower_bound_def Let_def)

lemma demo_reachable: "tm_reachable demo"
  unfolding demo_def
  by (rule reach_step [OF reach_new], rule step_add [OF _ prod.collapse [symmetric]])
     (simp add: TimerManager_new_def)

theorem timers_stay_sorted_witness:
  "sorted (map (nxt demo) (m_timers demo)) \<and> (\<exists>m'. cancel demo 5 = Inr (True, m'))"
proof -
  have p: "tm_heap demo 5 = Some \<lparr>m_isRecur = False, m_ms = 10, m_next = 110, m_cb = Some (Callback 1)\<rparr>"
    by (simp add: demo_eq)
  show ?thesis using timers_stay_sorted [OF demo_reachable] p by fastforce
qed

theorem listExpiredCbs_exact_witness:
  "fst (listExpiredCbs 110 6 demo) = [Some (Callback 1)]
   \<and> m_timers (snd (listExpiredCbs 110 6 demo)) = []"
proof -
  let ?r = "listExpiredCbs 110 6 demo"
  have r: "\<not> rollover_at 110 demo"
    by (simp add: rollover_at_def detectClockRollover_def demo_eq)
  then have due: "due 110 demo = [5]" by (simp add: due_def nxt_def demo_eq)
  have "?r = (fst ?r, snd ?r)" by simp
  from listExpiredCbs_exact [OF demo_reachable _ this]
  have "fst ?r = [Some (Callback 1)]" by (simp add: due) (simp add: demo_eq)
  moreover have "m_timers (snd ?r) = []"
    by (simp add: demo_eq listExpiredCbs_def detectClockRollover_def lower_bound_def Comparator_def
        Timer_at_def Let_def)
  ultimately show ?thesis by simp
qed

text \<open>
  \<^bold>\<open>C12\<close>. A timer that is cancelled while it is armed never fires again: in every later state,
  whatever calls are made, it is not in the set, it has no callback, and a second \<open>cancel\<close> returns
  false.
\<close>

theorem cancel_is_final:
  assumes "tm_reachable m" "tm_heap m p = Some t" "m_cb t \<noteq> None"
  shows "\<exists>m'. cancel m p = Inr (True, m') \<and>
    (\<forall>m''. tm_step\<^sup>*\<^sup>* m' m'' \<longrightarrow> p \<notin> set (m_timers m'') \<and> cancel m'' p = Inr (False, m''))"
proof -
  note inv = tm_reachable_inv [OF assms(1)]
  define m' where "m' = m\<lparr>tm_heap := (tm_heap m)(p \<mapsto> t\<lparr>m_cb := None\<rparr>), m_timers := remove1 p (m_timers m)\<rparr>"
  have c: "cancel m p = Inr (True, m')" using cancel_eq [OF inv assms(2)] assms(3) by (simp add: m'_def)
  have inv': "tm_inv m'" by (rule tm_inv_cancel [OF inv c])
  have "spent p m'" using tm_invD(4) [OF inv] by (simp add: spent_def m'_def)
  then have "spent p m''" if "tm_step\<^sup>*\<^sup>* m' m''" for m'' using spent_steps [OF that inv'] by blast
  moreover have "p \<notin> set (m_timers m'') \<and> cancel m'' p = Inr (False, m'')" if "spent p m''" for m''
    using that by (auto simp: spent_def cancel_def)
  ultimately have "p \<notin> set (m_timers m'') \<and> cancel m'' p = Inr (False, m'')"
    if "tm_step\<^sup>*\<^sup>* m' m''" for m'' using that by blast
  with c show ?thesis by blast
qed

theorem cancel_is_final_witness:
  "\<exists>m'. cancel demo 5 = Inr (True, m') \<and> (\<forall>m''. tm_step\<^sup>*\<^sup>* m' m'' \<longrightarrow> 5 \<notin> set (m_timers m''))"
proof -
  have "tm_heap demo 5 = Some \<lparr>m_isRecur = False, m_ms = 10, m_next = 110, m_cb = Some (Callback 1)\<rparr>"
    by (simp add: demo_eq)
  from cancel_is_final [OF demo_reachable this] show ?thesis by fastforce
qed

text \<open>
  \<^bold>\<open>C15\<close>. The waiting time is right: when \<open>getTimeOfNextTimer\<close> says \<open>w\<close> milliseconds at time \<open>now\<close>,
  then at a later time \<open>now'\<close> (without an intervening rollover) \<open>listExpiredCbs\<close> finds a timer if and
  only if at least \<open>w\<close> milliseconds have passed. Sleeping for \<open>w\<close> neither misses nor anticipates one.
\<close>

theorem next_timer_wait:
  assumes "tm_reachable m" "m_timers m \<noteq> []" "getTimeOfNextTimer now m = (w, m1)"
    "q \<notin> dom (tm_heap m)" "now \<le> now'" "m_previouseTime m \<le> now'"
  shows "fst (listExpiredCbs now' q m1) = [] \<longleftrightarrow> now' - now < w"
proof -
  note inv = tm_reachable_inv [OF assms(1)]
  obtain p ts where ts: "m_timers m = p # ts" using assms(2) by (cases "m_timers m") auto
  have m1: "m1 = m\<lparr>m_tickled := False\<rparr>" and w: "w = (if now \<ge> nxt m p then 0 else nxt m p - now)"
    using assms(3) by (auto simp: getTimeOfNextTimer_def ts nxt_def Let_def)
  have inv1: "tm_inv m1" using tm_inv_getTimeOfNextTimer [OF inv, of now] assms(3) by simp
  have "\<not> rollover_at now' m1" using assms(6) by (auto simp: rollover_at_def detectClockRollover_def m1)
  then have due: "due now' m1 = filter (\<lambda>r. nxt m r \<le> now') (p # ts)"
    by (simp add: due_def m1 ts nxt_def)
  have "nxt m p \<le> nxt m r" if "r \<in> set ts" for r
    using ordered_next_le [of "tm_heap m" p ts r] tm_invD(1) [OF inv] that by (simp add: ts nxt_def)
  then have first: "due now' m1 = [] \<longleftrightarrow> now' < nxt m p"
    unfolding due by (auto simp: filter_empty_conv not_le intro: order.strict_trans2)
  have q: "q \<notin> dom (tm_heap m1)" using assms(4) by (simp add: m1)
  have "fst (listExpiredCbs now' q m1) = [] \<longleftrightarrow> due now' m1 = []"
    using listExpiredCbs_spec(1) [OF inv1 q prod.collapse [symmetric], of now'] by simp
  also have "\<dots> \<longleftrightarrow> now' - now < w"
    unfolding first w using assms(5) by (auto simp: word_less_nat_alt word_le_nat_alt unat_sub)
  finally show ?thesis .
qed

theorem next_timer_wait_witness:
  "fst (listExpiredCbs 109 6 (snd (getTimeOfNextTimer 103 demo))) = []
   \<and> fst (getTimeOfNextTimer 103 demo) = 7"
proof -
  have g: "getTimeOfNextTimer 103 demo = (7, demo\<lparr>m_tickled := False\<rparr>)"
    by (simp add: getTimeOfNextTimer_def demo_eq)
  show ?thesis
    using next_timer_wait [OF demo_reachable _ g, of 6 109] g by (simp add: demo_eq)
qed

text \<open>
  A wake-up can be lost. When the first timer is added to an empty manager the waiting thread
  is tickled; if that timer is cancelled before the thread asks for its waiting time, the set is empty
  and \<open>getTimeOfNextTimer\<close> returns \<open>~0\<close> without clearing \<open>m_tickled\<close>. The next timer is then at the
  front and due first, but \<open>addTimer\<close> does not tickle for it.
\<close>

lemma tickle_lost_after_cancel:
  assumes "tm_reachable m" "m_timers m = []" "\<not> m_tickled m" "p \<notin> dom (tm_heap m)"
    "q \<notin> dom (tm_heap m)" "q \<noteq> p"
  shows "\<exists>m1 m2 m3. addTimer t1 p m ms1 (Some cb1) r1 = (True, m1) \<and> cancel m1 p = Inr (True, m2)
    \<and> getTimeOfNextTimer t2 m2 = (NOT 0, m2)
    \<and> addTimer t3 q m2 ms2 cb2 r2 = (False, m3) \<and> hd (m_timers m3) = q"
proof -
  define m1 where "m1 = snd (addTimer t1 p m ms1 (Some cb1) r1)"
  have m1: "addTimer t1 p m ms1 (Some cb1) r1 = (True, m1)" "tm_heap m1 = (tm_heap m)(p \<mapsto> Timer_new t1 ms1 (Some cb1) r1)"
    "m_timers m1 = [p]" "m_tickled m1"
    using assms(2,3) by (simp_all add: m1_def addTimer_def addTimer_locked_def set_insert_def lower_bound_def)
  have inv1: "tm_inv m1" using tm_inv_addTimer [OF tm_reachable_inv [OF assms(1)] assms(4)] by (simp add: m1_def)
  let ?m2 = "m1\<lparr>tm_heap := (tm_heap m)(p \<mapsto> (Timer_new t1 ms1 (Some cb1) r1)\<lparr>m_cb := None\<rparr>), m_timers := []\<rparr>"
  have c: "cancel m1 p = Inr (True, ?m2)"
    using cancel_eq [OF inv1, of p "Timer_new t1 ms1 (Some cb1) r1"] m1 by (simp add: Timer_new_def)
  have "getTimeOfNextTimer t2 ?m2 = (NOT 0, ?m2)" by (simp add: getTimeOfNextTimer_def)
  moreover have "\<exists>m3. addTimer t3 q ?m2 ms2 cb2 r2 = (False, m3) \<and> hd (m_timers m3) = q"
    using m1(4) by (simp add: addTimer_def addTimer_locked_def set_insert_def lower_bound_def)
  ultimately show ?thesis using m1(1) c by blast
qed

end
