(* ===== verification/IO_Manager.thy ===== *)
theory IO_Manager
  imports Scheduler Timer_Manager
begin

text \<open>
  The epoll based scheduler of windgent/iomanager.h and windgent/iomanager.cc: the table of descriptor
  contexts with the registered events, the operations that register, remove, cancel and trigger them,
  and the rounds of \<open>idle\<close>. \<open>epoll\<close> is outside: whether a call of \<open>epoll_ctl\<close> succeeds is an argument
  \<open>ok\<close>, and the field \<open>interest\<close> records what the successful calls asked for. The calls of \<open>schedule\<close> on
  the scheduler of an event are recorded in \<open>scheduled\<close>. The current scheduler and fiber of the
  calling thread are arguments. Every operation works under the lock of the context it found;
  \<open>addEvent\<close> is split at the point where it changes from the read to the write lock.
\<close>

section \<open>Events and contexts\<close>

definition NONE :: u32 where "NONE = 0"
definition READ :: u32 where "READ = 0x1"
definition WRITE :: u32 where "WRITE = 0x4"
definition EPOLLIN :: u32 where "EPOLLIN = 0x1"
definition EPOLLOUT :: u32 where "EPOLLOUT = 0x4"
definition EPOLLERR :: u32 where "EPOLLERR = 0x8"
definition EPOLLHUP :: u32 where "EPOLLHUP = 0x10"
definition EPOLLET :: u32 where "EPOLLET = 0x80000000"

lemmas event_defs = NONE_def READ_def WRITE_def EPOLLIN_def EPOLLOUT_def EPOLLERR_def EPOLLHUP_def

record event_context =
  e_scheduler :: "nat option"
  e_fiber :: "nat option"
  e_cb :: "nat option"

record fd_context =
  c_read :: event_context
  c_write :: event_context
  c_events :: u32
  c_fd :: int

definition no_event :: event_context where
  "no_event = \<lparr>e_scheduler = None, e_fiber = None, e_cb = None\<rparr>"

definition FdContext_new :: "int \<Rightarrow> fd_context" where
  "FdContext_new i = \<lparr>c_read = no_event, c_write = no_event, c_events = NONE, c_fd = i\<rparr>"

definition getContext :: "fd_context \<Rightarrow> u32 \<Rightarrow> event_context result" where
  "getContext c event =
     (if event = READ then Inr (c_read c) else if event = WRITE then Inr (c_write c) else Inl Assert_failed)"

text \<open>Assignment through the reference that \<open>getContext\<close> returns.\<close>

definition putContext :: "fd_context \<Rightarrow> u32 \<Rightarrow> event_context \<Rightarrow> fd_context" where
  "putContext c event e = (if event = READ then c\<lparr>c_read := e\<rparr> else c\<lparr>c_write := e\<rparr>)"

definition resetContext :: "event_context \<Rightarrow> event_context" where
  "resetContext e = e\<lparr>e_scheduler := None, e_fiber := None, e_cb := None\<rparr>"

text \<open>\<open>schedule(&ctx.cb)\<close> swaps the callback out of the context, \<open>schedule(&ctx.fiber)\<close> the fiber.\<close>

definition triggerEvent :: "fd_context \<Rightarrow> u32 \<Rightarrow> (fd_context \<times> nat \<times> task) result" where
  "triggerEvent c event =
     (if c_events c AND event = 0 then Inl Assert_failed
      else let c = c\<lparr>c_events := c_events c AND NOT event\<rparr> in
        rbind (getContext c event) (\<lambda>e.
          case e_scheduler e of
            None \<Rightarrow> Inl Null_deref
          | Some sch \<Rightarrow>
              if e_cb e \<noteq> None
              then Inr (putContext c event (e\<lparr>e_cb := None, e_scheduler := None\<rparr>), sch,
                \<lparr>ft_fiber = None, ft_cb = e_cb e, threadId = - 1\<rparr>)
              else Inr (putContext c event (e\<lparr>e_fiber := None, e_scheduler := None\<rparr>), sch,
                \<lparr>ft_fiber = e_fiber e, ft_cb = None, threadId = - 1\<rparr>)))"

section \<open>The manager\<close>

record iomanager =
  m_fdContexts :: "fd_context list"
  m_pendingEventCount :: int
  interest :: "int \<rightharpoonup> u32"
  scheduled :: "(nat \<times> task) list"

text \<open>\<open>contextResize\<close>: the vector gets exactly \<open>size\<close> entries, also when it had more.\<close>

definition contextResize :: "nat \<Rightarrow> fd_context list \<Rightarrow> fd_context list" where
  "contextResize n cs = take n cs @ map (\<lambda>i. FdContext_new (int i)) [length cs..<n]"

definition IOManager_new :: iomanager where
  "IOManager_new = \<lparr>m_fdContexts = contextResize 32 [], m_pendingEventCount = 0, interest = Map.empty, scheduled = []\<rparr>"

definition at_fd :: "fd_context list \<Rightarrow> int \<Rightarrow> fd_context result" where
  "at_fd cs fd = (if 0 \<le> fd \<and> fd < int (length cs) then Inr (cs ! nat fd) else Inl Out_of_bounds)"

definition put_fd :: "iomanager \<Rightarrow> int \<Rightarrow> fd_context \<Rightarrow> iomanager" where
  "put_fd m fd c = m\<lparr>m_fdContexts := (m_fdContexts m)[nat fd := c]\<rparr>"

text \<open>\<open>addEvent\<close> under the read lock: the context is found, or the vector has to grow.\<close>

definition add_lookup :: "iomanager \<Rightarrow> int \<Rightarrow> bool result" where
  "add_lookup m fd =
     (if int (length (m_fdContexts m)) > fd
      then rbind (at_fd (m_fdContexts m) fd) (\<lambda>_. Inr True) else Inr False)"

definition add_grow :: "iomanager \<Rightarrow> int \<Rightarrow> iomanager result" where
  "add_grow m fd =
     (let m = m\<lparr>m_fdContexts := contextResize (nat (fd * 3 div 2)) (m_fdContexts m)\<rparr> in
      rbind (at_fd (m_fdContexts m) fd) (\<lambda>_. Inr m))"

text \<open>
  The rest of \<open>addEvent\<close>, under the lock of the context. \<open>this_sched\<close> is \<open>Scheduler::GetThis()\<close>, \<open>fib\<close>
  and \<open>fst\<close> are \<open>Fiber::GetThis()\<close> and its state.
\<close>

definition add_register ::
  "nat option \<Rightarrow> nat \<Rightarrow> fiber_state \<Rightarrow> bool \<Rightarrow> iomanager \<Rightarrow> int \<Rightarrow> u32 \<Rightarrow> nat option \<Rightarrow> (int \<times> iomanager) result" where
  "add_register this_sched fib fst_st ok m fd event cb =
     rbind (at_fd (m_fdContexts m) fd) (\<lambda>c.
       if c_events c AND event \<noteq> 0 then Inl Assert_failed
       else if \<not> ok then Inr (- 1, m)
       else
         let m = m\<lparr>interest := (interest m)(fd \<mapsto> EPOLLET OR c_events c OR event),
                   m_pendingEventCount := m_pendingEventCount m + 1\<rparr>;
             c = c\<lparr>c_events := c_events c OR event\<rparr> in
         rbind (getContext c event) (\<lambda>e.
           if e_scheduler e \<noteq> None \<or> e_fiber e \<noteq> None \<or> e_cb e \<noteq> None then Inl Assert_failed
           else if cb \<noteq> None
           then Inr (0, put_fd m fd (putContext c event (e\<lparr>e_scheduler := this_sched, e_cb := cb\<rparr>)))
           else if fst_st \<noteq> EXEC then Inl Assert_failed
           else Inr (0, put_fd m fd (putContext c event (e\<lparr>e_scheduler := this_sched, e_fiber := Some fib\<rparr>)))))"

definition addEvent ::
  "nat option \<Rightarrow> nat \<Rightarrow> fiber_state \<Rightarrow> bool \<Rightarrow> iomanager \<Rightarrow> int \<Rightarrow> u32 \<Rightarrow> nat option \<Rightarrow> (int \<times> iomanager) result" where
  "addEvent this_sched fib fst_st ok m fd event cb =
     rbind (add_lookup m fd) (\<lambda>found.
       rbind (if found then Inr m else add_grow m fd) (\<lambda>m.
         add_register this_sched fib fst_st ok m fd event cb))"

text \<open>The \<open>epoll_ctl\<close> request for what is left on a descriptor: modify, or delete.\<close>

definition epoll_left :: "iomanager \<Rightarrow> int \<Rightarrow> u32 \<Rightarrow> iomanager" where
  "epoll_left m fd left =
     m\<lparr>interest := (interest m)(fd := (if left \<noteq> 0 then Some (EPOLLET OR left) else None))\<rparr>"

definition delEvent :: "bool \<Rightarrow> iomanager \<Rightarrow> int \<Rightarrow> u32 \<Rightarrow> (bool \<times> iomanager) result" where
  "delEvent ok m fd event =
     (if int (length (m_fdContexts m)) \<le> fd then Inr (False, m)
      else rbind (at_fd (m_fdContexts m) fd) (\<lambda>c.
        if c_events c AND event = 0 then Inr (False, m)
        else
          let new_event = c_events c AND NOT event in
          if \<not> ok then Inr (False, m)
          else
            let m = (epoll_left m fd new_event)\<lparr>m_pendingEventCount := m_pendingEventCount m - 1\<rparr>;
                c = c\<lparr>c_events := new_event\<rparr> in
            rbind (getContext c event) (\<lambda>e.
              Inr (True, put_fd m fd (putContext c event (resetContext e))))))"

definition cancelEvent :: "bool \<Rightarrow> iomanager \<Rightarrow> int \<Rightarrow> u32 \<Rightarrow> (bool \<times> iomanager) result" where
  "cancelEvent ok m fd event =
     (if int (length (m_fdContexts m)) \<le> fd then Inr (False, m)
      else rbind (at_fd (m_fdContexts m) fd) (\<lambda>c.
        if c_events c AND event = 0 then Inr (False, m)
        else
          let new_event = c_events c AND NOT event in
          if \<not> ok then Inr (False, m)
          else
            rbind (triggerEvent c event) (\<lambda>(c, t).
              Inr (True, (put_fd (epoll_left m fd new_event) fd c)
                \<lparr>m_pendingEventCount := m_pendingEventCount m - 1, scheduled := scheduled m @ [t]\<rparr>))))"

text \<open>
  The two steps \<open>if(mask & READ) triggerEvent(READ)\<close> and \<open>if(mask & WRITE) triggerEvent(WRITE)\<close>, each with
  its decrement, for the mask \<open>sel\<close> of the context; \<open>cancelAll\<close> and \<open>idle\<close> share them.
\<close>

definition trigger_one :: "(fd_context \<Rightarrow> u32) \<Rightarrow> u32 \<Rightarrow> iomanager \<Rightarrow> int \<Rightarrow> iomanager result" where
  "trigger_one sel event m fd =
     rbind (at_fd (m_fdContexts m) fd) (\<lambda>c.
       if sel c AND event = 0 then Inr m
       else rbind (triggerEvent c event) (\<lambda>(c, t).
         Inr ((put_fd m fd c)\<lparr>m_pendingEventCount := m_pendingEventCount m - 1, scheduled := scheduled m @ [t]\<rparr>)))"

definition cancelAll :: "bool \<Rightarrow> iomanager \<Rightarrow> int \<Rightarrow> (bool \<times> iomanager) result" where
  "cancelAll ok m fd =
     (if int (length (m_fdContexts m)) \<le> fd then Inr (False, m)
      else rbind (at_fd (m_fdContexts m) fd) (\<lambda>c.
        if c_events c = 0 then Inr (False, m)
        else if \<not> ok then Inr (False, m)
        else
          rbind (trigger_one c_events READ (epoll_left m fd 0) fd) (\<lambda>m.
            rbind (trigger_one c_events WRITE m fd) (\<lambda>m. Inr (True, m)))))"

section \<open>Idle\<close>

text \<open>The events \<open>epoll_wait\<close> reported for a descriptor, as \<open>idle\<close> reads them.\<close>

definition real_events :: "u32 \<Rightarrow> u32" where
  "real_events evs =
     (let evs = (if evs AND (EPOLLERR OR EPOLLHUP) \<noteq> 0 then evs OR EPOLLIN OR EPOLLOUT else evs) in
      (if evs AND EPOLLIN \<noteq> 0 then READ else NONE) OR (if evs AND EPOLLOUT \<noteq> 0 then WRITE else NONE))"

definition idle_event :: "bool \<Rightarrow> iomanager \<Rightarrow> int \<Rightarrow> u32 \<Rightarrow> iomanager result" where
  "idle_event ok m fd evs =
     rbind (at_fd (m_fdContexts m) fd) (\<lambda>c.
       let real_event = real_events evs in
       if c_events c AND real_event = NONE then Inr m
       else
         let left_events = c_events c AND NOT real_event in
         if \<not> ok then Inr m
         else
           rbind (trigger_one (\<lambda>_. real_event) READ (epoll_left m fd left_events) fd) (\<lambda>m.
             trigger_one (\<lambda>_. real_event) WRITE m fd))"

text \<open>
  The entries of one \<open>epoll_wait\<close>; \<open>None\<close> is the wake-up pipe, which is drained. The second component
  of an entry says whether its \<open>epoll_ctl\<close> succeeds.
\<close>

fun idle_events :: "iomanager \<Rightarrow> ((int \<times> u32) option \<times> bool) list \<Rightarrow> iomanager result" where
  "idle_events m [] = Inr m"
| "idle_events m ((None, ok) # evs) = idle_events m evs"
| "idle_events m ((Some (fd, ev), ok) # evs) = rbind (idle_event ok m fd ev) (\<lambda>m. idle_events m evs)"

text \<open>
  The timeout of \<open>epoll_wait\<close>: the cast to \<open>int\<close> keeps the low 32 bits, in the comparison and in the
  argument.
\<close>

definition MAX_TIMEOUT :: i32 where "MAX_TIMEOUT = 3000"

definition idle_timeout :: "u64 \<Rightarrow> i32" where
  "idle_timeout next_timeout =
     ucast (if next_timeout \<noteq> NOT 0
            then if sint (ucast next_timeout :: i32) > sint MAX_TIMEOUT then 3000 else next_timeout
            else (3000 :: u64))"

definition IOManager_stopping :: "u64 \<Rightarrow> timer_manager \<Rightarrow> iomanager \<Rightarrow> scheduler \<Rightarrow> bool \<times> u64 \<times> timer_manager" where
  "IOManager_stopping now tm m s =
     (let (timeout, tm) = getTimeOfNextTimer now tm in
      (timeout = NOT 0 \<and> m_pendingEventCount m = 0 \<and> Scheduler_stopping s, timeout, tm))"

text \<open>\<open>tickle\<close>: whether a byte is written to the pipe. \<open>onTimerInsertedAtFront\<close> calls it.\<close>

definition IOManager_tickle :: "scheduler \<Rightarrow> bool" where
  "IOManager_tickle s \<longleftrightarrow> hasIdleThreads s"

definition onTimerInsertedAtFront :: "scheduler \<Rightarrow> bool" where
  "onTimerInsertedAtFront s = IOManager_tickle s"

text \<open>
  One round of the loop of \<open>idle\<close>: \<open>None\<close> when it ends, otherwise the timeout it waits for and the state
  after the expired timers and the reported events have been handled. \<open>now1\<close> and \<open>now2\<close> are the times
  before and after the wait, \<open>q\<close> the address of the search key of \<open>listExpiredCbs\<close>, \<open>name\<close> the numbers
  of the callbacks.
\<close>

definition idle_round ::
  "(callback \<Rightarrow> nat) \<Rightarrow> u64 \<Rightarrow> u64 \<Rightarrow> nat \<Rightarrow> ((int \<times> u32) option \<times> bool) list \<Rightarrow>
   timer_manager \<times> iomanager \<times> scheduler \<Rightarrow> (i32 \<times> timer_manager \<times> iomanager \<times> scheduler) option result" where
  "idle_round name now1 now2 q evs = (\<lambda>(tm, m, s).
     let (stop, next_timeout, tm) = IOManager_stopping now1 tm m s in
     if stop then Inr None
     else
       let wait = idle_timeout next_timeout;
           (cbs, tm) = listExpiredCbs now2 q tm;
           s = (if cbs \<noteq> [] then snd (schedule_all s (map (map_option name) cbs)) else s) in
       rbind (idle_events m evs) (\<lambda>m. Inr (Some (wait, tm, m, s))))"

text \<open>
  The destructor: \<open>stop\<close>, then the contexts are deleted and the destructor of the scheduler runs. \<open>after\<close> is what
  the threads, or the root fiber, do to the scheduler until \<open>stop\<close> has joined them.
\<close>

definition IOManager_destroy ::
  "(scheduler \<Rightarrow> bool) \<Rightarrow> bool \<Rightarrow> (stop_action \<Rightarrow> scheduler \<Rightarrow> scheduler) \<Rightarrow> iomanager \<times> scheduler \<Rightarrow> (bool \<times> iomanager) result" where
  "IOManager_destroy stop_f is_this after = (\<lambda>(m, s).
     rbind (Scheduler_stop stop_f is_this s) (\<lambda>(n, act, s).
     rbind (Scheduler_destroy is_this (after act s)) (\<lambda>reset. Inr (reset, m\<lparr>m_fdContexts := []\<rparr>))))"

text \<open>Nothing but \<open>start\<close> resets \<open>m_stopping\<close>, so the assertion in the destructor of the scheduler holds.\<close>

lemma destroy_asserts:
  assumes "\<And>act s. m_stopping s \<Longrightarrow> m_stopping (after act s)" "Scheduler_stop stop_f is_this s = Inr r"
  shows "IOManager_destroy stop_f is_this after (m, s) = Inr (is_this, m\<lparr>m_fdContexts := []\<rparr>)"
  using assms stop_stops [of stop_f is_this s "fst r" "fst (snd r)" "snd (snd r)"]
  by (auto simp: IOManager_destroy_def Scheduler_destroy_def split: prod.splits)

section \<open>The invariant\<close>

definition is_event :: "u32 \<Rightarrow> bool" where
  "is_event ev \<longleftrightarrow> ev = READ \<or> ev = WRITE"

text \<open>A registered event has a scheduler and either a callback or a fiber; any other is empty.\<close>

definition ev_ok :: "bool \<Rightarrow> event_context \<Rightarrow> bool" where
  "ev_ok reg e \<longleftrightarrow> (if reg then e_scheduler e \<noteq> None \<and> (e_cb e \<noteq> None) \<noteq> (e_fiber e \<noteq> None) else e = no_event)"

definition ctx_ok :: "int \<Rightarrow> fd_context \<Rightarrow> bool" where
  "ctx_ok fd c \<longleftrightarrow> c_fd c = fd \<and> c_events c \<in> {0, 1, 4, 5}
     \<and> ev_ok (c_events c AND READ \<noteq> 0) (c_read c) \<and> ev_ok (c_events c AND WRITE \<noteq> 0) (c_write c)"

definition nevents :: "fd_context \<Rightarrow> int" where
  "nevents c = (if c_events c AND READ \<noteq> 0 then 1 else 0) + (if c_events c AND WRITE \<noteq> 0 then 1 else 0)"

definition core_inv :: "iomanager \<Rightarrow> bool" where
  "core_inv m \<longleftrightarrow> 32 \<le> length (m_fdContexts m)
     \<and> (\<forall>i < length (m_fdContexts m). ctx_ok (int i) (m_fdContexts m ! i))
     \<and> m_pendingEventCount m = sum_list (map nevents (m_fdContexts m))"

text \<open>The events of a descriptor, none beyond the table; and what \<open>epoll\<close> was asked for.\<close>

definition events_of :: "iomanager \<Rightarrow> int \<Rightarrow> u32" where
  "events_of m fd = (if 0 \<le> fd \<and> fd < int (length (m_fdContexts m)) then c_events (m_fdContexts m ! nat fd) else 0)"

definition synced :: "iomanager \<Rightarrow> bool" where
  "synced m \<longleftrightarrow> (\<forall>fd. interest m fd = (if events_of m fd = 0 then None else Some (EPOLLET OR events_of m fd)))"

text \<open>What is registered: the scheduler and the task for a descriptor and an event.\<close>

definition ctx_task :: "event_context \<Rightarrow> nat \<times> task" where
  "ctx_task e = (the (e_scheduler e), \<lparr>ft_fiber = (if e_cb e \<noteq> None then None else e_fiber e), ft_cb = e_cb e, threadId = - 1\<rparr>)"

definition ctx_reg :: "fd_context \<Rightarrow> u32 \<Rightarrow> (nat \<times> task) option" where
  "ctx_reg c ev = (if c_events c AND ev = 0 then None else Some (ctx_task (if ev = READ then c_read c else c_write c)))"

definition registered :: "iomanager \<Rightarrow> int \<Rightarrow> u32 \<Rightarrow> (nat \<times> task) option" where
  "registered m fd ev =
     (if 0 \<le> fd \<and> fd < int (length (m_fdContexts m)) then ctx_reg (m_fdContexts m ! nat fd) ev else None)"

lemma bits_cases:
  "c_events c \<in> {0, 1, 4, 5} \<Longrightarrow> (c_events c = 0 \<Longrightarrow> P) \<Longrightarrow> (c_events c = 1 \<Longrightarrow> P) \<Longrightarrow>
   (c_events c = 4 \<Longrightarrow> P) \<Longrightarrow> (c_events c = 5 \<Longrightarrow> P) \<Longrightarrow> P"
  by blast

lemma trigger_ctx:
  assumes "ctx_ok fd c" "is_event ev" "c_events c AND ev \<noteq> 0"
  obtains c' where "triggerEvent c ev = Inr (c', the (ctx_reg c ev))" "ctx_ok fd c'"
    "c_events c' = c_events c AND NOT ev" "nevents c' = nevents c - 1"
    "\<And>ev'. is_event ev' \<Longrightarrow> ctx_reg c' ev' = (if ev' = ev then None else ctx_reg c ev')"
    "c' = putContext (c\<lparr>c_events := c_events c AND NOT ev\<rparr>) ev no_event"
proof -
  have bits: "c_events c \<in> {0, 1, 4, 5}" using assms(1) by (simp add: ctx_ok_def)
  define e where "e = (if ev = READ then c_read c else c_write c)"
  have eok: "ev_ok True e" using assms by (auto simp: ctx_ok_def is_event_def e_def)
  define c' where "c' = putContext (c\<lparr>c_events := c_events c AND NOT ev\<rparr>) ev no_event"
  have "triggerEvent c ev = Inr (c', the (ctx_reg c ev))"
    using assms(2,3) eok
    by (auto simp: triggerEvent_def getContext_def is_event_def ev_ok_def ctx_reg_def ctx_task_def c'_def e_def
        putContext_def no_event_def split: option.splits)
  moreover have "ctx_ok fd c'" "c_events c' = c_events c AND NOT ev" "nevents c' = nevents c - 1"
    using bits assms
    by (elim bits_cases; auto simp: c'_def putContext_def ctx_ok_def ev_ok_def is_event_def READ_def WRITE_def nevents_def)+
  moreover have "ctx_reg c' ev' = (if ev' = ev then None else ctx_reg c ev')" if "is_event ev'" for ev'
    using bits assms(2,3) that
    by (elim bits_cases; auto simp: c'_def putContext_def ctx_reg_def is_event_def READ_def WRITE_def)
  ultimately show ?thesis using that c'_def by blast
qed

lemma at_fd_ok [simp]: "0 \<le> fd \<Longrightarrow> fd < int (length cs) \<Longrightarrow> at_fd cs fd = Inr (cs ! nat fd)"
  by (simp add: at_fd_def)

lemma core_inv_ctx: "core_inv m \<Longrightarrow> 0 \<le> fd \<Longrightarrow> fd < int (length (m_fdContexts m)) \<Longrightarrow> ctx_ok fd (m_fdContexts m ! nat fd)"
proof -
  assume a: "core_inv m" "0 \<le> fd" "fd < int (length (m_fdContexts m))"
  then have "nat fd < length (m_fdContexts m)" by auto
  then have "ctx_ok (int (nat fd)) (m_fdContexts m ! nat fd)" using a(1) unfolding core_inv_def by blast
  then show ?thesis using a(2) by simp
qed

text \<open>Replacing one context.\<close>

lemma core_inv_put:
  assumes "core_inv m" "0 \<le> fd" "fd < int (length (m_fdContexts m))" "ctx_ok fd c"
    "m_fdContexts m' = (m_fdContexts m)[nat fd := c]"
    "m_pendingEventCount m' = m_pendingEventCount m + nevents c - nevents (m_fdContexts m ! nat fd)"
  shows "core_inv m'"
proof -
  have lt: "nat fd < length (m_fdContexts m)" using assms(2,3) by auto
  have "sum_list (map nevents ((m_fdContexts m)[nat fd := c]))
    = sum_list (map nevents (m_fdContexts m)) + nevents c - nevents (m_fdContexts m ! nat fd)"
    using lt by (simp add: map_update sum_list_int_update)
  moreover have "ctx_ok (int i) ((m_fdContexts m)[nat fd := c] ! i)" if "i < length (m_fdContexts m)" for i
    using that assms(1,2,4) lt by (auto simp: core_inv_def nth_list_update)
  ultimately show ?thesis using assms by (simp add: core_inv_def)
qed

lemma events_of_put:
  assumes "0 \<le> fd" "fd < int (length (m_fdContexts m))" "m_fdContexts m' = (m_fdContexts m)[nat fd := c]"
  shows "events_of m' = (events_of m)(fd := c_events c)"
  using assms by (auto simp: events_of_def fun_eq_iff nth_list_update nat_eq_iff2)

lemma registered_put:
  assumes "0 \<le> fd" "fd < int (length (m_fdContexts m))" "m_fdContexts m' = (m_fdContexts m)[nat fd := c]"
  shows "registered m' = (registered m)(fd := ctx_reg c)"
  using assms by (auto simp: registered_def fun_eq_iff nth_list_update nat_eq_iff2)

text \<open>One trigger: nothing when the event is not selected, otherwise the event has to be registered.\<close>

lemma trigger_one_spec:
  assumes "core_inv m" "0 \<le> fd" "fd < int (length (m_fdContexts m))" "is_event ev"
    "sel (m_fdContexts m ! nat fd) AND ev \<noteq> 0"
  shows "if events_of m fd AND ev = 0 then trigger_one sel ev m fd = Inl Assert_failed
    else \<exists>m'. trigger_one sel ev m fd = Inr m' \<and> core_inv m' \<and> interest m' = interest m
      \<and> scheduled m' = scheduled m @ [the (registered m fd ev)]
      \<and> length (m_fdContexts m') = length (m_fdContexts m)
      \<and> events_of m' = (events_of m)(fd := events_of m fd AND NOT ev)
      \<and> (\<forall>fd' ev'. is_event ev' \<longrightarrow>
           registered m' fd' ev' = (if fd' = fd \<and> ev' = ev then None else registered m fd' ev'))"
proof -
  let ?c = "m_fdContexts m ! nat fd"
  have ev: "events_of m fd = c_events ?c" "registered m fd = ctx_reg ?c"
    using assms(2,3) by (auto simp: events_of_def registered_def)
  show ?thesis
  proof (cases "c_events ?c AND ev = 0")
    case True
    then show ?thesis using assms by (simp add: ev trigger_one_def triggerEvent_def)
  next
    case False
    obtain c' where c': "triggerEvent ?c ev = Inr (c', the (ctx_reg ?c ev))" "ctx_ok fd c'"
      "c_events c' = c_events ?c AND NOT ev" "nevents c' = nevents ?c - 1"
      "\<And>ev'. is_event ev' \<Longrightarrow> ctx_reg c' ev' = (if ev' = ev then None else ctx_reg ?c ev')"
      using trigger_ctx [OF core_inv_ctx [OF assms(1-3)] assms(4) False] by metis
    let ?m = "(put_fd m fd c')\<lparr>m_pendingEventCount := m_pendingEventCount m - 1,
      scheduled := scheduled m @ [the (ctx_reg ?c ev)]\<rparr>"
    have "trigger_one sel ev m fd = Inr ?m" using assms c'(1) by (simp add: trigger_one_def)
    moreover have "core_inv ?m"
      by (rule core_inv_put [OF assms(1-3) c'(2)]) (simp_all add: put_fd_def c'(4))
    moreover have "events_of ?m = (events_of m)(fd := c_events ?c AND NOT ev)"
      using events_of_put [OF assms(2,3), of ?m c'] c'(3) by (simp add: put_fd_def)
    moreover have "registered ?m = (registered m)(fd := ctx_reg c')"
      by (rule registered_put [OF assms(2,3)]) (simp add: put_fd_def)
    ultimately show ?thesis using False c'(5) by (auto simp: ev put_fd_def)
  qed
qed

lemma trigger_one_skip:
  "0 \<le> fd \<Longrightarrow> fd < int (length (m_fdContexts m)) \<Longrightarrow> sel (m_fdContexts m ! nat fd) AND ev = 0 \<Longrightarrow>
   trigger_one sel ev m fd = Inr m"
  by (simp add: trigger_one_def)

lemma epoll_left_simps [simp]:
  "m_fdContexts (epoll_left m fd e) = m_fdContexts m" "m_pendingEventCount (epoll_left m fd e) = m_pendingEventCount m"
  "scheduled (epoll_left m fd e) = scheduled m" "events_of (epoll_left m fd e) = events_of m"
  "registered (epoll_left m fd e) = registered m" "core_inv (epoll_left m fd e) = core_inv m"
  "interest (epoll_left m fd e) = (interest m)(fd := (if e \<noteq> 0 then Some (EPOLLET OR e) else None))"
  by (auto simp: epoll_left_def core_inv_def events_of_def registered_def fun_eq_iff)

lemma synced_left:
  "synced m \<Longrightarrow> events_of m' = (events_of m)(fd := e) \<Longrightarrow>
   interest m' = (interest m)(fd := (if e \<noteq> 0 then Some (EPOLLET OR e) else None)) \<Longrightarrow> synced m'"
  by (simp add: synced_def)

definition iom_inv :: "iomanager \<Rightarrow> bool" where
  "iom_inv m \<longleftrightarrow> core_inv m \<and> synced m"

lemma iom_inv_new: "iom_inv IOManager_new"
proof -
  have "map nevents (map (\<lambda>i. FdContext_new (int i)) [0..<32]) = replicate 32 0"
    by (rule nth_equalityI) (simp_all add: nevents_def FdContext_new_def NONE_def)
  then show ?thesis
    by (auto simp: iom_inv_def core_inv_def synced_def IOManager_new_def contextResize_def events_of_def
        FdContext_new_def ctx_ok_def ev_ok_def NONE_def sum_list_replicate)
qed

section \<open>The operations\<close>

lemma contextResize_grow:
  assumes "core_inv m" "length (m_fdContexts m) \<le> n"
  defines "m' \<equiv> m\<lparr>m_fdContexts := contextResize n (m_fdContexts m)\<rparr>"
  shows "core_inv m'" "events_of m' = events_of m"
    "\<And>fd ev. registered m' fd ev = registered m fd ev" "length (m_fdContexts m') = n"
proof -
  let ?cs = "m_fdContexts m"
  have nth: "contextResize n ?cs ! i = (if i < length ?cs then ?cs ! i else FdContext_new (int i))" if "i < n" for i
    using that assms(2) by (simp add: contextResize_def nth_append)
  have len: "length (contextResize n ?cs) = n" using assms(2) by (simp add: contextResize_def)
  have zero: "nevents (FdContext_new i) = 0" "ctx_ok i (FdContext_new i)" "c_events (FdContext_new i) = 0"
    "ctx_reg (FdContext_new i) ev = None" for i ev
    by (simp_all add: nevents_def FdContext_new_def NONE_def ctx_ok_def ev_ok_def ctx_reg_def)
  have "sum_list (map nevents (contextResize n ?cs)) = sum_list (map nevents ?cs)"
    using assms(2) by (simp add: contextResize_def zero o_def)
  then show "core_inv m'"
    using assms(1,2) nth len zero by (auto simp: core_inv_def m'_def)
  show "length (m_fdContexts m') = n" using len by (simp add: m'_def)
  show "events_of m' = events_of m" "\<And>fd ev. registered m' fd ev = registered m fd ev"
    using assms(2) nth len zero by (auto simp: events_of_def registered_def m'_def fun_eq_iff)
qed

lemma add_grow_spec:
  assumes "core_inv m" "int (length (m_fdContexts m)) \<le> fd"
  obtains m' where "add_grow m fd = Inr m'" "core_inv m'" "events_of m' = events_of m"
    "\<And>fd ev. registered m' fd ev = registered m fd ev"
    "fd < int (length (m_fdContexts m'))" "interest m' = interest m" "scheduled m' = scheduled m"
proof -
  let ?n = "nat (fd * 3 div 2)"
  have len: "32 \<le> length (m_fdContexts m)" using assms(1) by (simp add: core_inv_def)
  then have n: "length (m_fdContexts m) \<le> ?n" "fd < int ?n" "0 \<le> fd" using assms(2) by auto
  note g = contextResize_grow [OF assms(1) n(1)]
  show ?thesis
    using g n by (intro that [of "m\<lparr>m_fdContexts := contextResize ?n (m_fdContexts m)\<rparr>"])
      (simp_all add: add_grow_def)
qed

lemma register_ctx:
  assumes "ctx_ok fd c" "is_event ev" "c_events c AND ev = 0" "ev_ok True e"
  defines "c' \<equiv> putContext (c\<lparr>c_events := c_events c OR ev\<rparr>) ev e"
  shows "ctx_ok fd c'" "c_events c' = c_events c OR ev" "nevents c' = nevents c + 1"
    "\<And>ev'. is_event ev' \<Longrightarrow> ctx_reg c' ev' = (if ev' = ev then Some (ctx_task e) else ctx_reg c ev')"
    "(if ev = READ then c_read c else c_write c) = no_event"
proof -
  have bits: "c_events c \<in> {0, 1, 4, 5}" using assms(1) by (simp add: ctx_ok_def)
  show "ctx_ok fd c'" "c_events c' = c_events c OR ev" "nevents c' = nevents c + 1"
    "(if ev = READ then c_read c else c_write c) = no_event"
    using bits assms
    by (elim bits_cases; auto simp: c'_def putContext_def ctx_ok_def ev_ok_def is_event_def READ_def WRITE_def nevents_def)+
  show "ctx_reg c' ev' = (if ev' = ev then Some (ctx_task e) else ctx_reg c ev')" if "is_event ev'" for ev'
    using bits assms that
    by (elim bits_cases; auto simp: c'_def putContext_def ctx_reg_def is_event_def READ_def WRITE_def)
qed

text \<open>
  What \<open>addEvent\<close> registers: the callback, or else the current fiber.
\<close>

definition new_task :: "nat \<Rightarrow> nat option \<Rightarrow> task" where
  "new_task fib cb = \<lparr>ft_fiber = (if cb \<noteq> None then None else Some fib), ft_cb = cb, threadId = - 1\<rparr>"

lemma add_register_spec:
  assumes "core_inv m" "synced m" "0 \<le> fd" "fd < int (length (m_fdContexts m))" "is_event ev"
    "events_of m fd AND ev = 0" "cb \<noteq> None \<or> fs = EXEC"
  obtains m' where "add_register (Some sch) fib fs True m fd ev cb = Inr (0, m')" "iom_inv m'"
    "\<And>fd' ev'. is_event ev' \<Longrightarrow> registered m' fd' ev'
       = (if fd' = fd \<and> ev' = ev then Some (sch, new_task fib cb) else registered m fd' ev')"
    "scheduled m' = scheduled m"
proof -
  let ?c = "m_fdContexts m ! nat fd"
  define e where "e = \<lparr>e_scheduler = Some sch, e_fiber = (if cb \<noteq> None then None else Some fib), e_cb = cb\<rparr>"
  let ?c' = "putContext (?c\<lparr>c_events := c_events ?c OR ev\<rparr>) ev e"
  have ev: "events_of m fd = c_events ?c" using assms(3,4) by (simp add: events_of_def)
  have task: "ctx_task e = (sch, new_task fib cb)" by (simp add: e_def ctx_task_def new_task_def)
  have reg: "registered m fd = ctx_reg ?c" using assms(3,4) by (simp add: registered_def fun_eq_iff)
  have e: "ev_ok True e" by (simp add: ev_ok_def e_def)
  note r = register_ctx [OF core_inv_ctx [OF assms(1,3,4)] assms(5) assms(6) [unfolded ev] e]
  let ?m = "m\<lparr>interest := (interest m)(fd \<mapsto> EPOLLET OR c_events ?c OR ev), m_pendingEventCount := m_pendingEventCount m + 1,
     m_fdContexts := (m_fdContexts m)[nat fd := ?c']\<rparr>"
  have get: "getContext (?c\<lparr>c_events := c_events ?c OR ev\<rparr>) ev = Inr no_event"
    using r(5) assms(5) by (auto simp: getContext_def is_event_def READ_def WRITE_def split: if_splits)
  have "add_register (Some sch) fib fs True m fd ev cb = Inr (0, ?m)"
    using assms(3,4,6,7) get
    by (cases "cb = None") (simp_all add: add_register_def ev no_event_def put_fd_def e_def)
  moreover have "core_inv ?m"
    by (rule core_inv_put [OF assms(1,3,4) r(1)]) (simp_all add: r(3))
  moreover have "synced ?m"
  proof -
    have "c_events ?c OR ev \<noteq> 0" using assms(5) by (auto simp: is_event_def READ_def WRITE_def or_eq_0_iff)
    moreover have "events_of ?m = (events_of m)(fd := c_events ?c OR ev)"
      using events_of_put [OF assms(3,4), of ?m ?c'] r(2) by simp
    ultimately show ?thesis using assms(2) by (intro synced_left [of m ?m fd "c_events ?c OR ev"]) simp_all
  qed
  moreover have "registered ?m = (registered m)(fd := ctx_reg ?c')"
    by (rule registered_put [OF assms(3,4)]) simp
  then have "registered ?m fd' ev' = (if fd' = fd \<and> ev' = ev then Some (sch, new_task fib cb) else registered m fd' ev')"
    if "is_event ev'" for fd' ev'
    using r(4) [OF that] task reg by auto
  ultimately show ?thesis by (intro that [of ?m]) (simp_all add: iom_inv_def)
qed

lemma registered_None: "registered m fd ev = None \<longleftrightarrow> events_of m fd AND ev = 0"
  by (auto simp: registered_def events_of_def ctx_reg_def)

lemma in_table: "events_of m fd \<noteq> 0 \<Longrightarrow> 0 \<le> fd \<and> fd < int (length (m_fdContexts m))"
  by (auto simp: events_of_def split: if_splits)

lemma events_bits: "core_inv m \<Longrightarrow> events_of m fd \<in> {0, 1, 4, 5}"
  using core_inv_ctx [of m fd] by (auto simp: events_of_def ctx_ok_def)

lemma addEvent_spec:
  assumes "iom_inv m" "0 \<le> fd" "is_event ev" "cb \<noteq> None \<or> fs = EXEC"
  shows "if events_of m fd AND ev \<noteq> 0 then addEvent (Some sch) fib fs ok m fd ev cb = Inl Assert_failed
    else \<exists>m'. addEvent (Some sch) fib fs ok m fd ev cb = Inr (if ok then 0 else - 1, m') \<and> iom_inv m'
      \<and> scheduled m' = scheduled m
      \<and> (\<forall>fd' ev'. is_event ev' \<longrightarrow> registered m' fd' ev'
           = (if ok \<and> fd' = fd \<and> ev' = ev then Some (sch, new_task fib cb) else registered m fd' ev'))"
proof -
  have core: "core_inv m" "synced m" using assms(1) by (auto simp: iom_inv_def)
  have "\<exists>m1. rbind (add_lookup m fd) (\<lambda>found. if found then Inr m else add_grow m fd) = Inr m1
      \<and> core_inv m1 \<and> synced m1 \<and> events_of m1 = events_of m \<and> (\<forall>fd ev. registered m1 fd ev = registered m fd ev)
      \<and> fd < int (length (m_fdContexts m1)) \<and> scheduled m1 = scheduled m"
  proof (cases "int (length (m_fdContexts m)) > fd")
    case True
    with core assms(2) show ?thesis by (simp add: add_lookup_def)
  next
    case False
    then obtain m1 where "add_grow m fd = Inr m1" "core_inv m1" "events_of m1 = events_of m"
      "\<And>fd ev. registered m1 fd ev = registered m fd ev" "fd < int (length (m_fdContexts m1))"
      "interest m1 = interest m" "scheduled m1 = scheduled m"
      using add_grow_spec [OF core(1)] by (metis not_less)
    with False core(2) show ?thesis by (simp add: add_lookup_def synced_def)
  qed
  then obtain m1 where m1: "addEvent (Some sch) fib fs ok m fd ev cb = add_register (Some sch) fib fs ok m1 fd ev cb"
      "core_inv m1" "synced m1" "events_of m1 = events_of m" "\<And>fd ev. registered m1 fd ev = registered m fd ev"
      "fd < int (length (m_fdContexts m1))" "scheduled m1 = scheduled m"
    by (auto simp: addEvent_def returns split: if_splits)
  have ev: "events_of m fd = c_events (m_fdContexts m1 ! nat fd)"
    using assms(2) m1(4,6) by (auto simp: events_of_def fun_eq_iff split: if_splits)
  show ?thesis
  proof (cases "events_of m fd AND ev = 0 \<and> ok")
    case True
    then obtain m' where "add_register (Some sch) fib fs True m1 fd ev cb = Inr (0, m')" "iom_inv m'"
      "\<And>fd' ev'. is_event ev' \<Longrightarrow> registered m' fd' ev'
         = (if fd' = fd \<and> ev' = ev then Some (sch, new_task fib cb) else registered m1 fd' ev')"
      "scheduled m' = scheduled m1"
      using add_register_spec [OF m1(2,3) assms(2) m1(6) assms(3) _ assms(4)] m1(4) by metis
    with True m1 show ?thesis by auto
  next
    case False
    then show ?thesis using m1 assms(2) ev by (auto simp: add_register_def iom_inv_def)
  qed
qed

lemma getContext_event: "is_event ev \<Longrightarrow> \<exists>e. getContext c ev = Inr e"
  unfolding getContext_def is_event_def by (elim disjE) simp_all

lemma resetContext_eq [simp]: "resetContext e = no_event"
  by (cases e) (simp add: resetContext_def no_event_def)

lemma delEvent_spec:
  fixes ok :: bool
  assumes "iom_inv m" "0 \<le> fd" "is_event ev"
  defines "hit \<equiv> ok \<and> events_of m fd AND ev \<noteq> 0"
  shows "\<exists>m'. delEvent ok m fd ev = Inr (hit, m') \<and> iom_inv m' \<and> scheduled m' = scheduled m
      \<and> (\<forall>fd' ev'. is_event ev' \<longrightarrow> registered m' fd' ev' = (if hit \<and> fd' = fd \<and> ev' = ev then None else registered m fd' ev'))"
proof (cases "hit")
  case False
  then show ?thesis using assms by (auto simp: delEvent_def events_of_def)
next
  case True
  then have core: "core_inv m" "synced m" and h: "ok" "events_of m fd AND ev \<noteq> 0"
    using assms by (auto simp: iom_inv_def)
  then have "events_of m fd \<noteq> 0" by (intro notI) simp
  then have fd: "0 \<le> fd" "fd < int (length (m_fdContexts m))" using in_table by blast+
  let ?c = "m_fdContexts m ! nat fd"
  have ev: "events_of m fd = c_events ?c" using fd by (simp add: events_of_def)
  have reg: "registered m fd = ctx_reg ?c" using fd by (simp add: registered_def fun_eq_iff)
  obtain c' where c': "triggerEvent ?c ev = Inr (c', the (ctx_reg ?c ev))" "ctx_ok fd c'"
      "c_events c' = c_events ?c AND NOT ev" "nevents c' = nevents ?c - 1"
      "\<And>ev'. is_event ev' \<Longrightarrow> ctx_reg c' ev' = (if ev' = ev then None else ctx_reg ?c ev')"
      "c' = putContext (?c\<lparr>c_events := c_events ?c AND NOT ev\<rparr>) ev no_event"
    using trigger_ctx [OF core_inv_ctx [OF core(1) fd] assms(3)] h(2) ev by metis
  let ?m = "(epoll_left m fd (c_events ?c AND NOT ev))\<lparr>m_pendingEventCount := m_pendingEventCount m - 1,
     m_fdContexts := (m_fdContexts m)[nat fd := c']\<rparr>"
  obtain e where get: "getContext (?c\<lparr>c_events := c_events ?c AND NOT ev\<rparr>) ev = Inr e"
    using getContext_event [OF assms(3)] by blast
  have "delEvent ok m fd ev = Inr (True, ?m)"
    using fd h by (simp add: delEvent_def ev [symmetric] get [unfolded ev [symmetric]])
      (simp add: c'(6) ev put_fd_def epoll_left_def Let_def)
  moreover have "core_inv ?m"
    by (rule core_inv_put [OF core(1) fd c'(2)]) (simp_all add: c'(4))
  moreover have "events_of ?m = (events_of m)(fd := c_events ?c AND NOT ev)"
    using events_of_put [OF fd, of ?m c'] c'(3) by simp
  then have "synced ?m" using core(2) by (intro synced_left [of m ?m fd "c_events ?c AND NOT ev"]) simp_all
  moreover have "registered ?m = (registered m)(fd := ctx_reg c')" by (rule registered_put [OF fd]) simp
  then have "\<forall>fd' ev'. is_event ev' \<longrightarrow> registered ?m fd' ev' = (if fd' = fd \<and> ev' = ev then None else registered m fd' ev')"
    using c'(5) reg by simp
  ultimately show ?thesis using True by (intro exI [of _ ?m]) (simp add: iom_inv_def)
qed

text \<open>The tasks of the events in a msk, in the order \<open>READ\<close>, \<open>WRITE\<close>.\<close>

definition tasks_of :: "iomanager \<Rightarrow> int \<Rightarrow> u32 \<Rightarrow> (nat \<times> task) list" where
  "tasks_of m fd msk =
     (if msk AND READ \<noteq> 0 then [the (registered m fd READ)] else [])
     @ (if msk AND WRITE \<noteq> 0 then [the (registered m fd WRITE)] else [])"

definition trigger_both :: "u32 \<Rightarrow> iomanager \<Rightarrow> int \<Rightarrow> iomanager result" where
  "trigger_both msk m fd =
     rbind (trigger_one (\<lambda>_. msk) READ m fd) (\<lambda>m. trigger_one (\<lambda>_. msk) WRITE m fd)"

lemma is_event_num [simp]: "is_event 1" "is_event 4"
  by (simp_all add: is_event_def READ_def WRITE_def)

lemma is_event_simps [simp]: "is_event READ" "is_event WRITE" "READ \<noteq> WRITE" "WRITE \<noteq> READ"
  "is_event ev \<Longrightarrow> ev = READ \<or> ev = WRITE"
  by (auto simp: is_event_def READ_def WRITE_def)

text \<open>Triggering one event of a descriptor in the table, as a state change.\<close>

lemma trigger_one_cases:
  assumes "core_inv m" "0 \<le> fd" "fd < int (length (m_fdContexts m))" "is_event ev" "events_of m fd AND ev \<noteq> 0"
  obtains m' where "trigger_one (\<lambda>_. msk) ev m fd = Inr (if msk AND ev = 0 then m else m')" "core_inv m'"
    "interest m' = interest m" "scheduled m' = scheduled m @ [the (registered m fd ev)]"
    "length (m_fdContexts m') = length (m_fdContexts m)" "events_of m' = (events_of m)(fd := events_of m fd AND NOT ev)"
    "\<forall>fd' ev'. is_event ev' \<longrightarrow> registered m' fd' ev' = (if fd' = fd \<and> ev' = ev then None else registered m fd' ev')"
proof -
  have nz: "ev AND ev \<noteq> 0" using assms(4) by (auto simp: is_event_def READ_def WRITE_def)
  obtain m' where m': "trigger_one (\<lambda>_. ev) ev m fd = Inr m'" "core_inv m'"
    "interest m' = interest m" "scheduled m' = scheduled m @ [the (registered m fd ev)]"
    "length (m_fdContexts m') = length (m_fdContexts m)" "events_of m' = (events_of m)(fd := events_of m fd AND NOT ev)"
    "\<forall>fd' ev'. is_event ev' \<longrightarrow> registered m' fd' ev' = (if fd' = fd \<and> ev' = ev then None else registered m fd' ev')"
    using trigger_one_spec [OF assms(1-4), of "\<lambda>_. ev", OF nz] assms(5) by (simp only: if_False) blast
  have "trigger_one (\<lambda>_. msk) ev m fd = (if msk AND ev = 0 then Inr m else trigger_one (\<lambda>_. ev) ev m fd)"
    using assms(2,3) nz by (simp add: trigger_one_def)
  with m' show ?thesis by (intro that [of m']) auto
qed

lemma trigger_both_spec:
  assumes "core_inv m" "0 \<le> fd" "fd < int (length (m_fdContexts m))" "msk \<in> {1, 4, 5}" "msk AND NOT (events_of m fd) = 0"
  shows "\<exists>m'. trigger_both msk m fd = Inr m' \<and> core_inv m' \<and> interest m' = interest m
    \<and> scheduled m' = scheduled m @ tasks_of m fd msk
    \<and> events_of m' = (events_of m)(fd := events_of m fd AND NOT msk)
    \<and> (\<forall>fd' ev'. is_event ev' \<longrightarrow>
         registered m' fd' ev' = (if fd' = fd \<and> msk AND ev' \<noteq> 0 then None else registered m fd' ev'))"
proof -
  have bits: "events_of m fd \<in> {0, 1, 4, 5}" by (rule events_bits [OF assms(1)])
  note wd = READ_def WRITE_def
  consider (r) "msk = 1" "events_of m fd \<in> {1, 5}" | (w) "msk = 4" "events_of m fd \<in> {4, 5}"
    | (rw) "msk = 5" "events_of m fd = 5" using bits assms(4,5) by auto
  then show ?thesis
  proof cases
    case r
    then have hr: "events_of m fd AND READ \<noteq> 0" by (auto simp: wd)
    obtain m' where m': "trigger_one (\<lambda>_. msk) READ m fd = Inr (if msk AND READ = 0 then m else m')" "core_inv m'"
      "interest m' = interest m" "scheduled m' = scheduled m @ [the (registered m fd READ)]"
      "length (m_fdContexts m') = length (m_fdContexts m)" "events_of m' = (events_of m)(fd := events_of m fd AND NOT READ)"
      "\<forall>fd' ev'. is_event ev' \<longrightarrow> registered m' fd' ev' = (if fd' = fd \<and> ev' = READ then None else registered m fd' ev')"
      by (rule trigger_one_cases [OF assms(1-3) is_event_simps(1) hr, of msk])
    then have "trigger_both msk m fd = Inr m'"
      using r(1) assms(2,3) by (simp add: trigger_both_def trigger_one_skip wd)
    with m' r(1) show ?thesis by (auto simp: tasks_of_def is_event_def wd)
  next
    case w
    then have hw: "events_of m fd AND WRITE \<noteq> 0" by (auto simp: wd)
    obtain m' where m': "trigger_one (\<lambda>_. msk) WRITE m fd = Inr (if msk AND WRITE = 0 then m else m')" "core_inv m'"
      "interest m' = interest m" "scheduled m' = scheduled m @ [the (registered m fd WRITE)]"
      "length (m_fdContexts m') = length (m_fdContexts m)" "events_of m' = (events_of m)(fd := events_of m fd AND NOT WRITE)"
      "\<forall>fd' ev'. is_event ev' \<longrightarrow> registered m' fd' ev' = (if fd' = fd \<and> ev' = WRITE then None else registered m fd' ev')"
      by (rule trigger_one_cases [OF assms(1-3) is_event_simps(2) hw, of msk])
    then have "trigger_both msk m fd = Inr m'"
      using w(1) assms(2,3) by (simp add: trigger_both_def trigger_one_skip wd)
    with m' w(1) show ?thesis by (auto simp: tasks_of_def is_event_def wd)
  next
    case rw
    then have hr: "events_of m fd AND READ \<noteq> 0" by (auto simp: wd)
    obtain m1 where m1: "trigger_one (\<lambda>_. msk) READ m fd = Inr (if msk AND READ = 0 then m else m1)" "core_inv m1"
      "interest m1 = interest m" "scheduled m1 = scheduled m @ [the (registered m fd READ)]"
      "length (m_fdContexts m1) = length (m_fdContexts m)" "events_of m1 = (events_of m)(fd := events_of m fd AND NOT READ)"
      "\<forall>fd' ev'. is_event ev' \<longrightarrow> registered m1 fd' ev' = (if fd' = fd \<and> ev' = READ then None else registered m fd' ev')"
      by (rule trigger_one_cases [OF assms(1-3) is_event_simps(1) hr, of msk])
    have fd1: "fd < int (length (m_fdContexts m1))" using m1(5) assms(3) by simp
    have ev1: "events_of m1 fd AND WRITE \<noteq> 0" using m1(6) rw by (simp add: wd)
    obtain m' where m': "trigger_one (\<lambda>_. msk) WRITE m1 fd = Inr (if msk AND WRITE = 0 then m1 else m')" "core_inv m'"
      "interest m' = interest m1" "scheduled m' = scheduled m1 @ [the (registered m1 fd WRITE)]"
      "events_of m' = (events_of m1)(fd := events_of m1 fd AND NOT WRITE)"
      "\<forall>fd' ev'. is_event ev' \<longrightarrow> registered m' fd' ev' = (if fd' = fd \<and> ev' = WRITE then None else registered m1 fd' ev')"
      by (rule trigger_one_cases [OF m1(2) assms(2) fd1 is_event_simps(2) ev1, of msk])
    have "trigger_both msk m fd = Inr m'"
      using m1(1) m'(1) rw(1) by (simp add: trigger_both_def wd)
    moreover have "registered m1 fd WRITE = registered m fd WRITE" using m1(7) by simp
    ultimately show ?thesis using m' m1 rw by (auto simp: tasks_of_def is_event_def wd)
  qed
qed

text \<open>\<open>cancelEvent\<close>, \<open>cancelAll\<close> and \<open>idle\<close> in terms of the same triggers.\<close>

lemma trigger_inv:
  assumes "iom_inv m" "0 \<le> fd" "fd < int (length (m_fdContexts m))" "msk \<in> {1, 4, 5}" "msk AND NOT (events_of m fd) = 0"
  shows "\<exists>m'. trigger_both msk (epoll_left m fd (events_of m fd AND NOT msk)) fd = Inr m' \<and> iom_inv m'
    \<and> scheduled m' = scheduled m @ tasks_of m fd msk
    \<and> (\<forall>fd' ev'. is_event ev' \<longrightarrow>
         registered m' fd' ev' = (if fd' = fd \<and> msk AND ev' \<noteq> 0 then None else registered m fd' ev'))"
proof -
  let ?m = "epoll_left m fd (events_of m fd AND NOT msk)"
  have "core_inv ?m" "synced m" using assms(1) by (simp_all add: iom_inv_def)
  then obtain m' where m': "trigger_both msk ?m fd = Inr m'" "core_inv m'" "interest m' = interest ?m"
    "scheduled m' = scheduled ?m @ tasks_of ?m fd msk" "events_of m' = (events_of ?m)(fd := events_of ?m fd AND NOT msk)"
    "\<forall>fd' ev'. is_event ev' \<longrightarrow>
         registered m' fd' ev' = (if fd' = fd \<and> msk AND ev' \<noteq> 0 then None else registered ?m fd' ev')"
    using trigger_both_spec [of ?m fd msk] assms(2-5) by auto
  have "synced m'" using m'(3,5) \<open>synced m\<close> by (intro synced_left [of m m' fd "events_of m fd AND NOT msk"]) simp_all
  with m' show ?thesis by (auto simp: iom_inv_def tasks_of_def)
qed

lemma cancelEvent_trigger:
  assumes "is_event ev" "events_of m fd AND ev \<noteq> 0"
  shows "cancelEvent True m fd ev = rbind (trigger_both ev (epoll_left m fd (events_of m fd AND NOT ev)) fd) (\<lambda>m. Inr (True, m))"
proof -
  have "events_of m fd \<noteq> 0" using assms(2) by (intro notI) simp
  then have fd: "0 \<le> fd" "fd < int (length (m_fdContexts m))" using in_table by blast+
  let ?m = "epoll_left m fd (events_of m fd AND NOT ev)"
  have ev: "events_of m fd = c_events (m_fdContexts m ! nat fd)" using fd by (simp add: events_of_def)
  have one: "cancelEvent True m fd ev = rbind (trigger_one (\<lambda>_. ev) ev ?m fd) (\<lambda>m. Inr (True, m))"
  proof -
    have "ev AND ev \<noteq> 0" using assms(1) by (auto simp: is_event_def READ_def WRITE_def)
    then show ?thesis
      using fd assms(2) by (cases "triggerEvent (m_fdContexts m ! nat fd) ev")
        (auto simp: cancelEvent_def trigger_one_def ev put_fd_def)
  qed
  have len: "length (m_fdContexts m') = length (m_fdContexts m)" if "trigger_one (\<lambda>_. ev) ev ?m fd = Inr m'" for m'
    using that fd by (auto simp: trigger_one_def returns put_fd_def split: if_splits)
  show ?thesis
  proof (cases "ev = READ")
    case True
    then have "trigger_one (\<lambda>_. ev) WRITE m' fd = Inr m'" if "trigger_one (\<lambda>_. ev) ev ?m fd = Inr m'" for m'
      using len [OF that] fd by (intro trigger_one_skip) (simp_all add: READ_def WRITE_def)
    then show ?thesis unfolding one trigger_both_def using True
      by (cases "trigger_one (\<lambda>_. ev) READ ?m fd") simp_all
  next
    case False
    then have w: "ev = WRITE" using assms(1) by (simp add: is_event_def)
    then have "trigger_one (\<lambda>_. ev) READ ?m fd = Inr ?m"
      using fd by (intro trigger_one_skip) (simp_all add: READ_def WRITE_def)
    then show ?thesis unfolding one trigger_both_def using w by simp
  qed
qed

lemma cancelEvent_spec:
  assumes "iom_inv m" "0 \<le> fd" "is_event ev"
  shows "if ok \<and> events_of m fd AND ev \<noteq> 0
    then \<exists>m'. cancelEvent ok m fd ev = Inr (True, m') \<and> iom_inv m'
      \<and> scheduled m' = scheduled m @ [the (registered m fd ev)]
      \<and> (\<forall>fd' ev'. is_event ev' \<longrightarrow> registered m' fd' ev' = (if fd' = fd \<and> ev' = ev then None else registered m fd' ev'))
    else cancelEvent ok m fd ev = Inr (False, m)"
proof (cases "ok \<and> events_of m fd AND ev \<noteq> 0")
  case False
  then show ?thesis using assms(2) by (auto simp: cancelEvent_def events_of_def)
next
  case True
  then have ok: "ok" and h: "events_of m fd AND ev \<noteq> 0" by auto
  then have "events_of m fd \<noteq> 0" by (intro notI) simp
  then have fd: "fd < int (length (m_fdContexts m))" using in_table by blast
  have msk: "ev \<in> {1, 4, 5}" "ev AND NOT (events_of m fd) = 0" "tasks_of m fd ev = [the (registered m fd ev)]"
    "\<forall>ev'. is_event ev' \<longrightarrow> (ev AND ev' \<noteq> 0 \<longleftrightarrow> ev' = ev)"
    using assms(1,3) h events_bits [of m fd]
    by (auto simp: is_event_def READ_def WRITE_def tasks_of_def iom_inv_def)
  from trigger_inv [OF assms(1,2) fd msk(1,2)] cancelEvent_trigger [OF assms(3) h] ok h msk(3,4)
  show ?thesis by fastforce
qed

lemma idle_event_eq:
  assumes "0 \<le> fd" "fd < int (length (m_fdContexts m))"
  shows "idle_event ok m fd evs =
    (if events_of m fd AND real_events evs = 0 \<or> \<not> ok then Inr m
     else trigger_both (real_events evs) (epoll_left m fd (events_of m fd AND NOT (real_events evs))) fd)"
  using assms by (auto simp: idle_event_def trigger_both_def events_of_def NONE_def Let_def)

lemma real_events_bits: "real_events evs \<in> {0, 1, 4, 5}"
  by (simp add: real_events_def Let_def READ_def WRITE_def NONE_def)

lemma cancelAll_spec:
  assumes "iom_inv m" "0 \<le> fd"
  shows "if ok \<and> events_of m fd \<noteq> 0
    then \<exists>m'. cancelAll ok m fd = Inr (True, m') \<and> iom_inv m' \<and> scheduled m' = scheduled m @ tasks_of m fd (events_of m fd)
      \<and> (\<forall>fd' ev'. is_event ev' \<longrightarrow> registered m' fd' ev' = (if fd' = fd then None else registered m fd' ev'))
    else cancelAll ok m fd = Inr (False, m)"
proof (cases "ok \<and> events_of m fd \<noteq> 0")
  case False
  then show ?thesis using assms(2) by (auto simp: cancelAll_def events_of_def)
next
  case True
  let ?R = "events_of m fd" and ?m = "epoll_left m fd 0"
  have fd: "fd < int (length (m_fdContexts m))" using in_table True by blast
  have R: "?R = c_events (m_fdContexts m ! nat fd)" using fd assms(2) by (simp add: events_of_def)
  have bits: "?R \<in> {1, 4, 5}" using True events_bits [of m fd] assms(1) by (simp add: iom_inv_def)
  have second: "trigger_one c_events WRITE m1 fd = trigger_one (\<lambda>_. ?R) WRITE m1 fd"
    if "trigger_one (\<lambda>_. ?R) READ ?m fd = Inr m1" for m1
  proof -
    have m1: "length (m_fdContexts m1) = length (m_fdContexts m) \<and> (events_of m1 fd = ?R \<or> events_of m1 fd = ?R AND NOT READ)"
    proof (cases "?R AND READ = 0")
      case True
      then show ?thesis using that fd assms(2) by (auto simp: trigger_one_skip R [symmetric])
    next
      case False
      then have "\<exists>m'. trigger_one (\<lambda>_. ?R) READ ?m fd = Inr m' \<and> length (m_fdContexts m') = length (m_fdContexts m)
          \<and> events_of m' = (events_of m)(fd := ?R AND NOT READ)"
        using trigger_one_spec [of ?m fd READ "\<lambda>_. ?R"] assms fd by (auto simp: iom_inv_def)
      with that show ?thesis by auto
    qed
    then have "c_events (m_fdContexts m1 ! nat fd) AND WRITE = ?R AND WRITE"
      using fd assms(2) bits by (auto simp: events_of_def READ_def WRITE_def)
    then show ?thesis using m1 fd assms(2) by (simp add: trigger_one_def)
  qed
  have first: "trigger_one c_events READ ?m fd = trigger_one (\<lambda>_. ?R) READ ?m fd"
    using fd assms(2) R by (simp add: trigger_one_def)
  have "cancelAll ok m fd = rbind (trigger_one (\<lambda>_. ?R) READ ?m fd) (\<lambda>m. rbind (trigger_one c_events WRITE m fd) (\<lambda>m. Inr (True, m)))"
    using True fd assms(2) first by (simp add: cancelAll_def R)
  also have "\<dots> = rbind (trigger_both ?R ?m fd) (\<lambda>m. Inr (True, m))"
    using second by (cases "trigger_one (\<lambda>_. ?R) READ ?m fd") (simp_all add: trigger_both_def)
  finally have eq: "cancelAll ok m fd = rbind (trigger_both ?R ?m fd) (\<lambda>m. Inr (True, m))" .
  have sel: "\<forall>ev'. is_event ev' \<longrightarrow> (if ?R AND ev' \<noteq> 0 then True else registered m fd ev' = None)"
    using fd assms(2) by (auto simp: registered_def ctx_reg_def R)
  from trigger_inv [OF assms(1,2) fd bits] obtain m' where
    "trigger_both ?R ?m fd = Inr m'" "iom_inv m'" "scheduled m' = scheduled m @ tasks_of m fd ?R"
    "\<forall>fd' ev'. is_event ev' \<longrightarrow> registered m' fd' ev' = (if fd' = fd \<and> ?R AND ev' \<noteq> 0 then None else registered m fd' ev')"
    by auto
  with eq True sel show ?thesis by (auto split: if_splits)
qed

text \<open>
  The exact outcome of one reported event: ignored when nothing registered is ready, an assertion
  failure when something is ready that is not registered, otherwise the ready tasks are scheduled.
\<close>

lemma idle_event_spec:
  fixes evs :: u32
  assumes "iom_inv m" "0 \<le> fd" "fd < int (length (m_fdContexts m))"
  defines "rdy \<equiv> real_events evs"
  shows "if events_of m fd AND rdy = 0 \<or> \<not> ok then idle_event ok m fd evs = Inr m
    else if rdy AND NOT (events_of m fd) \<noteq> 0 then idle_event ok m fd evs = Inl Assert_failed
    else \<exists>m'. idle_event ok m fd evs = Inr m' \<and> iom_inv m' \<and> scheduled m' = scheduled m @ tasks_of m fd rdy
      \<and> (\<forall>fd' ev'. is_event ev' \<longrightarrow>
           registered m' fd' ev' = (if fd' = fd \<and> rdy AND ev' \<noteq> 0 then None else registered m fd' ev'))"
proof -
  let ?R = "events_of m fd" and ?m = "epoll_left m fd (events_of m fd AND NOT rdy)"
  note eq = idle_event_eq [OF assms(2,3), of ok evs, folded rdy_def]
  have bits: "?R \<in> {0, 1, 4, 5}" "rdy \<in> {0, 1, 4, 5}"
    using events_bits [of m fd] assms(1) real_events_bits by (auto simp: iom_inv_def rdy_def)
  have core: "core_inv ?m" using assms(1) by (simp add: iom_inv_def)
  show ?thesis
  proof (cases "?R AND rdy = 0 \<or> \<not> ok")
    case True
    then show ?thesis using eq by simp
  next
    case hit: False
    show ?thesis
    proof (cases "rdy AND NOT ?R = 0")
      case True
      have "rdy \<in> {1, 4, 5}" using hit bits by auto
      from trigger_inv [OF assms(1-3) this True] hit True eq show ?thesis by simp
    next
      case False
      then have five: "rdy = 5" "?R = 1 \<or> ?R = 4" using hit bits by auto
      from this(2) have "trigger_both rdy ?m fd = Inl Assert_failed"
      proof
        assume R: "?R = 4"
        have "trigger_one (\<lambda>_. rdy) READ ?m fd = Inl Assert_failed"
          using trigger_one_spec [of ?m fd READ "\<lambda>_. rdy"] core assms(2,3) five(1) R by (simp add: READ_def)
        then show ?thesis by (simp add: trigger_both_def)
      next
        assume R: "?R = 1"
        have "\<exists>m1. trigger_one (\<lambda>_. rdy) READ ?m fd = Inr m1 \<and> core_inv m1
            \<and> length (m_fdContexts m1) = length (m_fdContexts m) \<and> events_of m1 fd = 0"
          using trigger_one_spec [of ?m fd READ "\<lambda>_. rdy"] core assms(2,3) five(1) R by (auto simp: READ_def)
        then obtain m1 where m1: "trigger_one (\<lambda>_. rdy) READ ?m fd = Inr m1" "core_inv m1"
          "length (m_fdContexts m1) = length (m_fdContexts m)" "events_of m1 fd = 0" by blast
        have "trigger_one (\<lambda>_. rdy) WRITE m1 fd = Inl Assert_failed"
          using trigger_one_spec [of m1 fd WRITE "\<lambda>_. rdy"] m1 assms(2,3) five(1) by (simp add: WRITE_def)
        with m1(1) show ?thesis by (simp add: trigger_both_def)
      qed
      with eq hit False show ?thesis by simp
    qed
  qed
qed

section \<open>Runs\<close>

text \<open>
  The calls on an \<open>IOManager\<close>: the operations with a valid descriptor and one of the two events, made
  from a thread with a scheduler, and the events \<open>idle\<close> handles. A call that fails an assertion ends
  the process and is not a step.
\<close>

inductive iom_step :: "iomanager \<Rightarrow> iomanager \<Rightarrow> bool" where
  step_add_event: "0 \<le> fd \<Longrightarrow> is_event ev \<Longrightarrow> addEvent (Some sch) fib EXEC ok m fd ev cb = Inr (r, m') \<Longrightarrow> iom_step m m'"
| step_del_event: "0 \<le> fd \<Longrightarrow> is_event ev \<Longrightarrow> delEvent ok m fd ev = Inr (r, m') \<Longrightarrow> iom_step m m'"
| step_cancel_event: "0 \<le> fd \<Longrightarrow> is_event ev \<Longrightarrow> cancelEvent ok m fd ev = Inr (r, m') \<Longrightarrow> iom_step m m'"
| step_cancel_all: "0 \<le> fd \<Longrightarrow> cancelAll ok m fd = Inr (r, m') \<Longrightarrow> iom_step m m'"
| step_idle_event: "0 \<le> fd \<Longrightarrow> idle_event ok m fd evs = Inr m' \<Longrightarrow> iom_step m m'"

inductive iom_reachable :: "iomanager \<Rightarrow> bool" where
  iom_new: "iom_reachable IOManager_new"
| iom_next: "iom_reachable m \<Longrightarrow> iom_step m m' \<Longrightarrow> iom_reachable m'"

lemma iom_inv_step: "iom_step m m' \<Longrightarrow> iom_inv m \<Longrightarrow> iom_inv m'"
proof (induction rule: iom_step.induct)
  case (step_add_event fd ev sch fib ok m cb r m')
  then show ?case using addEvent_spec [of m fd ev cb EXEC sch fib ok] by (auto split: if_splits)
next
  case (step_del_event fd ev ok m r m')
  then show ?case using delEvent_spec [of m fd ev ok] by auto
next
  case (step_cancel_event fd ev ok m r m')
  then show ?case using cancelEvent_spec [of m fd ev ok] by (auto split: if_splits)
next
  case (step_cancel_all fd ok m r m')
  then show ?case using cancelAll_spec [of m fd ok] by (auto split: if_splits)
next
  case (step_idle_event fd ok m evs m')
  then have "fd < int (length (m_fdContexts m))" by (auto simp: idle_event_def at_fd_def split: if_splits)
  with step_idle_event show ?case using idle_event_spec [of m fd evs ok] by (auto split: if_splits)
qed

lemma iom_reachable_inv: "iom_reachable m \<Longrightarrow> iom_inv m"
  by (induction rule: iom_reachable.induct) (auto intro: iom_inv_new iom_inv_step)

section \<open>Properties\<close>


text \<open>A manager with \<open>READ\<close> of descriptor 7 registered with the callback 42.\<close>

definition reading :: iomanager where
  "reading = (case addEvent (Some 1) 0 EXEC True IOManager_new 7 READ (Some 42) of Inr (_, m) \<Rightarrow> m | Inl _ \<Rightarrow> IOManager_new)"

lemma events_of_new: "events_of IOManager_new fd = 0"
  by (auto simp: IOManager_new_def contextResize_def events_of_def FdContext_new_def NONE_def)

lemma reading_facts:
  "addEvent (Some 1) 0 EXEC True IOManager_new 7 READ (Some 42) = Inr (0, reading)"
  "registered reading 7 READ = Some (1, cb_task (Some 42) (- 1))" "registered reading 7 WRITE = None"
proof -
  have none: "registered IOManager_new 7 WRITE = None"
    by (simp add: registered_def IOManager_new_def contextResize_def ctx_reg_def FdContext_new_def NONE_def)
  obtain m where "addEvent (Some 1) 0 EXEC True IOManager_new 7 READ (Some 42) = Inr (0, m)"
    "\<forall>fd' ev'. is_event ev' \<longrightarrow> registered m fd' ev'
       = (if fd' = 7 \<and> ev' = READ then Some (1, new_task 0 (Some 42)) else registered IOManager_new fd' ev')"
    using addEvent_spec [OF iom_inv_new, of 7 READ "Some 42" EXEC 1 0 True] by (auto simp: events_of_new)
  moreover from this(1) have "reading = m" by (simp add: reading_def)
  ultimately show "addEvent (Some 1) 0 EXEC True IOManager_new 7 READ (Some 42) = Inr (0, reading)"
    "registered reading 7 READ = Some (1, cb_task (Some 42) (- 1))" "registered reading 7 WRITE = None"
    using none by (simp_all add: new_task_def cb_task_def)
qed

lemma reading_reachable: "iom_reachable reading"
  by (rule iom_next [OF iom_new], rule step_add_event [OF _ _ reading_facts(1)]) simp_all


text \<open>
  \<^bold>\<open>C9\<close>. The table of registrations behaves as a map. \<open>addEvent\<close> registers the callback (or the
  current fiber) under the descriptor and the event, without a limit on the descriptor; a second
  registration fails its assertion, and a failed \<open>epoll_ctl\<close> changes nothing. \<open>delEvent\<close> removes
  without scheduling; \<open>cancelEvent\<close> removes and schedules the registered task once; \<open>cancelAll\<close> does
  so for both events of the descriptor. Nothing else is touched.
\<close>

theorem events_map_refinement:
  assumes "iom_reachable m" "0 \<le> fd" "is_event ev"
  shows "(if registered m fd ev \<noteq> None then addEvent (Some sch) fib EXEC ok m fd ev cb = Inl Assert_failed
      else \<exists>m'. addEvent (Some sch) fib EXEC ok m fd ev cb = Inr (if ok then 0 else - 1, m') \<and> scheduled m' = scheduled m
        \<and> (\<forall>fd' ev'. is_event ev' \<longrightarrow> registered m' fd' ev'
             = (if ok \<and> fd' = fd \<and> ev' = ev then Some (sch, new_task fib cb) else registered m fd' ev')))
    \<and> (\<exists>m'. delEvent True m fd ev = Inr (registered m fd ev \<noteq> None, m') \<and> scheduled m' = scheduled m
        \<and> (\<forall>fd' ev'. is_event ev' \<longrightarrow> registered m' fd' ev' = (if fd' = fd \<and> ev' = ev then None else registered m fd' ev')))
    \<and> (\<exists>m'. cancelEvent True m fd ev = Inr (registered m fd ev \<noteq> None, m')
        \<and> scheduled m' = scheduled m @ (case registered m fd ev of Some t \<Rightarrow> [t] | None \<Rightarrow> [])
        \<and> (\<forall>fd' ev'. is_event ev' \<longrightarrow> registered m' fd' ev' = (if fd' = fd \<and> ev' = ev then None else registered m fd' ev')))
    \<and> (\<exists>r m'. cancelAll True m fd = Inr (r, m')
        \<and> scheduled m' = scheduled m @ (case registered m fd READ of Some t \<Rightarrow> [t] | None \<Rightarrow> [])
            @ (case registered m fd WRITE of Some t \<Rightarrow> [t] | None \<Rightarrow> [])
        \<and> (\<forall>fd' ev'. is_event ev' \<longrightarrow> registered m' fd' ev' = (if fd' = fd then None else registered m fd' ev')))"
proof -
  have inv: "iom_inv m" using assms(1) by (rule iom_reachable_inv)
  note reg = registered_None [of m fd]
  have none: "registered m fd ev' = None" if "events_of m fd = 0" for ev' using that by (simp add: reg)
  have tasks: "tasks_of m fd (events_of m fd) = (case registered m fd READ of Some t \<Rightarrow> [t] | None \<Rightarrow> [])
            @ (case registered m fd WRITE of Some t \<Rightarrow> [t] | None \<Rightarrow> [])"
    by (cases "registered m fd READ"; cases "registered m fd WRITE") (simp_all add: tasks_of_def reg [symmetric])
  have all: "\<exists>r m'. cancelAll True m fd = Inr (r, m') \<and> scheduled m' = scheduled m @ tasks_of m fd (events_of m fd)
      \<and> (\<forall>fd' ev'. is_event ev' \<longrightarrow> registered m' fd' ev' = (if fd' = fd then None else registered m fd' ev'))"
  proof (cases "events_of m fd = 0")
    case True
    then show ?thesis using cancelAll_spec [OF inv assms(2), of True] none by (auto simp: tasks_of_def)
  next
    case False
    then show ?thesis using cancelAll_spec [OF inv assms(2), of True] by auto
  qed
  have one: "\<exists>m'. cancelEvent True m fd ev = Inr (registered m fd ev \<noteq> None, m')
        \<and> scheduled m' = scheduled m @ (case registered m fd ev of Some t \<Rightarrow> [t] | None \<Rightarrow> [])
        \<and> (\<forall>fd' ev'. is_event ev' \<longrightarrow> registered m' fd' ev' = (if fd' = fd \<and> ev' = ev then None else registered m fd' ev'))"
    using cancelEvent_spec [OF inv assms(2,3), of True] by (cases "registered m fd ev") (auto simp: reg [symmetric])
  have del: "\<exists>m'. delEvent True m fd ev = Inr (registered m fd ev \<noteq> None, m') \<and> scheduled m' = scheduled m
        \<and> (\<forall>fd' ev'. is_event ev' \<longrightarrow> registered m' fd' ev' = (if fd' = fd \<and> ev' = ev then None else registered m fd' ev'))"
    using delEvent_spec [OF inv assms(2,3), of True] by (cases "registered m fd ev") (auto simp: reg [symmetric])
  have add: "if registered m fd ev \<noteq> None then addEvent (Some sch) fib EXEC ok m fd ev cb = Inl Assert_failed
      else \<exists>m'. addEvent (Some sch) fib EXEC ok m fd ev cb = Inr (if ok then 0 else - 1, m') \<and> scheduled m' = scheduled m
        \<and> (\<forall>fd' ev'. is_event ev' \<longrightarrow> registered m' fd' ev'
             = (if ok \<and> fd' = fd \<and> ev' = ev then Some (sch, new_task fib cb) else registered m fd' ev'))"
    using addEvent_spec [OF inv assms(2,3), of cb EXEC sch fib ok] unfolding reg by (auto split: if_splits)
  show ?thesis using add del one all unfolding tasks by blast
qed

theorem events_map_refinement_witness:
  "addEvent (Some 1) 0 EXEC True reading 7 READ None = Inl Assert_failed
   \<and> (\<exists>m'. cancelEvent True reading 7 READ = Inr (True, m')
        \<and> scheduled m' = scheduled reading @ [(1, cb_task (Some 42) (- 1))])"
proof -
  have r: "registered reading 7 READ \<noteq> None" by (simp add: reading_facts)
  show ?thesis
    using events_map_refinement [OF reading_reachable, of 7 READ 1 0 True None] r reading_facts(2) by auto
qed

text \<open>
  What \<open>idle\<close> does with an event that \<open>epoll_wait\<close> reports. If every ready direction is
  registered, the registered tasks are scheduled, \<open>READ\<close> before \<open>WRITE\<close>, and unregistered. If none is,
  nothing happens. But if one direction is registered and the other is ready as well, which is how an
  error or a hang-up is reported, the assertion in \<open>triggerEvent\<close> fails.
\<close>

lemma idle_event_outcome:
  assumes "iom_reachable m" "0 \<le> fd" "fd < int (length (m_fdContexts m))"
  shows "if events_of m fd AND real_events evs = 0 then idle_event True m fd evs = Inr m
    else if real_events evs AND NOT (events_of m fd) \<noteq> 0 then idle_event True m fd evs = Inl Assert_failed
    else \<exists>m'. idle_event True m fd evs = Inr m' \<and> iom_inv m' \<and> scheduled m' = scheduled m @ tasks_of m fd (real_events evs)
      \<and> (\<forall>fd' ev'. is_event ev' \<longrightarrow>
           registered m' fd' ev' = (if fd' = fd \<and> real_events evs AND ev' \<noteq> 0 then None else registered m fd' ev'))"
  using idle_event_spec [OF iom_reachable_inv [OF assms(1)] assms(2,3), of evs True] by simp

lemma reading_events: "7 < int (length (m_fdContexts reading))" "events_of reading 7 = 1"
proof -
  have r: "registered reading 7 READ \<noteq> None" "registered reading 7 WRITE = None" by (simp_all add: reading_facts)
  then show lt: "7 < int (length (m_fdContexts reading))" by (auto simp: registered_def split: if_splits)
  have "events_of reading 7 \<in> {0, 1, 4, 5}"
    using events_bits iom_reachable_inv [OF reading_reachable] by (simp add: iom_inv_def)
  moreover have "events_of reading 7 AND READ \<noteq> 0" "events_of reading 7 AND WRITE = 0"
    using r by (simp_all only: registered_None not_False_eq_True)
  ultimately show "events_of reading 7 = 1" by (auto simp: READ_def WRITE_def)
qed

text \<open>
  \<open>addEvent\<close> can drop the events of other descriptors. When a thread finds the table too
  small for \<open>fd\<close>, releases the read lock, and another thread meanwhile grows the table further and
  registers an event for a descriptor \<open>fd2\<close> of at least \<open>1.5 * fd\<close>, then \<open>contextResize(fd * 1.5)\<close>
  shrinks the table: the registration of \<open>fd2\<close> is gone, \<open>delEvent\<close> and \<open>cancelEvent\<close> no longer find
  it, and \<open>m_pendingEventCount\<close> still counts it.
\<close>

lemma addEvent_race_drops:
  assumes "iom_reachable m" "int (length (m_fdContexts m)) \<le> fd" "fd * 3 div 2 \<le> fd2" "is_event ev"
  shows "add_lookup m fd = Inr False \<and>
    (\<exists>m1 m2. addEvent (Some sch) fib EXEC True m fd2 ev cb = Inr (0, m1) \<and> registered m1 fd2 ev \<noteq> None
       \<and> add_grow m1 fd = Inr m2 \<and> registered m2 fd2 ev = None
       \<and> m_pendingEventCount m2 = m_pendingEventCount m1
       \<and> cancelEvent True m2 fd2 ev = Inr (False, m2) \<and> delEvent True m2 fd2 ev = Inr (False, m2))"
proof -
  have inv: "iom_inv m" "core_inv m" using iom_reachable_inv [OF assms(1)] by (auto simp: iom_inv_def)
  then have "32 \<le> length (m_fdContexts m)" by (simp add: core_inv_def)
  then have fd: "32 \<le> fd" "fd < fd * 3 div 2" using assms(2) by auto
  have fd2: "int (length (m_fdContexts m)) \<le> fd2" "0 \<le> fd2" using assms(2,3) fd by auto
  then have ev: "events_of m fd2 = 0" by (auto simp: events_of_def)
  then obtain m1 where m1: "addEvent (Some sch) fib EXEC True m fd2 ev cb = Inr (0, m1)" "iom_inv m1"
    "registered m1 fd2 ev = Some (sch, new_task fib cb)"
    using addEvent_spec [OF inv(1) fd2(2) assms(4), of cb EXEC sch fib True] assms(4) by auto
  have len1: "fd2 < int (length (m_fdContexts m1))" using m1(3) by (auto simp: registered_def split: if_splits)
  let ?n = "nat (fd * 3 div 2)"
  let ?m2 = "m1\<lparr>m_fdContexts := contextResize ?n (m_fdContexts m1)\<rparr>"
  have len: "length (contextResize ?n (m_fdContexts m1)) = ?n"
    using len1 assms(3) by (simp add: contextResize_def)
  have "add_grow m1 fd = Inr ?m2" using len fd by (simp add: add_grow_def)
  moreover have small: "int (length (m_fdContexts ?m2)) \<le> fd2" using len assms(3) fd by simp
  then have "registered ?m2 fd2 ev = None" "cancelEvent True ?m2 fd2 ev = Inr (False, ?m2)"
    "delEvent True ?m2 fd2 ev = Inr (False, ?m2)"
    by (auto simp: registered_def cancelEvent_def delEvent_def)
  moreover have "add_lookup m fd = Inr False" using assms(2) by (simp add: add_lookup_def)
  ultimately show ?thesis using m1(1,3) by auto
qed

lemma sint_low_half:
  assumes "uint (t :: u64) < 2 ^ 31"
  shows "sint (ucast t :: i32) = uint t"
proof -
  have "- (2 ^ 31) \<le> uint t" using order_trans [OF _ uint_nonnegative, of "- (2 ^ 31)" t] by simp
  with assms have "signed_take_bit 31 (uint t) = uint t" by (intro signed_take_bit_int_eq_self) simp_all
  then show ?thesis by (simp add: sint_uint unsigned_ucast_eq signed_take_bit_take_bit)
qed

lemma sint_high_half:
  assumes "2 ^ 31 \<le> uint (t :: u64)" "uint t < 2 ^ 32"
  shows "sint (ucast t :: i32) = uint t - 2 ^ 32"
proof -
  have "uint t div 2 ^ 31 = 1" using assms by (intro int_div_pos_eq [of _ _ _ "uint t - 2 ^ 31"]) simp_all
  moreover have "take_bit 32 (uint t) = uint t" using assms by (intro take_bit_int_eq_self) simp_all
  ultimately show ?thesis
    by (simp add: sint_uint unsigned_ucast_eq signed_take_bit_take_bit signed_take_bit_eq_take_bit_minus bit_iff_odd)
qed

text \<open>
  The timeout \<open>idle\<close> gives to \<open>epoll_wait\<close> is the time to the next timer, at most three
  seconds, as long as that time is less than \<open>2^31\<close> milliseconds; with no timer it is three seconds.
  For a timer between \<open>2^31\<close> and \<open>2^32\<close> milliseconds ahead it is negative, which means no timeout.
\<close>

lemma idle_timeout_range:
  "(uint t < 2 ^ 31 \<longrightarrow> sint (idle_timeout t) = min (uint t) 3000)
   \<and> (t = NOT 0 \<longrightarrow> sint (idle_timeout t) = 3000)
   \<and> (2 ^ 31 \<le> uint t \<and> uint t < 2 ^ 32 \<longrightarrow> sint (idle_timeout t) < 0)"
proof -
  have small: "t \<noteq> NOT 0" if "uint t < 2 ^ 32"
    using that by (auto simp: unsigned_minus_1_eq_mask mask_eq_exp_minus_1)
  have "min (uint t) 3000 = (if sint (ucast t :: i32) > 3000 then 3000 else uint t)
      \<and> sint (idle_timeout t) = min (uint t) 3000" if "uint t < 2 ^ 31"
    using that small sint_low_half [OF that] by (auto simp: idle_timeout_def MAX_TIMEOUT_def)
  moreover have "sint (idle_timeout t) < 0" if "2 ^ 31 \<le> uint t" "uint t < 2 ^ 32"
    using that small sint_high_half [OF that] by (auto simp: idle_timeout_def MAX_TIMEOUT_def)
  moreover have "sint (idle_timeout (NOT 0)) = 3000" by (simp add: idle_timeout_def)
  ultimately show ?thesis by blast
qed

end
