(* ===== verification/Event_Loop.thy ===== *)
theory Event_Loop
  imports IO_Manager
begin

text \<open>
  One round of \<open>IOManager::idle\<close> (windgent/iomanager.cc) as a whole: the timers, the events that one \<open>epoll_wait\<close>
  reports, and the queue of the scheduler. \<open>epoll_wait\<close> reports a descriptor at most once, and only descriptors that were
  given to it, which are in the table of contexts.
\<close>

section \<open>The events of one wait\<close>

fun reported :: "((int \<times> u32) option \<times> bool) list \<Rightarrow> int list" where
  "reported [] = []"
| "reported ((None, ok) # evs) = reported evs"
| "reported ((Some (fd, ev), ok) # evs) = fd # reported evs"

text \<open>
  An entry hits when a ready direction is registered; it is partial when the other direction is ready and not
  registered; it wakes the tasks of the ready directions.
\<close>

fun hit :: "iomanager \<Rightarrow> (int \<times> u32) option \<times> bool \<Rightarrow> bool" where
  "hit m (Some (fd, ev), ok) \<longleftrightarrow> ok \<and> events_of m fd AND real_events ev \<noteq> 0"
| "hit m (None, ok) \<longleftrightarrow> False"

fun partially :: "iomanager \<Rightarrow> (int \<times> u32) option \<times> bool \<Rightarrow> bool" where
  "partially m (Some (fd, ev), ok) \<longleftrightarrow> hit m (Some (fd, ev), ok) \<and> real_events ev AND NOT (events_of m fd) \<noteq> 0"
| "partially m (None, ok) \<longleftrightarrow> False"

fun woken :: "iomanager \<Rightarrow> (int \<times> u32) option \<times> bool \<Rightarrow> (nat \<times> task) list" where
  "woken m (Some (fd, ev), ok) = (if hit m (Some (fd, ev), ok) then tasks_of m fd (real_events ev) else [])"
| "woken m (None, ok) = []"

text \<open>The registrations an entry takes away.\<close>

definition taken :: "iomanager \<Rightarrow> ((int \<times> u32) option \<times> bool) list \<Rightarrow> int \<Rightarrow> u32 \<Rightarrow> bool" where
  "taken m evs fd ev \<longleftrightarrow> (\<exists>x. (Some (fd, x), True) \<in> set evs \<and> events_of m fd AND real_events x \<noteq> 0 \<and> real_events x AND ev \<noteq> 0)"

lemma reported_sub: "e \<in> set evs \<Longrightarrow> set (reported [e]) \<subseteq> set (reported evs)"
  by (induction evs rule: reported.induct) auto

lemma reported_mem: "(Some (fd, x), ok) \<in> set evs \<Longrightarrow> fd \<in> set (reported evs)"
  using reported_sub [of "(Some (fd, x), ok)" evs] by simp

lemma idle_event_length: "idle_event ok m fd evs = Inr m' \<Longrightarrow> length (m_fdContexts m') = length (m_fdContexts m)"
  by (auto simp: idle_event_def trigger_one_def put_fd_def epoll_left_def returns Let_def split: if_splits)

lemma events_of_cong:
  assumes "iom_inv m" "iom_inv m'" "\<And>ev. is_event ev \<Longrightarrow> registered m' fd ev = registered m fd ev"
  shows "events_of m' fd = events_of m fd"
proof -
  have "events_of m fd \<in> {0, 1, 4, 5}" "events_of m' fd \<in> {0, 1, 4, 5}" using assms(1,2) events_bits by (auto simp: iom_inv_def)
  moreover have "events_of m' fd AND 1 = 0 \<longleftrightarrow> events_of m fd AND 1 = 0" "events_of m' fd AND 4 = 0 \<longleftrightarrow> events_of m fd AND 4 = 0"
    using assms(3) [of 1] assms(3) [of 4] registered_None [of m fd 1] registered_None [of m' fd 1]
      registered_None [of m fd 4] registered_None [of m' fd 4] by simp_all
  ultimately show ?thesis by auto
qed

lemma entry_cong:
  assumes "iom_inv m" "iom_inv m'" "\<And>fd ev. fd \<in> F \<Longrightarrow> is_event ev \<Longrightarrow> registered m' fd ev = registered m fd ev" "set (reported [e]) \<subseteq> F"
  shows "hit m' e = hit m e" "partially m' e = partially m e" "woken m' e = woken m e"
proof -
  have "events_of m' fd = events_of m fd" "tasks_of m' fd msk = tasks_of m fd msk" if "fd \<in> F" for fd msk
    using events_of_cong [OF assms(1,2)] assms(3) [OF that] by (simp_all add: tasks_of_def READ_def WRITE_def)
  then show "hit m' e = hit m e" "partially m' e = partially m e" "woken m' e = woken m e"
    using assms(4) by (cases e; cases "fst e"; force)+
qed

lemma idle_events_spec:
  "iom_inv m \<Longrightarrow> distinct (reported evs) \<Longrightarrow> (\<And>fd. fd \<in> set (reported evs) \<Longrightarrow> 0 \<le> fd \<and> fd < int (length (m_fdContexts m))) \<Longrightarrow>
   if list_ex (partially m) evs then idle_events m evs = Inl Assert_failed
   else \<exists>m'. idle_events m evs = Inr m' \<and> iom_inv m' \<and> scheduled m' = scheduled m @ concat (map (woken m) evs)
     \<and> (\<forall>fd ev. is_event ev \<longrightarrow> registered m' fd ev = (if taken m evs fd ev then None else registered m fd ev))"
proof (induction m evs rule: idle_events.induct)
  case (1 m)
  then show ?case by (simp add: taken_def)
next
  case (2 m ok evs)
  have "taken m ((None, ok) # evs) = taken m evs" by (simp add: taken_def fun_eq_iff)
  with 2 show ?case by simp
next
  case (3 m fd ev ok evs)
  let ?e = "(Some (fd, ev), ok)"
  have range: "0 \<le> fd" "fd < int (length (m_fdContexts m))" using "3.prems"(3) [of fd] by simp_all
  have other: "fd \<notin> set (reported evs)" using "3.prems"(2) by simp
  note spec = idle_event_spec [OF "3.prems"(1) range, of ev ok]
  show ?case
  proof (cases "hit m ?e")
    case False
    then have "idle_event ok m fd ev = Inr m" using spec by (auto split: if_splits)
    moreover have "taken m (?e # evs) = taken m evs" using False by (auto simp: taken_def fun_eq_iff)
    moreover have "woken m ?e = []" "\<not> partially m ?e" using False by auto
    ultimately show ?thesis using "3.IH" [of m] "3.prems" by (simp del: hit.simps partially.simps woken.simps)
  next
    case h: True
    show ?thesis
    proof (cases "partially m ?e")
      case True
      then have "idle_event ok m fd ev = Inl Assert_failed" using spec h by auto
      with True show ?thesis by simp
    next
      case False
      with h have c: "\<not> (events_of m fd AND real_events ev = 0 \<or> \<not> ok)" "\<not> real_events ev AND NOT (events_of m fd) \<noteq> 0" by auto
      from spec [unfolded if_not_P [OF c(1)] if_not_P [OF c(2)]] obtain m1 where m1: "idle_event ok m fd ev = Inr m1" "iom_inv m1" "scheduled m1 = scheduled m @ tasks_of m fd (real_events ev)"
          "\<forall>fd' ev'. is_event ev' \<longrightarrow> registered m1 fd' ev' = (if fd' = fd \<and> real_events ev AND ev' \<noteq> 0 then None else registered m fd' ev')"
        by blast
      have same: "hit m1 e = hit m e \<and> partially m1 e = partially m e \<and> woken m1 e = woken m e" if "e \<in> set evs" for e
      proof -
        have "registered m1 f x = registered m f x" if "f \<in> set (reported evs)" "is_event x" for f x
          using m1(4) that other by auto
        then show ?thesis using entry_cong [OF "3.prems"(1) m1(2) _ reported_sub [OF that]] by blast
      qed
      have "taken m (?e # evs) f x \<longleftrightarrow> f = fd \<and> real_events ev AND x \<noteq> 0 \<or> taken m1 evs f x" if "is_event x" for f x
      proof (cases "f = fd")
        case True
        then show ?thesis using h other reported_mem by (fastforce simp: taken_def)
      next
        case False
        then have "events_of m1 f = events_of m f" using events_of_cong [OF "3.prems"(1) m1(2), of f] m1(4) by simp
        with False show ?thesis by (simp add: taken_def)
      qed
      note tk = this
      have eqs: "list_ex (partially m1) evs = list_ex (partially m) evs" "map (woken m1) evs = map (woken m) evs"
        using same by (auto simp: list_ex_iff)
      have IH: "if list_ex (partially m) evs then idle_events m1 evs = Inl Assert_failed
          else \<exists>m'. idle_events m1 evs = Inr m' \<and> iom_inv m' \<and> scheduled m' = scheduled m1 @ concat (map (woken m) evs)
            \<and> (\<forall>fd ev. is_event ev \<longrightarrow> registered m' fd ev = (if taken m1 evs fd ev then None else registered m1 fd ev))"
        using "3.IH" [OF m1(1,2)] "3.prems"(2,3) idle_event_length [OF m1(1)] unfolding eqs by simp
      show ?thesis
      proof (cases "list_ex (partially m) evs")
        case True
        then show ?thesis using IH m1(1) by simp
      next
        case rest: False
        from IH [unfolded if_not_P [OF rest]] obtain m' where m': "idle_events m1 evs = Inr m'" "iom_inv m'"
            "scheduled m' = scheduled m1 @ concat (map (woken m) evs)"
            "\<forall>fd ev. is_event ev \<longrightarrow> registered m' fd ev = (if taken m1 evs fd ev then None else registered m1 fd ev)" by blast
        have "registered m' f x = (if taken m (?e # evs) f x then None else registered m f x)" if "is_event x" for f x
          using m'(4) m1(4) tk [OF that] that by simp blast
        moreover have "scheduled m' = scheduled m @ concat (map (woken m) (?e # evs))" using h by (simp add: m'(3) m1(3))
        ultimately show ?thesis using m'(1,2) m1(1) False rest by (auto simp del: partially.simps)
      qed
    qed
  qed
qed

section \<open>The timers of one round\<close>

lemma schedule_all_queue:
  "m_fibers (snd (schedule_all s cbs)) = m_fibers s @ map (\<lambda>cb. cb_task cb (- 1)) (filter (\<lambda>cb. cb \<noteq> None) cbs)"
  by (induction s cbs rule: schedule_all.induct) (auto simp: scheduleNoLock_def cb_task_def split: prod.splits)

definition fired :: "(callback \<Rightarrow> nat) \<Rightarrow> u64 \<Rightarrow> timer_manager \<Rightarrow> task list" where
  "fired name now tm = map (\<lambda>cb. cb_task cb (- 1)) (filter (\<lambda>cb. cb \<noteq> None) (map (\<lambda>p. map_option name (m_cb (the (tm_heap tm p)))) (due now tm)))"

lemma idle_timeout_bound: "sint (idle_timeout t) \<le> 3000"
  by (auto simp: idle_timeout_def MAX_TIMEOUT_def)

lemma due_after_time:
  assumes "getTimeOfNextTimer now1 tm = (w, tm1)"
  shows "due now tm1 = due now tm \<and> tm_heap tm1 = tm_heap tm"
proof -
  have "tm1 = tm \<or> tm1 = tm\<lparr>m_tickled := False\<rparr>" using getTimeOfNextTimer_state [of now1 tm] assms by (auto split: if_splits)
  then show ?thesis by (auto simp: due_def rollover_at_def detectClockRollover_def nxt_def)
qed

section \<open>Properties\<close>



end
