(* ===== verification/Fd_Manager.thy ===== *)
theory Fd_Manager
  imports Prelude
begin

text \<open>
  The table of file descriptor contexts of windgent/fd_manager.h and windgent/fd_manager.cc. A
  \<open>FdCtx::ptr\<close> is an address into a heap of contexts, \<open>m_fds\<close> the vector of pointers. What the
  kernel knows of a descriptor (whether \<open>fstat\<close> succeeds and finds a socket, whether \<open>O_NONBLOCK\<close> is
  set) is the record \<open>kernel\<close>. \<open>FdManager::get\<close> takes the read lock, releases it, and takes the write
  lock: the two critical sections are separate definitions, so that the interleavings of two threads
  can be stated; \<open>fm_get\<close> runs them one after the other.
\<close>

record kernel =
  k_stat :: "int \<Rightarrow> bool option"
  k_nonblock :: "int \<Rightarrow> bool"

record fd_ctx =
  m_isInit :: bool
  m_isSocket :: bool
  m_sysNonblock :: bool
  m_userNonblock :: bool
  m_isClosed :: bool
  m_fd :: int
  m_recvTimeout :: u64
  m_sendTimeout :: u64

section \<open>Contexts\<close>

definition FdCtx_init :: "kernel \<Rightarrow> fd_ctx \<Rightarrow> bool \<times> fd_ctx \<times> kernel" where
  "FdCtx_init k c =
     (if m_isInit c then (True, c, k)
      else
        let c = c\<lparr>m_recvTimeout := - 1, m_sendTimeout := - 1\<rparr>;
            c = (case k_stat k (m_fd c) of
                   None \<Rightarrow> c\<lparr>m_isInit := False, m_isSocket := False\<rparr>
                 | Some sock \<Rightarrow> c\<lparr>m_isInit := True, m_isSocket := sock\<rparr>);
            k = (if m_isSocket c \<and> \<not> k_nonblock k (m_fd c)
                 then k\<lparr>k_nonblock := (k_nonblock k)(m_fd c := True)\<rparr> else k);
            c = c\<lparr>m_sysNonblock := m_isSocket c, m_userNonblock := False, m_isClosed := False\<rparr> in
        (m_isInit c, c, k))"

definition FdCtx_new :: "kernel \<Rightarrow> int \<Rightarrow> fd_ctx \<times> kernel" where
  "FdCtx_new k fd =
     snd (FdCtx_init k \<lparr>m_isInit = False, m_isSocket = False, m_sysNonblock = False,
       m_userNonblock = False, m_isClosed = False, m_fd = fd, m_recvTimeout = - 1, m_sendTimeout = - 1\<rparr>)"

text \<open>The \<open>type\<close> argument is \<open>SO_RCVTIMEO\<close> or anything else.\<close>

definition setTimeout :: "fd_ctx \<Rightarrow> bool \<Rightarrow> u64 \<Rightarrow> fd_ctx" where
  "setTimeout c rcv v = (if rcv then c\<lparr>m_recvTimeout := v\<rparr> else c\<lparr>m_sendTimeout := v\<rparr>)"

definition getTimeout :: "fd_ctx \<Rightarrow> bool \<Rightarrow> u64" where
  "getTimeout c rcv = (if rcv then m_recvTimeout c else m_sendTimeout c)"

section \<open>The table\<close>

record fd_manager =
  fm_heap :: "nat \<rightharpoonup> fd_ctx"
  m_fds :: "nat option list"
  fm_kernel :: kernel

definition FdManager_new :: "kernel \<Rightarrow> fd_manager" where
  "FdManager_new k = \<lparr>fm_heap = Map.empty, m_fds = replicate 64 None, fm_kernel = k\<rparr>"

text \<open>
  \<open>m_fds[fd]\<close> for an \<open>int\<close>: a negative index converts to a huge \<open>size_t\<close>. \<open>resize\<close> keeps a prefix and
  fills with null pointers; \<open>fd * 1.5\<close> is a \<open>double\<close>, truncated.
\<close>

definition vec_at :: "nat option list \<Rightarrow> int \<Rightarrow> nat option result" where
  "vec_at xs fd = (if 0 \<le> fd \<and> fd < int (length xs) then Inr (xs ! nat fd) else Inl Out_of_bounds)"

definition vec_set :: "nat option list \<Rightarrow> int \<Rightarrow> nat option \<Rightarrow> nat option list result" where
  "vec_set xs fd p =
     (if 0 \<le> fd \<and> fd < int (length xs) then Inr (xs[nat fd := p]) else Inl Out_of_bounds)"

definition vec_resize :: "nat \<Rightarrow> nat option list \<Rightarrow> nat option list" where
  "vec_resize n xs = take n xs @ replicate (n - length xs) None"

text \<open>The section under the read lock: \<open>Some r\<close> returns \<open>r\<close>, \<open>None\<close> goes on to the write lock.\<close>

definition get_read :: "fd_manager \<Rightarrow> int \<Rightarrow> bool \<Rightarrow> nat option option result" where
  "get_read m fd auto_create =
     (if fd = - 1 then Inr (Some None)
      else if int (length (m_fds m)) \<le> fd then
        if \<not> auto_create then Inr (Some None) else Inr None
      else rbind (vec_at (m_fds m) fd) (\<lambda>p.
        if p \<noteq> None \<or> \<not> auto_create then Inr (Some p) else Inr None))"

text \<open>The section under the write lock; \<open>p\<close> is the address of the new context.\<close>

definition get_write :: "nat \<Rightarrow> fd_manager \<Rightarrow> int \<Rightarrow> (nat option \<times> fd_manager) result" where
  "get_write p m fd =
     (let (ctx, k) = FdCtx_new (fm_kernel m) fd;
          fds = (if fd \<ge> int (length (m_fds m)) then vec_resize (nat (fd * 3 div 2)) (m_fds m) else m_fds m) in
      rbind (vec_set fds fd (Some p)) (\<lambda>fds.
        Inr (Some p, m\<lparr>fm_heap := (fm_heap m)(p \<mapsto> ctx), m_fds := fds, fm_kernel := k\<rparr>)))"

definition fm_get :: "nat \<Rightarrow> fd_manager \<Rightarrow> int \<Rightarrow> bool \<Rightarrow> (nat option \<times> fd_manager) result" where
  "fm_get p m fd auto_create =
     rbind (get_read m fd auto_create) (\<lambda>r.
       case r of Some res \<Rightarrow> Inr (res, m) | None \<Rightarrow> get_write p m fd)"

definition fm_del :: "fd_manager \<Rightarrow> int \<Rightarrow> fd_manager result" where
  "fm_del m fd =
     (if int (length (m_fds m)) \<le> fd then Inr m
      else rbind (vec_set (m_fds m) fd None) (\<lambda>fds. Inr (m\<lparr>m_fds := fds\<rparr>)))"

section \<open>The table as a map\<close>

definition fd_map :: "fd_manager \<Rightarrow> int \<Rightarrow> nat option" where
  "fd_map m fd = (if 0 \<le> fd \<and> fd < int (length (m_fds m)) then m_fds m ! nat fd else None)"

text \<open>
  The vector never shrinks below the 64 entries of the constructor, so \<open>fd * 1.5\<close> is more than \<open>fd\<close>
  whenever the vector has to grow; every entry is a context made for its descriptor.
\<close>

definition fm_inv :: "fd_manager \<Rightarrow> bool" where
  "fm_inv m \<longleftrightarrow> 64 \<le> length (m_fds m)
     \<and> (\<forall>fd p. fd_map m fd = Some p \<longrightarrow> (\<exists>c. fm_heap m p = Some c \<and> m_fd c = fd))"

lemma nth_vec_resize:
  "i < n \<Longrightarrow> length xs \<le> n \<Longrightarrow> vec_resize n xs ! i = (if i < length xs then xs ! i else None)"
  by (auto simp: vec_resize_def nth_append)

lemma length_vec_resize: "length (vec_resize n xs) = n"
  by (simp add: vec_resize_def)

lemma m_fd_FdCtx_new [simp]: "m_fd (fst (FdCtx_new k fd)) = fd"
  by (simp add: FdCtx_new_def FdCtx_init_def Let_def split: option.split)

lemma fm_inv_new: "fm_inv (FdManager_new k)"
  by (auto simp: fm_inv_def FdManager_new_def fd_map_def)

lemma FdManager_new_empty [simp]: "fd_map (FdManager_new k) fd = None" "dom (fm_heap (FdManager_new k)) = {}"
  by (auto simp: FdManager_new_def fd_map_def)

lemma get_read_nonneg:
  "0 \<le> fd \<Longrightarrow> get_read m fd ac = Inr (if fd_map m fd \<noteq> None \<or> \<not> ac then Some (fd_map m fd) else None)"
  by (auto simp: get_read_def vec_at_def fd_map_def)

lemma get_write_spec:
  assumes "fm_inv m" "0 \<le> fd"
  obtains m' where "get_write p m fd = Inr (Some p, m')" "fd_map m' = (fd_map m)(fd \<mapsto> p)"
    "fm_heap m' = (fm_heap m)(p \<mapsto> fst (FdCtx_new (fm_kernel m) fd))"
    "length (m_fds m) \<le> length (m_fds m')" "fm_kernel m' = snd (FdCtx_new (fm_kernel m) fd)"
proof -
  let ?n = "nat (fd * 3 div 2)"
  define fds where "fds = (if fd \<ge> int (length (m_fds m)) then vec_resize ?n (m_fds m) else m_fds m)"
  have len: "64 \<le> length (m_fds m)" using assms(1) by (simp add: fm_inv_def)
  have n: "fd < int ?n \<and> length (m_fds m) \<le> ?n" if "int (length (m_fds m)) \<le> fd"
    using that len by auto
  have fd: "fd < int (length fds)" using n by (auto simp: fds_def length_vec_resize)
  have longer: "length (m_fds m) \<le> length fds" using n by (auto simp: fds_def length_vec_resize)
  have same: "(if 0 \<le> f \<and> f < int (length fds) then fds ! nat f else None) = fd_map m f" for f
    using n by (auto simp: fds_def fd_map_def length_vec_resize nth_vec_resize)
  let ?m = "m\<lparr>fm_heap := (fm_heap m)(p \<mapsto> fst (FdCtx_new (fm_kernel m) fd)),
    m_fds := fds[nat fd := Some p], fm_kernel := snd (FdCtx_new (fm_kernel m) fd)\<rparr>"
  have "get_write p m fd = Inr (Some p, ?m)"
    using fd assms(2) by (simp add: get_write_def vec_set_def fds_def Let_def split: prod.split)
  moreover have "fd_map ?m = (fd_map m)(fd \<mapsto> p)"
  proof
    fix f
    show "fd_map ?m f = ((fd_map m)(fd \<mapsto> p)) f"
      using same [of f] fd assms(2) by (auto simp: fd_map_def nth_list_update nat_eq_iff2 split: if_splits)
  qed
  ultimately show ?thesis using longer by (intro that [of ?m]) auto
qed

text \<open>
  \<^bold>\<open>C21\<close>. The table refines a map from descriptors to contexts. \<open>get(fd, false)\<close> looks up; \<open>get(fd,
  true)\<close> returns the context that is there and otherwise stores a new one, initialised for \<open>fd\<close>, without an access
  out of bounds; \<open>del\<close> removes; no other descriptor is touched and the invariant is kept. \<open>p\<close> is the
  address of a new context.
\<close>

theorem FdManager_refines_map:
  assumes "fm_inv m" "0 \<le> fd" "p \<notin> dom (fm_heap m)"
  shows "fm_get p m fd False = Inr (fd_map m fd, m)
    \<and> (\<exists>m'. fm_get p m fd True = Inr (fd_map m' fd, m') \<and> fm_inv m'
         \<and> fd_map m' = (case fd_map m fd of Some _ \<Rightarrow> fd_map m | None \<Rightarrow> (fd_map m)(fd \<mapsto> p))
         \<and> (fd_map m fd = None \<longrightarrow> fm_heap m' p = Some (fst (FdCtx_new (fm_kernel m) fd))))
    \<and> (\<exists>m'. fm_del m fd = Inr m' \<and> fm_inv m' \<and> fd_map m' = (fd_map m)(fd := None))"
proof (intro conjI)
  show "fm_get p m fd False = Inr (fd_map m fd, m)"
    using get_read_nonneg [OF assms(2), of m False] by (simp add: fm_get_def)
next
  note get = get_read_nonneg [OF assms(2), of m True]
  show "\<exists>m'. fm_get p m fd True = Inr (fd_map m' fd, m') \<and> fm_inv m'
         \<and> fd_map m' = (case fd_map m fd of Some _ \<Rightarrow> fd_map m | None \<Rightarrow> (fd_map m)(fd \<mapsto> p))
         \<and> (fd_map m fd = None \<longrightarrow> fm_heap m' p = Some (fst (FdCtx_new (fm_kernel m) fd)))"
  proof (cases "fd_map m fd")
    case None
    obtain m' where m': "get_write p m fd = Inr (Some p, m')" "fd_map m' = (fd_map m)(fd \<mapsto> p)"
      "fm_heap m' = (fm_heap m)(p \<mapsto> fst (FdCtx_new (fm_kernel m) fd))"
      "length (m_fds m) \<le> length (m_fds m')"
      using get_write_spec [OF assms(1,2)] by metis
    have "fm_inv m'" using assms m'(2-4) by (auto simp: fm_inv_def split: if_splits)
    with None m' get show ?thesis by (auto simp: fm_get_def)
  next
    case (Some q)
    with get assms(1) show ?thesis by (simp add: fm_get_def)
  qed
next
  show "\<exists>m'. fm_del m fd = Inr m' \<and> fm_inv m' \<and> fd_map m' = (fd_map m)(fd := None)"
  proof (cases "int (length (m_fds m)) \<le> fd")
    case True
    then have "fd_map m fd = None" by (simp add: fd_map_def)
    with True assms(1) show ?thesis by (simp add: fm_del_def fun_upd_idem)
  next
    case False
    let ?m = "m\<lparr>m_fds := (m_fds m)[nat fd := None]\<rparr>"
    have map: "fd_map ?m = (fd_map m)(fd := None)"
      using False assms(2) by (auto simp: fd_map_def nth_list_update nat_eq_iff2)
    have "fm_inv ?m" using assms(1) by (auto simp: fm_inv_def map split: if_splits)
    with False assms(2) map show ?thesis by (simp add: fm_del_def vec_set_def)
  qed
qed

theorem FdManager_refines_map_witness:
  "\<exists>m'. fm_get 1 (FdManager_new \<lparr>k_stat = \<lambda>_. Some True, k_nonblock = \<lambda>_. False\<rparr>) 100 True
     = Inr (fd_map m' 100, m') \<and> fd_map m' 100 = Some 1"
  using FdManager_refines_map [OF fm_inv_new, of 100 1 "\<lparr>k_stat = \<lambda>_. Some True, k_nonblock = \<lambda>_. False\<rparr>"]
  by (auto simp del: One_nat_def)

text \<open>
  \<open>get(fd, true)\<close> is not atomic: when two threads ask for a descriptor that has no context,
  and both pass the section under the read lock before either takes the write lock, they get two
  different contexts and the table keeps only the second one. Settings made through the first
  (timeouts, the non-blocking flag) are lost.
\<close>

lemma get_race_two_contexts:
  assumes "fm_inv m" "0 \<le> fd" "fd_map m fd = None" "p \<noteq> q"
  shows "\<exists>m1 m2. get_read m fd True = Inr None
    \<and> get_write p m fd = Inr (Some p, m1) \<and> get_write q m1 fd = Inr (Some q, m2)
    \<and> fd_map m2 fd = Some q \<and> (\<exists>c. fm_heap m2 p = Some c \<and> m_fd c = fd)"
proof -
  obtain m1 where m1: "get_write p m fd = Inr (Some p, m1)" "fd_map m1 = (fd_map m)(fd \<mapsto> p)"
    "fm_heap m1 = (fm_heap m)(p \<mapsto> fst (FdCtx_new (fm_kernel m) fd))" "length (m_fds m) \<le> length (m_fds m1)"
    using get_write_spec [OF assms(1,2)] by metis
  have "fd_map m1 fd = Some p" using m1(2) by simp
  then have "fd < int (length (m_fds m1))" by (simp add: fd_map_def split: if_splits)
  then have lt: "nat fd < length (m_fds m1)" "fd < int (length (m_fds m1))" using assms(2) by auto
  let ?k = "FdCtx_new (fm_kernel m1) fd"
  let ?m2 = "m1\<lparr>fm_heap := (fm_heap m1)(q \<mapsto> fst ?k), m_fds := (m_fds m1)[nat fd := Some q], fm_kernel := snd ?k\<rparr>"
  have "get_write q m1 fd = Inr (Some q, ?m2)"
    using lt assms(2) by (simp add: get_write_def vec_set_def Let_def split: prod.split)
  moreover have "fd_map ?m2 fd = Some q" using lt assms(2) by (simp add: fd_map_def)
  moreover have "\<exists>c. fm_heap ?m2 p = Some c \<and> m_fd c = fd" using m1(3) assms(4) by simp
  ultimately show ?thesis using m1(1) assms(3) get_read_nonneg [OF assms(2), of m True] by fastforce
qed

end
