(* ===== verification/Strings.thy ===== *)
theory Strings
  imports Prelude
begin

text \<open>
  What the sources use of \<open>std::string\<close>, C strings and stream output: the C string of a \<open>std::string\<close>, which
  ends at the first NUL, and the decimal and hexadecimal text of an unsigned integer.
\<close>

definition c_str :: "string \<Rightarrow> string" where
  "c_str s = takeWhile (\<lambda>c. c \<noteq> CHR 0x00) s"

fun digits :: "nat \<Rightarrow> string" where
  "digits n = (if n < 10 then [char_of (48 + n)] else digits (n div 10) @ [char_of (48 + n mod 10)])"

declare digits.simps [simp del]

lemma digits_ne [simp]: "digits n \<noteq> []"
  by (subst digits.simps) simp

text \<open>\<open>os << n\<close> for a signed integer.\<close>

definition int_digits :: "int \<Rightarrow> string" where
  "int_digits n = (if n < 0 then CHR ''-'' # digits (nat (- n)) else digits (nat n))"

definition hex_digit :: "nat \<Rightarrow> char" where
  "hex_digit d = char_of (if d < 10 then 48 + d else 87 + d)"

text \<open>\<open>os << std::hex << n\<close>.\<close>

fun hex_digits :: "nat \<Rightarrow> string" where
  "hex_digits n = (if n < 16 then [hex_digit n] else hex_digits (n div 16) @ [hex_digit (n mod 16)])"

declare hex_digits.simps [simp del]

lemma c_str_no_nul: "CHR 0x00 \<notin> set s \<Longrightarrow> c_str (s @ CHR 0x00 # t) = s"
  unfolding c_str_def by (induction s) auto

lemma c_str_id: "CHR 0x00 \<notin> set s \<Longrightarrow> c_str s = s"
  unfolding c_str_def by (induction s) auto

section \<open>Bytes and characters\<close>

definition to_bytes :: "string \<Rightarrow> byte list" where
  "to_bytes s = map of_char s"

definition to_string :: "byte list \<Rightarrow> string" where
  "to_string bs = map (\<lambda>b. char_of (unat b)) bs"

lemma length_to_bytes [simp]: "length (to_bytes s) = length s" "length (to_string bs) = length bs"
  by (simp_all add: to_bytes_def to_string_def)

lemma to_string_to_bytes [simp]: "to_string (to_bytes s) = s"
proof -
  have "unat (of_char c :: byte) = of_char c" for c
  proof -
    have "(of_char c :: nat) < 2 ^ 8" using nat_of_char_less_256 [of c] by simp
    moreover have "(of_char c :: byte) = of_nat (of_char c)" by (simp add: of_nat_of_char)
    ultimately show ?thesis by (simp add: unat_of_nat take_bit_nat_eq_self del: of_nat_of_char)
  qed
  then show ?thesis by (simp add: to_bytes_def to_string_def comp_def)
qed

lemma to_bytes_append [simp]: "to_bytes (s @ t) = to_bytes s @ to_bytes t"
  by (simp add: to_bytes_def)

lemma to_string_append [simp]: "to_string (s @ t) = to_string s @ to_string t"
  by (simp add: to_string_def)

lemma to_bytes_to_string [simp]: "to_bytes (to_string bs) = bs"
proof -
  have "of_char (char_of (unat b) :: char) = b" for b :: byte
  proof -
    have "(of_char (char_of (unat b) :: char) :: byte) = of_nat (of_char (char_of (unat b) :: char))" by (simp only: of_nat_of_char)
    also have "\<dots> = of_nat (unat b mod 256)" by simp
    finally show ?thesis using unsigned_less [of b, where ?'a = nat] by simp
  qed
  then show ?thesis by (simp add: to_bytes_def to_string_def comp_def)
qed

end
