(* ===== verification/Http.thy ===== *)
theory Http
  imports Ordered Strings "HOL-Library.List_Lexorder" "HOL-Library.Sublist"
begin

text \<open>
  Requests and responses of windgent/http/http.h and windgent/http/http.cc: the method and status
  tables, the case insensitive maps, the accessors, and the printing of messages. A \<open>std::string\<close> is a
  \<open>string\<close>; \<open>c_str()\<close> is read up to the first NUL, as the C functions do; \<open>strcasecmp\<close> compares in the C
  locale. The maps are \<open>std::map\<close> with the comparator \<open>CaseInsentiveLess\<close> (theory Ordered).
\<close>

section \<open>Comparing C strings\<close>

definition tolower :: "nat \<Rightarrow> nat" where
  "tolower n = (if 65 \<le> n \<and> n \<le> 90 then n + 32 else n)"

definition fold_case :: "string \<Rightarrow> nat list" where
  "fold_case s = map (\<lambda>c. tolower (of_char c)) (c_str s)"

definition strcasecmp :: "string \<Rightarrow> string \<Rightarrow> int" where
  "strcasecmp a b = (if fold_case a < fold_case b then - 1 else if fold_case a = fold_case b then 0 else 1)"

definition strncmp_eq :: "string \<Rightarrow> string \<Rightarrow> nat \<Rightarrow> bool" where
  "strncmp_eq a b n \<longleftrightarrow> take n (c_str a) = take n (c_str b)"

section \<open>Methods and status codes\<close>

datatype http_method =
    DELETE | GET | HEAD | POST | PUT | CONNECT | OPTIONS | TRACE | COPY | LOCK | MKCOL | MOVE |
    PROPFIND | PROPPATCH | SEARCH | UNLOCK | BIND | REBIND | UNBIND | ACL | REPORT |
    MKACTIVITY | CHECKOUT | MERGE | MSEARCH | NOTIFY | SUBSCRIBE | UNSUBSCRIBE | PATCH |
    PURGE | MKCALENDAR | LINK | UNLINK | SOURCE | INVALID_METHOD

text \<open>The method table, in the order of the numbers of the enumeration.\<close>

definition HTTP_METHOD_MAP :: "(http_method \<times> string) list" where
  "HTTP_METHOD_MAP =
    [(DELETE, ''DELETE''), (GET, ''GET''), (HEAD, ''HEAD''), (POST, ''POST''), (PUT, ''PUT''),
     (CONNECT, ''CONNECT''), (OPTIONS, ''OPTIONS''), (TRACE, ''TRACE''), (COPY, ''COPY''),
     (LOCK, ''LOCK''), (MKCOL, ''MKCOL''), (MOVE, ''MOVE''), (PROPFIND, ''PROPFIND''),
     (PROPPATCH, ''PROPPATCH''), (SEARCH, ''SEARCH''), (UNLOCK, ''UNLOCK''), (BIND, ''BIND''),
     (REBIND, ''REBIND''), (UNBIND, ''UNBIND''), (ACL, ''ACL''), (REPORT, ''REPORT''),
     (MKACTIVITY, ''MKACTIVITY''), (CHECKOUT, ''CHECKOUT''), (MERGE, ''MERGE''),
     (MSEARCH, ''M-SEARCH''), (NOTIFY, ''NOTIFY''), (SUBSCRIBE, ''SUBSCRIBE''),
     (UNSUBSCRIBE, ''UNSUBSCRIBE''), (PATCH, ''PATCH''), (PURGE, ''PURGE''),
     (MKCALENDAR, ''MKCALENDAR''), (LINK, ''LINK''), (UNLINK, ''UNLINK''), (SOURCE, ''SOURCE'')]"

definition HTTP_STATUS_MAP :: "(nat \<times> string) list" where
  "HTTP_STATUS_MAP =
    [(100, ''Continue''), (101, ''Switching Protocols''), (102, ''Processing''), (200, ''OK''),
     (201, ''Created''), (202, ''Accepted''), (203, ''Non-Authoritative Information''),
     (204, ''No Content''), (205, ''Reset Content''), (206, ''Partial Content''),
     (207, ''Multi-Status''), (208, ''Already Reported''), (226, ''IM Used''),
     (300, ''Multiple Choices''), (301, ''Moved Permanently''), (302, ''Found''),
     (303, ''See Other''), (304, ''Not Modified''), (305, ''Use Proxy''),
     (307, ''Temporary Redirect''), (308, ''Permanent Redirect''), (400, ''Bad Request''),
     (401, ''Unauthorized''), (402, ''Payment Required''), (403, ''Forbidden''),
     (404, ''Not Found''), (405, ''Method Not Allowed''), (406, ''Not Acceptable''),
     (407, ''Proxy Authentication Required''), (408, ''Request Timeout''), (409, ''Conflict''),
     (410, ''Gone''), (411, ''Length Required''), (412, ''Precondition Failed''),
     (413, ''Payload Too Large''), (414, ''URI Too Long''), (415, ''Unsupported Media Type''),
     (416, ''Range Not Satisfiable''), (417, ''Expectation Failed''),
     (421, ''Misdirected Request''), (422, ''Unprocessable Entity''), (423, ''Locked''),
     (424, ''Failed Dependency''), (426, ''Upgrade Required''),
     (428, ''Precondition Required''), (429, ''Too Many Requests''),
     (431, ''Request Header Fields Too Large''), (451, ''Unavailable For Legal Reasons''),
     (500, ''Internal Server Error''), (501, ''Not Implemented''), (502, ''Bad Gateway''),
     (503, ''Service Unavailable''), (504, ''Gateway Timeout''),
     (505, ''HTTP Version Not Supported''), (506, ''Variant Also Negotiates''),
     (507, ''Insufficient Storage''), (508, ''Loop Detected''), (510, ''Not Extended''),
     (511, ''Network Authentication Required'')]"

text \<open>The macro expands to a chain of comparisons in the order of the table.\<close>

definition String2HttpMethod :: "string \<Rightarrow> http_method" where
  "String2HttpMethod m =
     (case filter (\<lambda>(name, str). str = c_str m) HTTP_METHOD_MAP of (name, _) # _ \<Rightarrow> name | [] \<Rightarrow> INVALID_METHOD)"

definition Chars2HttpMethod :: "string \<Rightarrow> http_method" where
  "Chars2HttpMethod m =
     (case filter (\<lambda>(name, str). strncmp_eq str m (length str)) HTTP_METHOD_MAP of
        (name, _) # _ \<Rightarrow> name | [] \<Rightarrow> INVALID_METHOD)"

definition method_num :: "http_method \<Rightarrow> nat" where
  "method_num m = length (takeWhile (\<lambda>(name, _). name \<noteq> m) HTTP_METHOD_MAP)"

definition HttpMethod2String :: "http_method \<Rightarrow> string" where
  "HttpMethod2String m =
     (let idx = method_num m in
      if idx \<ge> length HTTP_METHOD_MAP then ''<unknown>'' else snd (HTTP_METHOD_MAP ! idx))"

definition HttpStatus2String :: "nat \<Rightarrow> string" where
  "HttpStatus2String s = (case map_of HTTP_STATUS_MAP s of Some msg \<Rightarrow> msg | None \<Rightarrow> ''<unknown'')"

section \<open>Header maps\<close>

definition CaseInsentiveLess :: "string \<Rightarrow> string \<Rightarrow> bool" where
  "CaseInsentiveLess lhs rhs \<longleftrightarrow> strcasecmp lhs rhs < 0"

type_synonym header_map = "(string \<times> string) list"

abbreviation hfind :: "string \<Rightarrow> header_map \<Rightarrow> string option" where
  "hfind \<equiv> map_find CaseInsentiveLess"

text \<open>\<open>getAs\<close> and \<open>checkGetAs\<close>; \<open>cast\<close> is \<open>boost::lexical_cast\<close>, \<open>None\<close> when it throws.\<close>

definition getAs :: "(string \<Rightarrow> 'a option) \<Rightarrow> header_map \<Rightarrow> string \<Rightarrow> 'a \<Rightarrow> 'a" where
  "getAs cast m key def =
     (case hfind key m of None \<Rightarrow> def | Some v \<Rightarrow> (case cast v of Some x \<Rightarrow> x | None \<Rightarrow> def))"

definition checkGetAs :: "(string \<Rightarrow> 'a option) \<Rightarrow> header_map \<Rightarrow> string \<Rightarrow> 'a \<Rightarrow> bool \<times> 'a" where
  "checkGetAs cast m key def =
     (case hfind key m of None \<Rightarrow> (False, def) | Some v \<Rightarrow> (case cast v of Some x \<Rightarrow> (True, x) | None \<Rightarrow> (False, def)))"

section \<open>Requests and responses\<close>

record http_request =
  q_method :: http_method
  q_version :: byte
  q_close :: bool
  q_path :: string
  q_query :: string
  q_fragment :: string
  q_body :: string
  q_headers :: header_map
  q_params :: header_map
  q_cookies :: header_map

record http_response =
  p_status :: nat
  p_version :: byte
  p_close :: bool
  p_reason :: string
  p_body :: string
  p_headers :: header_map

definition HttpRequest_new :: "byte \<Rightarrow> bool \<Rightarrow> http_request" where
  "HttpRequest_new version close =
     \<lparr>q_method = GET, q_version = version, q_close = close, q_path = ''/'', q_query = [], q_fragment = [],
      q_body = [], q_headers = [], q_params = [], q_cookies = []\<rparr>"

definition getHeader :: "http_request \<Rightarrow> string \<Rightarrow> string \<Rightarrow> string" where
  "getHeader q key def = (case hfind key (q_headers q) of Some v \<Rightarrow> v | None \<Rightarrow> def)"

definition getParam :: "http_request \<Rightarrow> string \<Rightarrow> string \<Rightarrow> string" where
  "getParam q key def = (case hfind key (q_params q) of Some v \<Rightarrow> v | None \<Rightarrow> def)"

definition getCookie :: "http_request \<Rightarrow> string \<Rightarrow> string \<Rightarrow> string" where
  "getCookie q key def = (case hfind key (q_cookies q) of Some v \<Rightarrow> v | None \<Rightarrow> def)"

definition setHeader :: "http_request \<Rightarrow> string \<Rightarrow> string \<Rightarrow> http_request" where
  "setHeader q key val = q\<lparr>q_headers := map_put CaseInsentiveLess key val (q_headers q)\<rparr>"

definition setParam :: "http_request \<Rightarrow> string \<Rightarrow> string \<Rightarrow> http_request" where
  "setParam q key val = q\<lparr>q_params := map_put CaseInsentiveLess key val (q_params q)\<rparr>"

definition setCookie :: "http_request \<Rightarrow> string \<Rightarrow> string \<Rightarrow> http_request" where
  "setCookie q key val = q\<lparr>q_cookies := map_put CaseInsentiveLess key val (q_cookies q)\<rparr>"

definition delHeader :: "http_request \<Rightarrow> string \<Rightarrow> http_request" where
  "delHeader q key = q\<lparr>q_headers := map_del CaseInsentiveLess key (q_headers q)\<rparr>"

definition delParam :: "http_request \<Rightarrow> string \<Rightarrow> http_request" where
  "delParam q key = q\<lparr>q_params := map_del CaseInsentiveLess key (q_params q)\<rparr>"

definition delCookie :: "http_request \<Rightarrow> string \<Rightarrow> http_request" where
  "delCookie q key = q\<lparr>q_cookies := map_del CaseInsentiveLess key (q_cookies q)\<rparr>"

text \<open>\<open>hasHeader\<close> and its kin: the value is what is stored through the pointer.\<close>

definition hasHeader :: "http_request \<Rightarrow> string \<Rightarrow> string option" where
  "hasHeader q key = hfind key (q_headers q)"

definition hasParam :: "http_request \<Rightarrow> string \<Rightarrow> string option" where
  "hasParam q key = hfind key (q_params q)"

definition hasCookie :: "http_request \<Rightarrow> string \<Rightarrow> string option" where
  "hasCookie q key = hfind key (q_cookies q)"

text \<open>The converting accessors.\<close>

definition checkGetHeaderAs :: "(string \<Rightarrow> 'a option) \<Rightarrow> http_request \<Rightarrow> string \<Rightarrow> 'a \<Rightarrow> bool \<times> 'a" where
  "checkGetHeaderAs cast q key def = checkGetAs cast (q_headers q) key def"

definition getHeaderAs :: "(string \<Rightarrow> 'a option) \<Rightarrow> http_request \<Rightarrow> string \<Rightarrow> 'a \<Rightarrow> 'a" where
  "getHeaderAs cast q key def = getAs cast (q_headers q) key def"

definition checkGetParamAs :: "(string \<Rightarrow> 'a option) \<Rightarrow> http_request \<Rightarrow> string \<Rightarrow> 'a \<Rightarrow> bool \<times> 'a" where
  "checkGetParamAs cast q key def = checkGetAs cast (q_params q) key def"

definition getParamAs :: "(string \<Rightarrow> 'a option) \<Rightarrow> http_request \<Rightarrow> string \<Rightarrow> 'a \<Rightarrow> 'a" where
  "getParamAs cast q key def = getAs cast (q_params q) key def"

definition checkGetCookieAs :: "(string \<Rightarrow> 'a option) \<Rightarrow> http_request \<Rightarrow> string \<Rightarrow> 'a \<Rightarrow> bool \<times> 'a" where
  "checkGetCookieAs cast q key def = checkGetAs cast (q_cookies q) key def"

definition getCookieAs :: "(string \<Rightarrow> 'a option) \<Rightarrow> http_request \<Rightarrow> string \<Rightarrow> 'a \<Rightarrow> 'a" where
  "getCookieAs cast q key def = getAs cast (q_cookies q) key def"

definition HttpRequest_init :: "http_request \<Rightarrow> http_request" where
  "HttpRequest_init q =
     (let conn = getHeader q ''connection'' [] in
      if conn \<noteq> [] then q\<lparr>q_close := (strcasecmp conn ''keep-alive'' \<noteq> 0)\<rparr> else q)"

definition HttpResponse_new :: "byte \<Rightarrow> bool \<Rightarrow> http_response" where
  "HttpResponse_new version close =
     \<lparr>p_status = 200, p_version = version, p_close = close, p_reason = [], p_body = [], p_headers = []\<rparr>"

definition rsp_getHeader :: "http_response \<Rightarrow> string \<Rightarrow> string \<Rightarrow> string" where
  "rsp_getHeader p key def = (case hfind key (p_headers p) of Some v \<Rightarrow> v | None \<Rightarrow> def)"

definition rsp_setHeader :: "http_response \<Rightarrow> string \<Rightarrow> string \<Rightarrow> http_response" where
  "rsp_setHeader p key val = p\<lparr>p_headers := map_put CaseInsentiveLess key val (p_headers p)\<rparr>"

definition rsp_delHeader :: "http_response \<Rightarrow> string \<Rightarrow> http_response" where
  "rsp_delHeader p key = p\<lparr>p_headers := map_del CaseInsentiveLess key (p_headers p)\<rparr>"

definition rsp_checkGetHeaderAs :: "(string \<Rightarrow> 'a option) \<Rightarrow> http_response \<Rightarrow> string \<Rightarrow> 'a \<Rightarrow> bool \<times> 'a" where
  "rsp_checkGetHeaderAs cast p key def = checkGetAs cast (p_headers p) key def"

definition rsp_getHeaderAs :: "(string \<Rightarrow> 'a option) \<Rightarrow> http_response \<Rightarrow> string \<Rightarrow> 'a \<Rightarrow> 'a" where
  "rsp_getHeaderAs cast p key def = getAs cast (p_headers p) key def"

section \<open>Printing\<close>

abbreviation CR :: char where "CR \<equiv> CHR 0x0D"
abbreviation LF :: char where "LF \<equiv> CHR 0x0A"
abbreviation CRLF :: string where "CRLF \<equiv> [CR, LF]"

definition version_str :: "byte \<Rightarrow> string" where
  "version_str v = digits (unat (drop_bit 4 v)) @ ''.'' @ digits (unat (v AND 0x0F))"

definition header_lines :: "header_map \<Rightarrow> string" where
  "header_lines m = concat (map (\<lambda>(k, v). k @ '': '' @ v @ CRLF) m)"

definition body_part :: "string \<Rightarrow> string" where
  "body_part body =
     (if body \<noteq> [] then ''Content-Length: '' @ digits (length body) @ CRLF @ CRLF @ body else CRLF)"

definition request_dump :: "http_request \<Rightarrow> string" where
  "request_dump q =
     HttpMethod2String (q_method q) @ '' '' @ q_path q @ (if q_query q = [] then [] else ''?'') @ q_query q
     @ (if q_fragment q = [] then [] else ''#'') @ q_fragment q @ '' HTTP/'' @ version_str (q_version q) @ CRLF
     @ ''Connection: '' @ (if q_close q then ''close'' else ''keep-alive'') @ CRLF
     @ header_lines (q_headers q) @ body_part (q_body q)"

definition response_dump :: "http_response \<Rightarrow> string" where
  "response_dump p =
     ''HTTP/'' @ version_str (p_version p) @ '' '' @ digits (p_status p) @ '' ''
     @ (if p_reason p = [] then HttpStatus2String (p_status p) else p_reason p) @ CRLF
     @ header_lines (filter (\<lambda>(k, v). strcasecmp k ''connection'' \<noteq> 0) (p_headers p))
     @ ''Connection: '' @ (if p_close p then ''close'' else ''keep-alive'') @ CRLF @ body_part (p_body p)"

section \<open>The comparator\<close>

interpretation hm: strict_weak CaseInsentiveLess
  by unfold_locales (auto simp: CaseInsentiveLess_def strcasecmp_def split: if_splits)

lemma hm_equiv: "hm.equiv a b \<longleftrightarrow> fold_case a = fold_case b"
  by (auto simp: hm.equiv_def CaseInsentiveLess_def strcasecmp_def split: if_splits)

text \<open>The maps a request can have: built by \<open>set\<close> and \<open>del\<close> from an empty one.\<close>

definition headers_ok :: "http_request \<Rightarrow> bool" where
  "headers_ok q \<longleftrightarrow> hm.ordered_map (q_headers q) \<and> hm.ordered_map (q_params q) \<and> hm.ordered_map (q_cookies q)"

section \<open>Reading a message head\<close>

text \<open>
  What a receiver of a message sees: lines up to CR LF, until an empty line; the rest is the body.
\<close>

function read_head :: "string \<Rightarrow> (string list \<times> string) option" where
  "read_head s =
     (let l = takeWhile (\<lambda>c. c \<noteq> CR) s in
      case dropWhile (\<lambda>c. c \<noteq> CR) s of
        _ # c # rest \<Rightarrow>
          if c \<noteq> LF then None
          else if l = [] then Some ([], rest)
          else (case read_head rest of Some (ls, b) \<Rightarrow> Some (l # ls, b) | None \<Rightarrow> None)
      | _ \<Rightarrow> None)"
  by pat_completeness auto
termination
proof (relation "measure length", simp, goal_cases)
  case (1 s l a list c rest)
  have "length (dropWhile (\<lambda>c. c \<noteq> CR) s) \<le> length s" by (rule length_dropWhile_le)
  with 1 show ?case by simp
qed

declare read_head.simps [simp del]

definition no_cr :: "string \<Rightarrow> bool" where
  "no_cr s \<longleftrightarrow> CR \<notin> set s"

lemma no_cr_simps [simp]: "no_cr []" "no_cr (c # s) \<longleftrightarrow> c \<noteq> CR \<and> no_cr s" "no_cr (s @ t) \<longleftrightarrow> no_cr s \<and> no_cr t"
  by (auto simp: no_cr_def)

lemma read_head_line:
  assumes "no_cr l" "l \<noteq> []"
  shows "read_head (l @ CR # LF # rest) = (case read_head rest of Some (ls, b) \<Rightarrow> Some (l # ls, b) | None \<Rightarrow> None)"
proof -
  have "takeWhile (\<lambda>c. c \<noteq> CR) (l @ CR # LF # rest) = l" "dropWhile (\<lambda>c. c \<noteq> CR) (l @ CR # LF # rest) = CR # LF # rest"
    using assms(1) by (induction l) (auto simp: no_cr_def)
  with assms(2) show ?thesis by (subst read_head.simps) simp
qed

lemma read_head_end: "read_head (CR # LF # rest) = Some ([], rest)"
  by (subst read_head.simps) simp

lemma no_cr_digits [simp]: "no_cr (digits n)"
proof (induction n rule: digits.induct)
  case (1 n)
  have digit: "char_of (48 + d) \<noteq> CR" if "d < 10" for d :: nat
  proof
    assume "char_of (48 + d) = CR"
    then have "of_char (char_of (48 + d)) = (of_char CR :: nat)" by simp
    with that show False by simp
  qed
  show ?case using 1 digit [of n] digit [of "n mod 10"] by (subst digits.simps) auto
qed

definition header_line :: "string \<times> string \<Rightarrow> string" where
  "header_line e = fst e @ '': '' @ snd e"

lemma read_head_headers:
  "list_all (\<lambda>(k, v). no_cr k \<and> no_cr v) m \<Longrightarrow>
   read_head (header_lines m @ rest) =
     (case read_head rest of Some (ls, b) \<Rightarrow> Some (map header_line m @ ls, b) | None \<Rightarrow> None)"
proof (induction m)
  case Nil
  then show ?case by (simp add: header_lines_def split: option.split)
next
  case (Cons e m)
  obtain k v where e: "e = (k, v)" by force
  have "read_head (header_lines (e # m) @ rest) = read_head (header_line e @ CR # LF # header_lines m @ rest)"
    by (simp add: header_lines_def header_line_def e)
  also have "\<dots> = (case read_head (header_lines m @ rest) of Some (ls, b) \<Rightarrow> Some (header_line e # ls, b) | None \<Rightarrow> None)"
    using Cons.prems by (intro read_head_line) (simp_all add: header_line_def e)
  finally show ?case using Cons by (simp split: option.splits)
qed

text \<open>The lines that \<open>body_part\<close> adds.\<close>

definition length_line :: "string \<Rightarrow> string list" where
  "length_line body = (if body = [] then [] else [''Content-Length: '' @ digits (length body)])"

lemma read_head_body: "read_head (body_part body) = Some (length_line body, body)"
proof (cases "body = []")
  case True
  then show ?thesis by (simp add: body_part_def length_line_def read_head_end)
next
  case False
  have "read_head ((''Content-Length: '' @ digits (length body)) @ CR # LF # CR # LF # body)
    = Some ([''Content-Length: '' @ digits (length body)], body)"
    by (subst read_head_line) (simp_all add: read_head_end)
  with False show ?thesis by (simp add: body_part_def length_line_def)
qed

definition connection_line :: "bool \<Rightarrow> string" where
  "connection_line close = ''Connection: '' @ (if close then ''close'' else ''keep-alive'')"

lemma read_head_connection:
  "read_head (connection_line close @ CR # LF # rest)
   = (case read_head rest of Some (ls, b) \<Rightarrow> Some (connection_line close # ls, b) | None \<Rightarrow> None)"
  by (rule read_head_line) (simp_all add: connection_line_def)

lemma no_cr_version [simp]: "no_cr (version_str v)"
  by (simp add: version_str_def)

lemma no_cr_status: "no_cr (HttpStatus2String s)"
proof (cases "map_of HTTP_STATUS_MAP s")
  case (Some msg)
  have "list_all (\<lambda>(_, msg). no_cr msg) HTTP_STATUS_MAP" by (simp add: HTTP_STATUS_MAP_def)
  with map_of_SomeD [OF Some] have "no_cr msg" by (auto simp: list_all_iff)
  with Some show ?thesis by (simp add: HttpStatus2String_def)
qed (simp add: HttpStatus2String_def)

lemma no_cr_method: "no_cr (HttpMethod2String m)"
proof -
  have "list_all (\<lambda>(_, str). no_cr str) HTTP_METHOD_MAP" by (simp add: HTTP_METHOD_MAP_def)
  then have "no_cr (snd (HTTP_METHOD_MAP ! i))" if "i < length HTTP_METHOD_MAP" for i
    using nth_mem [OF that] by (auto simp: list_all_iff)
  then show ?thesis by (simp add: HttpMethod2String_def Let_def)
qed

definition request_line :: "http_request \<Rightarrow> string" where
  "request_line q =
     HttpMethod2String (q_method q) @ '' '' @ q_path q @ (if q_query q = [] then [] else ''?'') @ q_query q
     @ (if q_fragment q = [] then [] else ''#'') @ q_fragment q @ '' HTTP/'' @ version_str (q_version q)"

definition status_line :: "http_response \<Rightarrow> string" where
  "status_line p =
     ''HTTP/'' @ version_str (p_version p) @ '' '' @ digits (p_status p) @ '' ''
     @ (if p_reason p = [] then HttpStatus2String (p_status p) else p_reason p)"

section \<open>The method table\<close>

lemma methods_prefix_free:
  "list_all (\<lambda>(m, a). list_all (\<lambda>(n, b). prefix a b \<longrightarrow> m = n) HTTP_METHOD_MAP) HTTP_METHOD_MAP"
  by code_simp

lemma methods_no_nul: "list_all (\<lambda>(m, a). c_str a = a) HTTP_METHOD_MAP"
  by code_simp

lemma method_listed: "m \<noteq> INVALID_METHOD \<Longrightarrow> (m, HttpMethod2String m) \<in> set HTTP_METHOD_MAP"
  by (cases m) (simp_all add: HttpMethod2String_def method_num_def HTTP_METHOD_MAP_def)

lemma method_of_entry:
  assumes "(m, a) \<in> set HTTP_METHOD_MAP"
  shows "m \<noteq> INVALID_METHOD" "a = HttpMethod2String m"
proof -
  have "list_all (\<lambda>(m, a). m \<noteq> INVALID_METHOD \<and> a = HttpMethod2String m) HTTP_METHOD_MAP" by code_simp
  with assms show "m \<noteq> INVALID_METHOD" "a = HttpMethod2String m" by (auto simp: list_all_iff)
qed

text \<open>The first entry that passes a test that at most one entry passes.\<close>

lemma first_entry:
  assumes "\<And>m n a b. (m, a) \<in> set t \<Longrightarrow> (n, b) \<in> set t \<Longrightarrow> Q a \<Longrightarrow> Q b \<Longrightarrow> m = n" "\<And>a. (d, a) \<notin> set t" "m \<noteq> d"
  shows "(case filter (\<lambda>(n, a). Q a) t of (n, _) # _ \<Rightarrow> n | [] \<Rightarrow> d) = m \<longleftrightarrow> (\<exists>a. (m, a) \<in> set t \<and> Q a)"
proof (cases "filter (\<lambda>(n, a). Q a) t")
  case Nil
  then show ?thesis using assms(3) by (auto simp: filter_empty_conv)
next
  case (Cons e es)
  then obtain n b where e: "e = (n, b)" "(n, b) \<in> set t" "Q b"
    by (metis (no_types, lifting) case_prod_conv filter_eq_ConsD in_set_conv_decomp surj_pair)
  show ?thesis using Cons e assms(1) by auto
qed

lemma strncmp_prefix: "c_str a = a \<Longrightarrow> strncmp_eq a s (length a) \<longleftrightarrow> prefix a (c_str s)"
  by (simp add: strncmp_eq_def prefix_def) (metis append_eq_conv_conj append_take_drop_id)

lemma method_names:
  assumes "m \<noteq> INVALID_METHOD"
  shows "(String2HttpMethod s = m \<longleftrightarrow> c_str s = HttpMethod2String m)
    \<and> (Chars2HttpMethod s = m \<longleftrightarrow> prefix (HttpMethod2String m) (c_str s))"
proof -
  have entries: "(\<exists>a. (m, a) \<in> set HTTP_METHOD_MAP \<and> Q a) \<longleftrightarrow> Q (HttpMethod2String m)" for Q
    using method_listed [OF assms] method_of_entry by blast
  have free: "n = n'" if "(n, a) \<in> set HTTP_METHOD_MAP" "(n', b) \<in> set HTTP_METHOD_MAP" "prefix a b \<or> prefix b a" for n n' a b
    using that methods_prefix_free by (fastforce simp: list_all_iff)
  have inv: "(INVALID_METHOD, a) \<notin> set HTTP_METHOD_MAP" for a using method_of_entry(1) by blast
  have A: "String2HttpMethod s = m \<longleftrightarrow> (\<exists>a. (m, a) \<in> set HTTP_METHOD_MAP \<and> a = c_str s)"
    unfolding String2HttpMethod_def by (rule first_entry) (use free inv assms in auto)
  have nul: "strncmp_eq a s (length a) \<longleftrightarrow> prefix a (c_str s)" if "(n, a) \<in> set HTTP_METHOD_MAP" for n a
    using that methods_no_nul by (intro strncmp_prefix) (auto simp: list_all_iff)
  have B: "Chars2HttpMethod s = m \<longleftrightarrow> (\<exists>a. (m, a) \<in> set HTTP_METHOD_MAP \<and> strncmp_eq a s (length a))"
    unfolding Chars2HttpMethod_def
    by (rule first_entry) (use free inv assms nul prefix_same_cases in \<open>blast+\<close>)
  show ?thesis
    by (simp only: A B entries nul [OF method_listed [OF assms]] eq_commute [of "c_str s"] simp_thms)
qed

lemma chars_method: "m \<noteq> INVALID_METHOD \<Longrightarrow> Chars2HttpMethod s = m \<longleftrightarrow> prefix (HttpMethod2String m) (c_str s)"
  using method_names by blast

section \<open>Map laws\<close>

definition hget :: "header_map \<Rightarrow> string \<Rightarrow> string \<Rightarrow> string" where
  "hget m key def = (case hfind key m of Some v \<Rightarrow> v | None \<Rightarrow> def)"

lemma hget_put [simp]: "hm.ordered_map m \<Longrightarrow>
    hget (map_put CaseInsentiveLess k v m) k' d = (if fold_case k' = fold_case k then v else hget m k' d)"
  by (simp add: hget_def hm.map_find_put hm_equiv)

lemma hget_del [simp]: "hm.ordered_map m \<Longrightarrow>
    hget (map_del CaseInsentiveLess k m) k' d = (if fold_case k' = fold_case k then d else hget m k' d)"
  by (simp add: hget_def hm.map_find_del hm_equiv)

lemma get_hget: "getHeader q k d = hget (q_headers q) k d" "getParam q k d = hget (q_params q) k d"
  "getCookie q k d = hget (q_cookies q) k d"
  by (simp_all add: getHeader_def getParam_def getCookie_def hget_def)

lemmas request_updates = setHeader_def setParam_def setCookie_def delHeader_def delParam_def delCookie_def

section \<open>Properties\<close>

text \<open>
  Method names: for every method but \<open>INVALID_METHOD\<close>, \<open>String2HttpMethod\<close> returns it exactly on its
  name as \<open>HttpMethod2String\<close> prints it, and \<open>Chars2HttpMethod\<close> exactly on the texts that start with that
  name. The two therefore disagree on longer texts: a prefix is enough for \<open>Chars2HttpMethod\<close>.
\<close>

lemma http_method_roundtrip:
  assumes "m \<noteq> INVALID_METHOD"
  shows "(String2HttpMethod s = m \<longleftrightarrow> c_str s = HttpMethod2String m)
    \<and> (Chars2HttpMethod s = m \<longleftrightarrow> prefix (HttpMethod2String m) (c_str s))"
  using method_names [OF assms] .

text \<open>
  Headers, parameters and cookies are three independent maps whose keys ignore case: after a
  set, a lookup under any spelling of the key gives the new value and every other lookup what it gave
  before; after a del, the default; the maps stay sorted by \<open>CaseInsentiveLess\<close>, as the container needs.
\<close>

lemma request_map_laws:
  assumes "headers_ok q"
  shows "headers_ok (HttpRequest_new ver cl)
    \<and> headers_ok (setHeader q k v)
    \<and> headers_ok (setParam q k v)
    \<and> headers_ok (setCookie q k v)
    \<and> headers_ok (delHeader q k)
    \<and> headers_ok (delParam q k)
    \<and> headers_ok (delCookie q k)
    \<and> (getHeader (setHeader q k v) k' d = (if fold_case k' = fold_case k then v else getHeader q k' d))
    \<and> (getParam (setParam q k v) k' d = (if fold_case k' = fold_case k then v else getParam q k' d))
    \<and> (getCookie (setCookie q k v) k' d = (if fold_case k' = fold_case k then v else getCookie q k' d))
    \<and> (getHeader (delHeader q k) k' d = (if fold_case k' = fold_case k then d else getHeader q k' d))
    \<and> (getParam (delParam q k) k' d = (if fold_case k' = fold_case k then d else getParam q k' d))
    \<and> (getCookie (delCookie q k) k' d = (if fold_case k' = fold_case k then d else getCookie q k' d))
    \<and> (getHeader (setParam q k v) k' d = getHeader q k' d)
    \<and> (getHeader (setCookie q k v) k' d = getHeader q k' d)
    \<and> (getParam (setHeader q k v) k' d = getParam q k' d)
    \<and> (getParam (setCookie q k v) k' d = getParam q k' d)
    \<and> (getCookie (setHeader q k v) k' d = getCookie q k' d)
    \<and> (getCookie (setParam q k v) k' d = getCookie q k' d)"
  using assms
  by (simp add: headers_ok_def get_hget request_updates hm.ordered_map_put hm.ordered_map_del HttpRequest_new_def)

text \<open>
  \<^bold>\<open>C16\<close>. Messages are framed. If no path, query, fragment, reason, header name or header value holds
  a carriage return, then a reader that takes lines up to an empty line finds in a printed response
  the status line, the headers except \<open>Connection\<close>, one \<open>Connection\<close> line that tells \<open>m_close\<close>, and for a
  body its exact length; what follows is the body, whatever bytes it holds. In a printed request it
  finds the request line, the \<open>Connection\<close> line, then all headers, a \<open>Connection\<close> header included, so
  that line can appear twice.
\<close>

theorem message_framing:
  assumes "no_cr (p_reason p)" "list_all (\<lambda>(k, v). no_cr k \<and> no_cr v) (p_headers p)"
    "no_cr (q_path q)" "no_cr (q_query q)" "no_cr (q_fragment q)"
    "list_all (\<lambda>(k, v). no_cr k \<and> no_cr v) (q_headers q)"
  shows "read_head (response_dump p) = Some
      (status_line p # map header_line (filter (\<lambda>(k, v). strcasecmp k ''connection'' \<noteq> 0) (p_headers p))
        @ connection_line (p_close p) # length_line (p_body p), p_body p)
    \<and> read_head (request_dump q) = Some
      (request_line q # connection_line (q_close q) # map header_line (q_headers q) @ length_line (q_body q), q_body q)"
proof
  let ?hs = "filter (\<lambda>(k, v). strcasecmp k ''connection'' \<noteq> 0) (p_headers p)"
  have hs: "list_all (\<lambda>(k, v). no_cr k \<and> no_cr v) ?hs" using assms(2) by (auto simp: list_all_iff)
  have "response_dump p = status_line p @ CR # LF # header_lines ?hs @ connection_line (p_close p) @ CR # LF # body_part (p_body p)"
    by (simp add: response_dump_def status_line_def connection_line_def)
  moreover have "no_cr (status_line p)" "status_line p \<noteq> []"
    using assms(1) by (simp_all add: status_line_def no_cr_status)
  ultimately show "read_head (response_dump p) = Some
      (status_line p # map header_line ?hs @ connection_line (p_close p) # length_line (p_body p), p_body p)"
    using hs by (simp only: read_head_line read_head_headers read_head_connection read_head_body option.case prod.case simp_thms)
next
  have "request_dump q = request_line q @ CR # LF # connection_line (q_close q) @ CR # LF # header_lines (q_headers q) @ body_part (q_body q)"
    by (simp add: request_dump_def request_line_def connection_line_def)
  moreover have "no_cr (request_line q)" "request_line q \<noteq> []"
    using assms(3-5) by (simp_all add: request_line_def no_cr_method)
  ultimately show "read_head (request_dump q) = Some
      (request_line q # connection_line (q_close q) # map header_line (q_headers q) @ length_line (q_body q), q_body q)"
    using assms(6) by (simp only: read_head_line read_head_headers read_head_connection read_head_body option.case prod.case simp_thms)
qed

theorem message_framing_witness:
  "read_head (response_dump ((HttpResponse_new 0x11 True)\<lparr>p_body := [CR, LF, CR, LF]\<rparr>)) = Some
     ([''HTTP/1.1 200 OK'', ''Connection: close'', ''Content-Length: 4''], [CR, LF, CR, LF])
   \<and> read_head (request_dump (setHeader (HttpRequest_new 0x11 True) ''Connection'' ''keep-alive'')) = Some
     ([''GET / HTTP/1.1'', ''Connection: close'', ''Connection: keep-alive''], [])"
proof -
  let ?p = "(HttpResponse_new 0x11 True)\<lparr>p_body := [CR, LF, CR, LF]\<rparr>"
  let ?q = "setHeader (HttpRequest_new 0x11 True) ''Connection'' ''keep-alive''"
  have hyps: "no_cr (p_reason ?p)" "list_all (\<lambda>(k, v). no_cr k \<and> no_cr v) (p_headers ?p)" "no_cr (q_path ?q)"
    "no_cr (q_query ?q)" "no_cr (q_fragment ?q)" "list_all (\<lambda>(k, v). no_cr k \<and> no_cr v) (q_headers ?q)"
    by (simp_all add: HttpResponse_new_def HttpRequest_new_def setHeader_def)
  have p: "status_line ?p = ''HTTP/1.1 200 OK''" "p_headers ?p = []" "connection_line (p_close ?p) = ''Connection: close''"
    "length_line [CR, LF, CR, LF] = [''Content-Length: 4'']" "p_body ?p = [CR, LF, CR, LF]"
    by code_simp+
  have q: "request_line ?q = ''GET / HTTP/1.1''" "connection_line (q_close ?q) = ''Connection: close''"
    "map header_line (q_headers ?q) = [''Connection: keep-alive'']" "length_line [] = []" "q_body ?q = []"
    by code_simp+
  show ?thesis
    using message_framing [OF hyps] by (simp only: p q filter.simps list.map append.simps)
qed

end
