(* ===== verification/Http_Parser.thy ===== *)
theory Http_Parser
  imports Http
begin

text \<open>
  windgent/http/http\_parser.h and http\_parser.cc: the callbacks and the wrappers around the two parsers
  that ragel generates from http11\_parser.rl and httpclient\_parser.rl. A generated parser is a \<open>machine\<close>:
  \<open>execute\<close> gives the number of bytes consumed, the callbacks it makes, in order, and its next state. A
  callback whose C code reads on behind its token (\<open>Chars2HttpMethod\<close>, \<open>strncmp\<close>, \<open>atoi\<close>) has the text
  from the token to the end of the buffer as its argument.
\<close>

section \<open>Sizes\<close>

record http_sizes =
  request_buffer_size :: u64
  request_max_body_size :: u64
  response_buffer_size :: u64
  response_max_body_size :: u64

definition RequestSizeIniter :: http_sizes where
  "RequestSizeIniter =
     \<lparr>request_buffer_size = 4 * 1024, request_max_body_size = 64 * 1024 * 1024,
      response_buffer_size = 4 * 1024, response_max_body_size = 64 * 1024 * 1024\<rparr>"

text \<open>The listeners on the four configuration variables.\<close>

datatype size_var = Request_buffer | Request_max_body | Response_buffer | Response_max_body

fun size_listener :: "size_var \<Rightarrow> u64 \<Rightarrow> http_sizes \<Rightarrow> http_sizes" where
  "size_listener Request_buffer new_val z = z\<lparr>request_buffer_size := new_val\<rparr>"
| "size_listener Request_max_body new_val z = z\<lparr>request_max_body_size := new_val\<rparr>"
| "size_listener Response_buffer new_val z = z\<lparr>response_buffer_size := new_val\<rparr>"
| "size_listener Response_max_body new_val z = z\<lparr>response_max_body_size := new_val\<rparr>"

section \<open>Requests\<close>

datatype request_event =
    Ev_field string string
  | Ev_method string
  | Ev_uri string
  | Ev_fragment string
  | Ev_path string
  | Ev_query string
  | Ev_version string nat
  | Ev_done

record ('p, 'e) machine =
  mc_init :: 'p
  mc_execute :: "'p \<Rightarrow> string \<Rightarrow> nat \<times> 'e list \<times> 'p"
  mc_finished :: "'p \<Rightarrow> bool"
  mc_error :: "'p \<Rightarrow> bool"

record 'p request_parser =
  m_parser :: 'p
  m_data :: http_request
  m_error :: int

definition on_request_http_field :: "string \<Rightarrow> string \<Rightarrow> 'p request_parser \<Rightarrow> 'p request_parser" where
  "on_request_http_field field val p = (if length field = 0 then p else p\<lparr>m_data := setHeader (m_data p) field val\<rparr>)"

definition on_request_method :: "string \<Rightarrow> 'p request_parser \<Rightarrow> 'p request_parser" where
  "on_request_method pos p =
     (let m = Chars2HttpMethod pos in
      if m = INVALID_METHOD then p\<lparr>m_error := 1000\<rparr> else p\<lparr>m_data := (m_data p)\<lparr>q_method := m\<rparr>\<rparr>)"

definition on_request_uri :: "string \<Rightarrow> 'p request_parser \<Rightarrow> 'p request_parser" where
  "on_request_uri text p = p"

definition on_request_fragment :: "string \<Rightarrow> 'p request_parser \<Rightarrow> 'p request_parser" where
  "on_request_fragment text p = p\<lparr>m_data := (m_data p)\<lparr>q_fragment := text\<rparr>\<rparr>"

definition on_request_path :: "string \<Rightarrow> 'p request_parser \<Rightarrow> 'p request_parser" where
  "on_request_path text p = p\<lparr>m_data := (m_data p)\<lparr>q_path := text\<rparr>\<rparr>"

definition on_request_query :: "string \<Rightarrow> 'p request_parser \<Rightarrow> 'p request_parser" where
  "on_request_query text p = p\<lparr>m_data := (m_data p)\<lparr>q_query := text\<rparr>\<rparr>"

text \<open>Both version callbacks: the two texts are compared over the length of the token.\<close>

definition version_of :: "string \<Rightarrow> nat \<Rightarrow> byte option" where
  "version_of pos len =
     (if strncmp_eq pos ''HTTP/1.1'' len then Some 0x11
      else if strncmp_eq pos ''HTTP/1.0'' len then Some 0x10 else None)"

definition on_request_version :: "string \<Rightarrow> nat \<Rightarrow> 'p request_parser \<Rightarrow> 'p request_parser" where
  "on_request_version pos len p =
     (case version_of pos len of
        Some v \<Rightarrow> p\<lparr>m_data := (m_data p)\<lparr>q_version := v\<rparr>\<rparr>
      | None \<Rightarrow> p\<lparr>m_error := 1001\<rparr>)"

definition on_request_http_done :: "'p request_parser \<Rightarrow> 'p request_parser" where
  "on_request_http_done p = p"

text \<open>The assignment of the callbacks in the constructor.\<close>

fun request_callback :: "request_event \<Rightarrow> 'p request_parser \<Rightarrow> 'p request_parser" where
  "request_callback (Ev_field f v) p = on_request_http_field f v p"
| "request_callback (Ev_method t) p = on_request_method t p"
| "request_callback (Ev_uri t) p = on_request_uri t p"
| "request_callback (Ev_fragment t) p = on_request_fragment t p"
| "request_callback (Ev_path t) p = on_request_path t p"
| "request_callback (Ev_query t) p = on_request_query t p"
| "request_callback (Ev_version t n) p = on_request_version t n p"
| "request_callback Ev_done p = on_request_http_done p"

definition HttpRequestParser_new :: "('p, request_event) machine \<Rightarrow> 'p request_parser" where
  "HttpRequestParser_new M = \<lparr>m_parser = mc_init M, m_data = HttpRequest_new 0x11 True, m_error = 0\<rparr>"

text \<open>\<open>execute\<close> returns the offset and leaves the rest of the data at the front of the buffer.\<close>

definition request_execute ::
  "('p, request_event) machine \<Rightarrow> 'p request_parser \<Rightarrow> string \<Rightarrow> nat \<times> 'p request_parser \<times> string" where
  "request_execute M p data =
     (let (offset, evs, m) = mc_execute M (m_parser p) data in
      (offset, (fold request_callback evs p)\<lparr>m_parser := m\<rparr>, drop offset data))"

definition request_isFinished :: "('p, request_event) machine \<Rightarrow> 'p request_parser \<Rightarrow> bool" where
  "request_isFinished M p = mc_finished M (m_parser p)"

definition request_hasError :: "('p, request_event) machine \<Rightarrow> 'p request_parser \<Rightarrow> bool" where
  "request_hasError M p \<longleftrightarrow> m_error p \<noteq> 0 \<or> mc_error M (m_parser p)"

text \<open>\<open>cast\<close> is \<open>boost::lexical_cast<uint64_t>\<close>.\<close>

definition request_getContentLength :: "(string \<Rightarrow> u64 option) \<Rightarrow> 'p request_parser \<Rightarrow> u64" where
  "request_getContentLength cast p = getHeaderAs cast (m_data p) ''content-length'' 0"

section \<open>Responses\<close>

datatype response_event =
    Rv_field string string
  | Rv_reason string
  | Rv_status string
  | Rv_chunk_size string
  | Rv_version string nat
  | Rv_header_done
  | Rv_last_chunk

record 'p response_parser =
  r_parser :: 'p
  r_data :: http_response
  r_error :: int

definition on_response_http_field :: "string \<Rightarrow> string \<Rightarrow> 'p response_parser \<Rightarrow> 'p response_parser" where
  "on_response_http_field field val p = (if length field = 0 then p else p\<lparr>r_data := rsp_setHeader (r_data p) field val\<rparr>)"

definition on_response_reason :: "string \<Rightarrow> 'p response_parser \<Rightarrow> 'p response_parser" where
  "on_response_reason text p = p\<lparr>r_data := (r_data p)\<lparr>p_reason := text\<rparr>\<rparr>"

text \<open>\<open>atoi\<close> on a text that starts with a digit, as the grammar has it here.\<close>

definition is_digit :: "char \<Rightarrow> bool" where
  "is_digit c \<longleftrightarrow> 48 \<le> (of_char c :: nat) \<and> (of_char c :: nat) \<le> 57"

definition atoi :: "string \<Rightarrow> nat" where
  "atoi s = foldl (\<lambda>n c. 10 * n + (of_char c - 48)) 0 (takeWhile is_digit s)"

definition on_response_status :: "string \<Rightarrow> 'p response_parser \<Rightarrow> 'p response_parser" where
  "on_response_status pos p = p\<lparr>r_data := (r_data p)\<lparr>p_status := atoi pos\<rparr>\<rparr>"

definition on_response_chunk_size :: "string \<Rightarrow> 'p response_parser \<Rightarrow> 'p response_parser" where
  "on_response_chunk_size text p = p"

definition on_response_version :: "string \<Rightarrow> nat \<Rightarrow> 'p response_parser \<Rightarrow> 'p response_parser" where
  "on_response_version pos len p =
     (case version_of pos len of
        Some v \<Rightarrow> p\<lparr>r_data := (r_data p)\<lparr>p_version := v\<rparr>\<rparr>
      | None \<Rightarrow> p\<lparr>r_error := 1001\<rparr>)"

definition on_response_header_done :: "'p response_parser \<Rightarrow> 'p response_parser" where
  "on_response_header_done p = p"

definition on_response_last_chunk :: "'p response_parser \<Rightarrow> 'p response_parser" where
  "on_response_last_chunk p = p"

fun response_callback :: "response_event \<Rightarrow> 'p response_parser \<Rightarrow> 'p response_parser" where
  "response_callback (Rv_field f v) p = on_response_http_field f v p"
| "response_callback (Rv_reason t) p = on_response_reason t p"
| "response_callback (Rv_status t) p = on_response_status t p"
| "response_callback (Rv_chunk_size t) p = on_response_chunk_size t p"
| "response_callback (Rv_version t n) p = on_response_version t n p"
| "response_callback Rv_header_done p = on_response_header_done p"
| "response_callback Rv_last_chunk p = on_response_last_chunk p"

definition HttpResponseParser_new :: "('p, response_event) machine \<Rightarrow> 'p response_parser" where
  "HttpResponseParser_new M = \<lparr>r_parser = mc_init M, r_data = HttpResponse_new 0x11 True, r_error = 0\<rparr>"

definition response_execute ::
  "('p, response_event) machine \<Rightarrow> 'p response_parser \<Rightarrow> string \<Rightarrow> bool \<Rightarrow> nat \<times> 'p response_parser \<times> string" where
  "response_execute M p data chunk =
     (let m = (if chunk then mc_init M else r_parser p);
          (offset, evs, m) = mc_execute M m data in
      (offset, (fold response_callback evs p)\<lparr>r_parser := m\<rparr>, drop offset data))"

definition response_isFinished :: "('p, response_event) machine \<Rightarrow> 'p response_parser \<Rightarrow> bool" where
  "response_isFinished M p = mc_finished M (r_parser p)"

definition response_hasError :: "('p, response_event) machine \<Rightarrow> 'p response_parser \<Rightarrow> bool" where
  "response_hasError M p \<longleftrightarrow> r_error p \<noteq> 0 \<or> mc_error M (r_parser p)"

definition response_getContentLength :: "(string \<Rightarrow> u64 option) \<Rightarrow> 'p response_parser \<Rightarrow> u64" where
  "response_getContentLength cast p = rsp_getHeaderAs cast (r_data p) ''content-length'' 0"

section \<open>Building a request from its callbacks\<close>

text \<open>
  The callbacks a parser makes for the text of a request: \<open>rest\<close> is what follows the method in the
  buffer, \<open>rest'\<close> what follows the version.
\<close>

definition request_events :: "http_request \<Rightarrow> string \<Rightarrow> string \<Rightarrow> request_event list" where
  "request_events q rest rest' =
     [Ev_method (HttpMethod2String (q_method q) @ rest), Ev_uri (q_path q), Ev_path (q_path q), Ev_query (q_query q),
      Ev_fragment (q_fragment q), Ev_version (''HTTP/'' @ version_str (q_version q) @ rest') 8]
     @ map (\<lambda>(k, v). Ev_field k v) (q_headers q) @ [Ev_done]"

lemma fold_fields:
  assumes "hm.ordered_map (q_headers (m_data p) @ hs)" "\<forall>e \<in> set hs. fst e \<noteq> []"
  shows "fold request_callback (map (\<lambda>(k, v). Ev_field k v) hs) p =
    p\<lparr>m_data := (m_data p)\<lparr>q_headers := q_headers (m_data p) @ hs\<rparr>\<rparr>"
  using assms
proof (induction hs arbitrary: p)
  case (Cons e hs)
  obtain k v where e: "e = (k, v)" by force
  have "map_put CaseInsentiveLess k v (q_headers (m_data p)) = q_headers (m_data p) @ [(k, v)]"
    using Cons.prems(1) by (intro map_put_last) (auto simp: e sorted_wrt_append)
  then have "request_callback (Ev_field k v) p = p\<lparr>m_data := (m_data p)\<lparr>q_headers := q_headers (m_data p) @ [(k, v)]\<rparr>\<rparr>"
    using Cons.prems(2) by (simp add: e on_request_http_field_def setHeader_def)
  with Cons show ?case by (simp add: e)
qed simp

lemma version_of_str: "v = 0x11 \<or> v = 0x10 \<Longrightarrow> version_of (''HTTP/'' @ version_str v @ rest) 8 = Some v"
proof -
  have d: "version_str 0x11 = ''1.1''" "version_str 0x10 = ''1.0''" by code_simp+
  have n: "c_str ''HTTP/1.1'' = ''HTTP/1.1''" "c_str ''HTTP/1.0'' = ''HTTP/1.0''" by code_simp+
  have "c_str (''HTTP/'' @ ''1.1'' @ rest) = ''HTTP/1.1'' @ c_str rest" "c_str (''HTTP/'' @ ''1.0'' @ rest) = ''HTTP/1.0'' @ c_str rest"
    by (simp_all add: c_str_def)
  then show "v = 0x11 \<or> v = 0x10 \<Longrightarrow> ?thesis" by (auto simp: version_of_def strncmp_eq_def d n)
qed

section \<open>Properties\<close>

text \<open>
  The callbacks rebuild the request: fed with the parts of any request that has a method of the
  table, version 1.0 or 1.1 and named headers, in the order of its text, they leave no error and a
  request with the same method, target, version and header map, whatever follows in the buffer.
\<close>

lemma request_events_roundtrip:
  assumes "q_method q \<noteq> INVALID_METHOD" "q_version q = 0x11 \<or> q_version q = 0x10" "headers_ok q"
    "\<forall>e \<in> set (q_headers q). fst e \<noteq> []"
  shows "\<exists>p. fold request_callback (request_events q rest rest') (HttpRequestParser_new M) = p \<and> m_error p = 0
    \<and> m_data p = (HttpRequest_new (q_version q) True)\<lparr>q_method := q_method q, q_path := q_path q, q_query := q_query q,
        q_fragment := q_fragment q, q_headers := q_headers q\<rparr>"
proof -
  have nul: "c_str (HttpMethod2String (q_method q) @ rest) = HttpMethod2String (q_method q) @ c_str rest"
  proof -
    have "c_str (HttpMethod2String (q_method q)) = HttpMethod2String (q_method q)"
      using method_listed [OF assms(1)] methods_no_nul by (auto simp: list_all_iff)
    then show ?thesis unfolding c_str_def by (metis takeWhile_append2 takeWhile_eq_all_conv)
  qed
  have meth: "Chars2HttpMethod (HttpMethod2String (q_method q) @ rest) = q_method q"
    using chars_method [OF assms(1)] by (simp add: nul)
  let ?p = "(HttpRequestParser_new M)\<lparr>m_data := (HttpRequest_new (q_version q) True)\<lparr>q_method := q_method q, q_path := q_path q,
      q_query := q_query q, q_fragment := q_fragment q\<rparr>\<rparr>"
  have "fold request_callback (request_events q rest rest') (HttpRequestParser_new M)
    = fold request_callback (map (\<lambda>(k, v). Ev_field k v) (q_headers q)) ?p"
    using assms(1) meth version_of_str [OF assms(2), of rest']
    by (simp add: request_events_def on_request_method_def on_request_uri_def on_request_path_def on_request_query_def
        on_request_fragment_def on_request_version_def on_request_http_done_def HttpRequestParser_new_def HttpRequest_new_def)
  also have "\<dots> = ?p\<lparr>m_data := (m_data ?p)\<lparr>q_headers := q_headers (m_data ?p) @ q_headers q\<rparr>\<rparr>"
    using assms(3,4) by (intro fold_fields) (simp_all add: HttpRequest_new_def headers_ok_def)
  finally show ?thesis by (simp add: HttpRequest_new_def HttpRequestParser_new_def)
qed

definition no_machine :: "(unit, request_event) machine" where
  "no_machine = \<lparr>mc_init = (), mc_execute = (\<lambda>_ _. (0, [], ())), mc_finished = (\<lambda>_. False), mc_error = (\<lambda>_. False)\<rparr>"

end
