(* ===== verification/Servlet.thy ===== *)
theory Servlet
  imports Http "HOL-Library.AList"
begin

text \<open>
  windgent/http/servlet.h and windgent/http/servlet.cc: servlets and the dispatcher. A servlet is an
  object of one of the three classes; a null \<open>Servlet::ptr\<close> is \<open>None\<close>. A callback may change the request
  and the response, which it shares with its caller, and the state \<open>'w\<close> of the rest of the world. The
  unordered map is an association list with one entry for each key; \<open>fnm\<close> tells whether \<open>fnmatch\<close>
  matches. A dispatcher that was registered in itself has no model here.
\<close>

section \<open>Servlets\<close>

type_synonym 'w servlet_callback =
  "http_request \<Rightarrow> http_response \<Rightarrow> 'w \<Rightarrow> i32 \<times> http_request \<times> http_response \<times> 'w"

datatype 'w servlet =
    FunctionServlet "'w servlet_callback"
  | NotFoundServlet string string
  | ServletDispatcher (m_datas: "(string \<times> 'w servlet option) list")
      (m_globs: "(string \<times> 'w servlet option) list") (m_default: "'w servlet option")

definition NotFoundServlet_new :: "string \<Rightarrow> 'w servlet" where
  "NotFoundServlet_new name = NotFoundServlet name
     (''<html><head><title>404 Not Found'' @ ''</title></head><body><center><h1>404 Not Found</h1></center>''
      @ ''<hr><center>'' @ name @ ''</center></body></html>'')"

definition ServletDispatcher_new :: "'w servlet" where
  "ServletDispatcher_new = ServletDispatcher [] [] (Some (NotFoundServlet_new ''nothing''))"

definition NotFound_handle :: "string \<Rightarrow> http_response \<Rightarrow> http_response" where
  "NotFound_handle content response =
     (rsp_setHeader (rsp_setHeader (response\<lparr>p_status := 404\<rparr>) ''Server'' ''windgent/1.0.0'')
        ''Content-Type'' ''text/html'')\<lparr>p_body := content\<rparr>"

section \<open>The tables\<close>

text \<open>
  Each operation takes the lock of the dispatcher for its whole body. \<open>held\<close> tells whether the calling
  thread already has it for writing, which \<open>pthread_rwlock_wrlock\<close> does not allow.
\<close>

definition WrLock :: "bool \<Rightarrow> (bool \<Rightarrow> 'a result) \<Rightarrow> 'a result" where
  "WrLock held body = (if held then Inl Self_deadlock else body True)"

fun erase_first :: "string \<Rightarrow> (string \<times> 'v) list \<Rightarrow> (string \<times> 'v) list" where
  "erase_first uri [] = []"
| "erase_first uri ((k, v) # m) = (if k = uri then m else (k, v) # erase_first uri m)"

fun glob_find :: "(string \<Rightarrow> bool) \<Rightarrow> (string \<times> 'v) list \<Rightarrow> 'v option" where
  "glob_find P [] = None"
| "glob_find P ((k, v) # m) = (if P k then Some v else glob_find P m)"

record 'w dispatcher =
  datas :: "(string \<times> 'w servlet option) list"
  globs :: "(string \<times> 'w servlet option) list"
  dflt :: "'w servlet option"

definition addServlet :: "string \<Rightarrow> 'w servlet option \<Rightarrow> 'w dispatcher \<Rightarrow> 'w dispatcher result" where
  "addServlet uri slt d = WrLock False (\<lambda>held. Inr (d\<lparr>datas := AList.update uri slt (datas d)\<rparr>))"

definition addServlet_cb :: "string \<Rightarrow> 'w servlet_callback \<Rightarrow> 'w dispatcher \<Rightarrow> 'w dispatcher result" where
  "addServlet_cb uri cb d =
     WrLock False (\<lambda>held. Inr (d\<lparr>datas := AList.update uri (Some (FunctionServlet cb)) (datas d)\<rparr>))"

definition addGlobServlet :: "bool \<Rightarrow> string \<Rightarrow> 'w servlet option \<Rightarrow> 'w dispatcher \<Rightarrow> 'w dispatcher result" where
  "addGlobServlet held uri slt d =
     WrLock held (\<lambda>held. Inr (d\<lparr>globs := erase_first uri (globs d) @ [(uri, slt)]\<rparr>))"

definition addGlobServlet_cb :: "string \<Rightarrow> 'w servlet_callback \<Rightarrow> 'w dispatcher \<Rightarrow> 'w dispatcher result" where
  "addGlobServlet_cb uri cb d =
     WrLock False (\<lambda>held. addGlobServlet held uri (Some (FunctionServlet cb)) d)"

definition delServlet :: "string \<Rightarrow> 'w dispatcher \<Rightarrow> 'w dispatcher result" where
  "delServlet uri d = WrLock False (\<lambda>held. Inr (d\<lparr>datas := AList.delete uri (datas d)\<rparr>))"

definition delGlobServlet :: "string \<Rightarrow> 'w dispatcher \<Rightarrow> 'w dispatcher result" where
  "delGlobServlet uri d = WrLock False (\<lambda>held. Inr (d\<lparr>globs := erase_first uri (globs d)\<rparr>))"

definition setDefault :: "'w servlet option \<Rightarrow> 'w dispatcher \<Rightarrow> 'w dispatcher" where
  "setDefault v d = d\<lparr>dflt := v\<rparr>"

definition getServlet :: "string \<Rightarrow> 'w dispatcher \<Rightarrow> 'w servlet option" where
  "getServlet uri d = (case map_of (datas d) uri of None \<Rightarrow> None | Some slt \<Rightarrow> slt)"

definition getGlobServlet :: "string \<Rightarrow> 'w dispatcher \<Rightarrow> 'w servlet option" where
  "getGlobServlet uri d = (case glob_find (\<lambda>k. k = uri) (globs d) of None \<Rightarrow> None | Some slt \<Rightarrow> slt)"

definition getMatchedServlet :: "(string \<Rightarrow> string \<Rightarrow> bool) \<Rightarrow> string \<Rightarrow> 'w dispatcher \<Rightarrow> 'w servlet option" where
  "getMatchedServlet fnm uri d =
     (case map_of (datas d) uri of
        Some slt \<Rightarrow> slt
      | None \<Rightarrow> (case glob_find (\<lambda>k. fnm (c_str k) (c_str uri)) (globs d) of Some slt \<Rightarrow> slt | None \<Rightarrow> dflt d))"

section \<open>Handling a request\<close>

definition tables :: "'w servlet \<Rightarrow> 'w dispatcher" where
  "tables s = \<lparr>datas = m_datas s, globs = m_globs s, dflt = m_default s\<rparr>"

lemma glob_find_mem: "glob_find P m = Some v \<Longrightarrow> \<exists>k. (k, v) \<in> set m \<and> P k"
  by (induction P m rule: glob_find.induct) (auto split: if_splits)

lemma matched_smaller:
  assumes "getMatchedServlet fnm uri (tables (ServletDispatcher ds gs df)) = Some s"
  shows "size s < size (ServletDispatcher ds gs df)"
proof -
  have opt: "size s < size_option size v" if "v = Some s" for v using that by simp
  have mem: "size s < size_list (size_prod (\<lambda>_. 0) (size_option size)) m" if "(k, Some s) \<in> set m" for k m
    using size_list_estimation' [OF that, of "size s + 1" "size_prod (\<lambda>_. 0) (size_option size)"] by simp
  consider k where "(k, Some s) \<in> set ds" | k where "(k, Some s) \<in> set gs" | "df = Some s"
    using assms by (auto simp: getMatchedServlet_def tables_def split: option.splits dest: map_of_SomeD glob_find_mem)
  then show ?thesis using mem by cases (fastforce simp: opt)+
qed

function handle ::
  "(string \<Rightarrow> string \<Rightarrow> bool) \<Rightarrow> 'w servlet \<Rightarrow> http_request \<Rightarrow> http_response \<Rightarrow> 'w \<Rightarrow> i32 \<times> http_request \<times> http_response \<times> 'w" where
  "handle fnm (FunctionServlet cb) q p w = cb q p w"
| "handle fnm (NotFoundServlet name content) q p w = (0, q, NotFound_handle content p, w)"
| "handle fnm (ServletDispatcher ds gs df) q p w =
     (case getMatchedServlet fnm (q_path q) (tables (ServletDispatcher ds gs df)) of
        Some slt \<Rightarrow> (0, snd (handle fnm slt q p w))
      | None \<Rightarrow> (0, q, p, w))"
  by pat_completeness auto
termination
  by (relation "measure (\<lambda>(_, s, _). size s)") (auto dest: matched_smaller)

section \<open>Tables with one entry for each key\<close>

definition disp_ok :: "'w dispatcher \<Rightarrow> bool" where
  "disp_ok d \<longleftrightarrow> distinct (map fst (datas d)) \<and> distinct (map fst (globs d))"

lemma erase_first_filter: "distinct (map fst m) \<Longrightarrow> erase_first p m = filter (\<lambda>(k, _). k \<noteq> p) m"
proof (induction p m rule: erase_first.induct)
  case (2 p k v m)
  have "filter (\<lambda>(k, _). k \<noteq> p) m = m" if "k = p"
    using 2(2) that by (intro filter_True) (auto simp: image_iff)
  with 2 show ?case by auto
qed simp

lemma glob_find_filter: "glob_find P (filter (\<lambda>(k, _). Q k) m) = glob_find (\<lambda>k. Q k \<and> P k) m"
  by (induction m) auto

lemma glob_find_append: "glob_find P (m @ n) = (case glob_find P m of Some v \<Rightarrow> Some v | None \<Rightarrow> glob_find P n)"
  by (induction P m rule: glob_find.induct) auto

lemma glob_find_cong: "(\<And>k. k \<in> fst ` set m \<Longrightarrow> P k = Q k) \<Longrightarrow> glob_find P m = glob_find Q m"
  by (induction P m rule: glob_find.induct) auto

lemma glob_find_False [simp]: "glob_find (\<lambda>k. False) m = None"
  by (induction m) auto

lemma distinct_filter_keys: "distinct (map fst m) \<Longrightarrow> distinct (map fst (filter P m))"
  by (induction m) auto

lemma disp_ok_globs:
  assumes "disp_ok d"
  shows "disp_ok (d\<lparr>globs := erase_first p (globs d)\<rparr>)" "disp_ok (d\<lparr>globs := erase_first p (globs d) @ [(p, s)]\<rparr>)"
  using assms by (auto simp: disp_ok_def erase_first_filter distinct_filter_keys)

lemmas dispatcher_defs = addServlet_def addServlet_cb_def addGlobServlet_def addGlobServlet_cb_def delServlet_def
  delGlobServlet_def WrLock_def

text \<open>The patterns other than \<open>p\<close> that match, in their order.\<close>

abbreviation other_glob :: "(string \<Rightarrow> string \<Rightarrow> bool) \<Rightarrow> string \<Rightarrow> string \<Rightarrow> 'w dispatcher \<Rightarrow> 'w servlet option option" where
  "other_glob fnm p u d \<equiv> glob_find (\<lambda>k. k \<noteq> p \<and> fnm (c_str k) (c_str u)) (globs d)"

section \<open>Properties\<close>


definition demo_tables :: "unit dispatcher" where
  "demo_tables = \<lparr>datas = [], globs = [(''/a/*'', None)], dflt = Some (NotFoundServlet_new ''nothing'')\<rparr>"


text \<open>
  Handling a request by a dispatcher ends, however dispatchers are nested, and answers with the
  matched servlet; a path that nothing matches gets the 404 page of the default servlet, whatever the
  response held, and the dispatcher always returns 0, also when the servlet did not.
\<close>

lemma dispatcher_handles:
  assumes "d = tables (ServletDispatcher ds gs df)" "hm.ordered_map (p_headers p)"
  shows "fst (handle fnm (ServletDispatcher ds gs df) q p w) = 0
    \<and> (\<forall>s. getMatchedServlet fnm (q_path q) d = Some s \<longrightarrow>
        snd (handle fnm (ServletDispatcher ds gs df) q p w) = snd (handle fnm s q p w))
    \<and> (map_of ds (q_path q) = None \<and> glob_find (\<lambda>k. fnm (c_str k) (c_str (q_path q))) gs = None
        \<and> df = m_default ServletDispatcher_new \<longrightarrow>
        (\<exists>p'. handle fnm (ServletDispatcher ds gs df) q p w = (0, q, p', w) \<and> p_status p' = 404
          \<and> rsp_getHeader p' ''content-type'' [] = ''text/html'' \<and> rsp_getHeader p' ''server'' [] = ''windgent/1.0.0''
          \<and> prefix ''<html><head><title>404 Not Found'' (p_body p')))"
proof (intro conjI allI impI)
  show "fst (handle fnm (ServletDispatcher ds gs df) q p w) = 0" by (simp split: option.split)
  show "snd (handle fnm (ServletDispatcher ds gs df) q p w) = snd (handle fnm s q p w)"
    if "getMatchedServlet fnm (q_path q) d = Some s" for s using that by (simp add: assms(1))
  assume a: "map_of ds (q_path q) = None \<and> glob_find (\<lambda>k. fnm (c_str k) (c_str (q_path q))) gs = None
        \<and> df = m_default ServletDispatcher_new"
  have keys: "fold_case ''content-type'' = fold_case ''Content-Type''" "fold_case ''server'' = fold_case ''Server''"
    "fold_case ''Server'' \<noteq> fold_case ''Content-Type''" by code_simp+
  have m: "getMatchedServlet fnm (q_path q) (tables (ServletDispatcher ds gs df)) = Some (NotFoundServlet_new ''nothing'')"
    using a by (simp add: getMatchedServlet_def tables_def ServletDispatcher_new_def)
  have ord: "hm.ordered_map (map_put CaseInsentiveLess ''Server'' ''windgent/1.0.0'' (p_headers p))"
    using assms(2) by (rule hm.ordered_map_put)
  show "\<exists>p'. handle fnm (ServletDispatcher ds gs df) q p w = (0, q, p', w) \<and> p_status p' = 404
          \<and> rsp_getHeader p' ''content-type'' [] = ''text/html'' \<and> rsp_getHeader p' ''server'' [] = ''windgent/1.0.0''
          \<and> prefix ''<html><head><title>404 Not Found'' (p_body p')"
    using assms(2) ord
    by (simp add: m NotFoundServlet_new_def NotFound_handle_def rsp_setHeader_def rsp_getHeader_def
        hm.map_find_put hm_equiv keys)
qed

end
