(* ===== verification/Address.thy ===== *)
theory Address
  imports Endian Strings
begin

unbundle bit_operations_syntax

text \<open>
  windgent/address.h and windgent/address.cc: socket addresses. An object of a subclass of \<open>Address\<close> is a
  constructor of \<open>address\<close> over the C structure it holds; \<open>getAddr\<close> is the memory of that structure on the
  host, so that \<open>memcmp\<close> and the casts from \<open>const sockaddr*\<close> are operations on bytes. What \<open>getaddrinfo\<close>,
  \<open>getifaddrs\<close> and \<open>inet_pton\<close> return is an argument; a null pointer is \<open>None\<close>.
\<close>

section \<open>Masks and bit counts\<close>

text \<open>The shift is made in \<open>int\<close>, its count in \<open>size_t\<close>.\<close>

definition CreateMask :: "u32 \<Rightarrow> 'a::len word result" where
  "CreateMask bits =
     (let n = of_nat LENGTH('a) - ucast bits :: u64 in
      if n \<ge> 32 then Inl Bad_shift
      else if n = 31 then Inl Signed_overflow
      else Inr (word_of_int (2 ^ unat n - 1)))"

lemma and_pred_less: "v \<noteq> 0 \<Longrightarrow> unat (v AND (v - 1)) < unat (v :: 'a::len word)"
proof -
  assume v: "v \<noteq> 0"
  have "unat (v AND (v - 1)) \<le> unat (v - 1)"
    by (metis and.commute word_and_le1 word_le_nat_alt)
  also have "\<dots> < unat v" using v by (metis measure_unat)
  finally show ?thesis .
qed

function CountBytes_loop :: "'a::len word \<Rightarrow> u32 \<Rightarrow> u32" where
  "CountBytes_loop value result =
     (if value \<noteq> 0 then CountBytes_loop (value AND (value - 1)) (result + 1) else result)"
  by pat_completeness auto
termination
  by (relation "measure (\<lambda>(v, _). unat v)") (auto simp: and_pred_less)

declare CountBytes_loop.simps [simp del]

definition CountBytes :: "'a::len word \<Rightarrow> u32" where
  "CountBytes value = CountBytes_loop value 0"

section \<open>Address structures\<close>

abbreviation AF_UNSPEC :: u16 where "AF_UNSPEC \<equiv> 0"
abbreviation AF_UNIX :: u16 where "AF_UNIX \<equiv> 1"
abbreviation AF_INET :: u16 where "AF_INET \<equiv> 2"
abbreviation AF_INET6 :: u16 where "AF_INET6 \<equiv> 10"

record sockaddr_in =
  sin_family :: u16
  sin_port :: u16
  s_addr :: u32
  sin_zero :: "byte list"

record sockaddr_in6 =
  sin6_family :: u16
  sin6_port :: u16
  sin6_flowinfo :: u32
  s6_addr :: "byte list"
  sin6_scope_id :: u32

record sockaddr_un =
  sun_family :: u16
  sun_path :: string

record sockaddr =
  sa_family :: u16
  sa_data :: "byte list"

datatype address =
    IPv4Address sockaddr_in
  | IPv6Address sockaddr_in6
  | UnixAddress sockaddr_un u32
  | UnknownAddress sockaddr

fun getAddr :: "endian \<Rightarrow> address \<Rightarrow> byte list" where
  "getAddr host (IPv4Address m) =
     mem_bytes host (sin_family m) @ mem_bytes host (sin_port m) @ mem_bytes host (s_addr m) @ sin_zero m"
| "getAddr host (IPv6Address m) =
     mem_bytes host (sin6_family m) @ mem_bytes host (sin6_port m) @ mem_bytes host (sin6_flowinfo m)
     @ s6_addr m @ mem_bytes host (sin6_scope_id m)"
| "getAddr host (UnixAddress m len) = mem_bytes host (sun_family m) @ map of_char (sun_path m)"
| "getAddr host (UnknownAddress m) = mem_bytes host (sa_family m) @ sa_data m"

fun getAddrLen :: "address \<Rightarrow> u32" where
  "getAddrLen (IPv4Address m) = 16"
| "getAddrLen (IPv6Address m) = 28"
| "getAddrLen (UnixAddress m len) = len"
| "getAddrLen (UnknownAddress m) = 16"

fun getFamily :: "address \<Rightarrow> u16" where
  "getFamily (IPv4Address m) = sin_family m"
| "getFamily (IPv6Address m) = sin6_family m"
| "getFamily (UnixAddress m len) = sun_family m"
| "getFamily (UnknownAddress m) = sa_family m"

text \<open>The casts of \<open>Create\<close>: the length argument is not looked at.\<close>

definition load_in :: "endian \<Rightarrow> byte list \<Rightarrow> sockaddr_in result" where
  "load_in host bs =
     (if length bs < 16 then Inl Out_of_bounds
      else Inr \<lparr>sin_family = word_of_mem host (take 2 bs), sin_port = word_of_mem host (take 2 (drop 2 bs)),
                s_addr = word_of_mem host (take 4 (drop 4 bs)), sin_zero = take 8 (drop 8 bs)\<rparr>)"

definition load_in6 :: "endian \<Rightarrow> byte list \<Rightarrow> sockaddr_in6 result" where
  "load_in6 host bs =
     (if length bs < 28 then Inl Out_of_bounds
      else Inr \<lparr>sin6_family = word_of_mem host (take 2 bs), sin6_port = word_of_mem host (take 2 (drop 2 bs)),
                sin6_flowinfo = word_of_mem host (take 4 (drop 4 bs)), s6_addr = take 16 (drop 8 bs),
                sin6_scope_id = word_of_mem host (take 4 (drop 24 bs))\<rparr>)"

definition load_sa :: "endian \<Rightarrow> byte list \<Rightarrow> sockaddr result" where
  "load_sa host bs =
     (if length bs < 16 then Inl Out_of_bounds
      else Inr \<lparr>sa_family = word_of_mem host (take 2 bs), sa_data = take 14 (drop 2 bs)\<rparr>)"

definition Address_Create :: "endian \<Rightarrow> byte list option \<Rightarrow> address option result" where
  "Address_Create host addr =
     (case addr of
        None \<Rightarrow> Inr None
      | Some bs \<Rightarrow>
          if length bs < 2 then Inl Out_of_bounds
          else (let family = word_of_mem host (take 2 bs) in
                if family = AF_INET then rbind (load_in host bs) (\<lambda>m. Inr (Some (IPv4Address m)))
                else if family = AF_INET6 then rbind (load_in6 host bs) (\<lambda>m. Inr (Some (IPv6Address m)))
                else rbind (load_sa host bs) (\<lambda>m. Inr (Some (UnknownAddress m)))))"

section \<open>Names of hosts\<close>

text \<open>
  The node and the service of \<open>getAllAddrFromHost\<close>. \<open>memchr\<close> gives an index; the service is a pointer into
  the text of the host, here the rest of that text.
\<close>

definition memchr :: "string \<Rightarrow> char \<Rightarrow> nat option" where
  "memchr s c = (let n = length (takeWhile (\<lambda>x. x \<noteq> c) s) in if n < length s then Some n else None)"

definition split_host :: "string \<Rightarrow> string \<times> string option" where
  "split_host host =
     (let (node, service) =
        (if host \<noteq> [] \<and> hd host = CHR ''['' then
           (case memchr (tl host) CHR '']'' of
              Some j \<Rightarrow>
                (take j (tl host),
                 if take 1 (drop (j + 2) host) = '':'' then Some (drop (j + 3) host) else None)
            | None \<Rightarrow> ([], None))
         else ([], None));
        (node, service) =
        (if node = [] then
           (case memchr host CHR '':'' of
              Some j \<Rightarrow>
                (if memchr (drop (j + 1) host) CHR '':'' = None then (take j host, Some (drop (j + 1) host))
                 else (node, Some (drop j host)))
            | None \<Rightarrow> (node, None))
         else (node, service))
      in (if node = [] then host else node, service))"

record gai_hints =
  ai_family :: u16
  ai_socktype :: i32
  ai_protocol :: i32
  ai_numerichost :: bool

text \<open>What \<open>getaddrinfo\<close> does with a node and a service: \<open>None\<close> for a failure, else the addresses found.\<close>

type_synonym getaddrinfo = "gai_hints \<Rightarrow> string \<Rightarrow> string option \<Rightarrow> byte list list option"

fun create_all :: "endian \<Rightarrow> byte list list \<Rightarrow> address option list \<Rightarrow> address option list result" where
  "create_all host [] res = Inr res"
| "create_all host (rp # rps) res = rbind (Address_Create host (Some rp)) (\<lambda>a. create_all host rps (res @ [a]))"

definition getAllAddrFromHost ::
  "endian \<Rightarrow> getaddrinfo \<Rightarrow> address option list \<Rightarrow> string \<Rightarrow> u16 \<Rightarrow> i32 \<Rightarrow> i32 \<Rightarrow> (bool \<times> address option list) result" where
  "getAllAddrFromHost host gai res name family type protocol =
     (let hints = \<lparr>ai_family = family, ai_socktype = type, ai_protocol = protocol, ai_numerichost = False\<rparr>;
          (node, service) = split_host name
      in case gai hints (c_str node) (map_option c_str service) of
           None \<Rightarrow> Inr (False, res)
         | Some result \<Rightarrow> rbind (create_all host result res) (\<lambda>res'. Inr (res' \<noteq> [], res')))"

definition getAnyAddrFromHost ::
  "endian \<Rightarrow> getaddrinfo \<Rightarrow> string \<Rightarrow> u16 \<Rightarrow> i32 \<Rightarrow> i32 \<Rightarrow> address option result" where
  "getAnyAddrFromHost host gai name family type protocol =
     rbind (getAllAddrFromHost host gai [] name family type protocol) (\<lambda>(ok, res).
       Inr (if ok then hd res else None))"

text \<open>\<open>dynamic_pointer_cast<IPAddress>\<close>.\<close>

fun as_ip :: "address option \<Rightarrow> address option" where
  "as_ip (Some (IPv4Address m)) = Some (IPv4Address m)"
| "as_ip (Some (IPv6Address m)) = Some (IPv6Address m)"
| "as_ip _ = None"

fun first_ip :: "address option list \<Rightarrow> address option" where
  "first_ip [] = None"
| "first_ip (a # as) = (case as_ip a of Some x \<Rightarrow> Some x | None \<Rightarrow> first_ip as)"

definition getAnyIPAddrFromHost ::
  "endian \<Rightarrow> getaddrinfo \<Rightarrow> string \<Rightarrow> u16 \<Rightarrow> i32 \<Rightarrow> i32 \<Rightarrow> address option result" where
  "getAnyIPAddrFromHost host gai name family type protocol =
     rbind (getAllAddrFromHost host gai [] name family type protocol) (\<lambda>(ok, res).
       Inr (if ok then first_ip res else None))"

section \<open>Interfaces\<close>

record ifaddr =
  ifa_name :: string
  ifa_addr :: "byte list option"
  ifa_netmask :: "byte list option"

text \<open>\<open>std::multimap::insert\<close>: after the elements whose key is not greater.\<close>

fun str_less :: "string \<Rightarrow> string \<Rightarrow> bool" where
  "str_less a [] = False"
| "str_less [] (d # b) = True"
| "str_less (c # a) (d # b) \<longleftrightarrow> (of_char c :: nat) < of_char d \<or> c = d \<and> str_less a b"

fun mm_insert :: "string \<Rightarrow> 'v \<Rightarrow> (string \<times> 'v) list \<Rightarrow> (string \<times> 'v) list" where
  "mm_insert k v [] = [(k, v)]"
| "mm_insert k v ((k', v') # m) =
     (if str_less k k' then (k, v) # (k', v') # m else (k', v') # mm_insert k v m)"

fun iface_loop ::
  "endian \<Rightarrow> u16 \<Rightarrow> ifaddr list \<Rightarrow> (string \<times> address \<times> u32) list \<Rightarrow> (string \<times> address \<times> u32) list result" where
  "iface_loop host family [] res = Inr res"
| "iface_loop host family (n # ns) res =
     (case ifa_addr n of
        None \<Rightarrow> Inl Null_deref
      | Some bs \<Rightarrow>
         (let fam = word_of_mem host (take 2 bs) in
          if family \<noteq> AF_UNSPEC \<and> family \<noteq> fam then iface_loop host family ns res
          else if fam = AF_INET then
            rbind (Address_Create host (Some bs)) (\<lambda>addr.
            case ifa_netmask n of None \<Rightarrow> Inl Null_deref | Some nm \<Rightarrow>
            rbind (load_in host nm) (\<lambda>m.
            let prefix_len = CountBytes (s_addr m) in
            iface_loop host family ns
              (case addr of Some a \<Rightarrow> mm_insert (c_str (ifa_name n)) (a, prefix_len) res | None \<Rightarrow> res)))
          else if fam = AF_INET6 then
            rbind (Address_Create host (Some bs)) (\<lambda>addr.
            case ifa_netmask n of None \<Rightarrow> Inl Null_deref | Some nm \<Rightarrow>
            rbind (load_in6 host nm) (\<lambda>m.
            let prefix_len = foldl (\<lambda>p b. p + CountBytes b) 0 (s6_addr m) in
            iface_loop host family ns
              (case addr of Some a \<Rightarrow> mm_insert (c_str (ifa_name n)) (a, prefix_len) res | None \<Rightarrow> res)))
          else iface_loop host family ns res))"

definition getInterfaceAddress_all ::
  "endian \<Rightarrow> ifaddr list option \<Rightarrow> (string \<times> address \<times> u32) list \<Rightarrow> u16 \<Rightarrow> (bool \<times> (string \<times> address \<times> u32) list) result" where
  "getInterfaceAddress_all host ifs res family =
     (case ifs of
        None \<Rightarrow> Inr (False, res)
      | Some results \<Rightarrow> rbind (iface_loop host family results res) (\<lambda>res'. Inr (res' \<noteq> [], res')))"

section \<open>IPv4\<close>

definition IPv4Address_new :: "endian \<Rightarrow> u32 \<Rightarrow> u16 \<Rightarrow> sockaddr_in" where
  "IPv4Address_new host addr port =
     \<lparr>sin_family = AF_INET, sin_port = byteswapOnLittleEndian host port,
      s_addr = byteswapOnLittleEndian host addr, sin_zero = replicate 8 0\<rparr>"

text \<open>\<open>inet_pton\<close> gives the bytes of the address in network order, or nothing.\<close>

definition IPv4Address_Create :: "endian \<Rightarrow> (string \<Rightarrow> byte list option) \<Rightarrow> string \<Rightarrow> u16 \<Rightarrow> sockaddr_in option" where
  "IPv4Address_Create host inet_pton addr port =
     (let tmp = (IPv4Address_new host 0 0)\<lparr>sin_port := byteswapOnLittleEndian host port\<rparr> in
      case inet_pton addr of
        None \<Rightarrow> None
      | Some bs \<Rightarrow> Some (tmp\<lparr>s_addr := word_of_mem host bs\<rparr>))"

definition octet :: "u32 \<Rightarrow> nat \<Rightarrow> string" where
  "octet addr n = digits (unat (drop_bit n addr AND 0xff))"

definition IPv4_insert :: "endian \<Rightarrow> sockaddr_in \<Rightarrow> string" where
  "IPv4_insert host m =
     (let addr = byteswapOnLittleEndian host (s_addr m) in
      octet addr 24 @ ''.'' @ octet addr 16 @ ''.'' @ octet addr 8 @ ''.'' @ octet addr 0
      @ '':'' @ digits (unat (byteswapOnLittleEndian host (sin_port m))))"

definition IPv4_broadcastaAddress :: "endian \<Rightarrow> sockaddr_in \<Rightarrow> u32 \<Rightarrow> sockaddr_in option result" where
  "IPv4_broadcastaAddress host m prefix_len =
     (if prefix_len > 32 then Inr None
      else rbind (CreateMask prefix_len) (\<lambda>mask.
        Inr (Some (m\<lparr>s_addr := s_addr m OR byteswapOnLittleEndian host mask\<rparr>))))"

definition IPv4_networkAddress :: "endian \<Rightarrow> sockaddr_in \<Rightarrow> u32 \<Rightarrow> sockaddr_in option result" where
  "IPv4_networkAddress host m prefix_len =
     (if prefix_len > 32 then Inr None
      else rbind (CreateMask prefix_len) (\<lambda>mask.
        Inr (Some (m\<lparr>s_addr := s_addr m AND byteswapOnLittleEndian host mask\<rparr>))))"

definition IPv4_subNetMask :: "endian \<Rightarrow> u32 \<Rightarrow> sockaddr_in result" where
  "IPv4_subNetMask host prefix_len =
     rbind (CreateMask prefix_len) (\<lambda>mask.
       Inr \<lparr>sin_family = AF_INET, sin_port = 0, s_addr = NOT (byteswapOnLittleEndian host mask),
            sin_zero = replicate 8 0\<rparr>)"

definition IPv4_getPort :: "endian \<Rightarrow> sockaddr_in \<Rightarrow> u32" where
  "IPv4_getPort host m = ucast (byteswapOnLittleEndian host (sin_port m))"

definition IPv4_setPort :: "endian \<Rightarrow> u16 \<Rightarrow> sockaddr_in \<Rightarrow> sockaddr_in" where
  "IPv4_setPort host val m = m\<lparr>sin_port := byteswapOnLittleEndian host val\<rparr>"

section \<open>IPv6\<close>

definition IPv6Address_zero :: sockaddr_in6 where
  "IPv6Address_zero =
     \<lparr>sin6_family = AF_INET6, sin6_port = 0, sin6_flowinfo = 0, s6_addr = replicate 16 0, sin6_scope_id = 0\<rparr>"

definition IPv6Address_new :: "endian \<Rightarrow> byte list \<Rightarrow> u16 \<Rightarrow> sockaddr_in6" where
  "IPv6Address_new host addr port =
     IPv6Address_zero\<lparr>sin6_port := byteswapOnLittleEndian host port, s6_addr := take 16 addr\<rparr>"

definition IPv6Address_Create :: "endian \<Rightarrow> (string \<Rightarrow> byte list option) \<Rightarrow> string \<Rightarrow> u16 \<Rightarrow> sockaddr_in6 option" where
  "IPv6Address_Create host inet_pton addr port =
     (let tmp = IPv6Address_zero\<lparr>sin6_port := byteswapOnLittleEndian host port\<rparr> in
      case inet_pton addr of
        None \<Rightarrow> None
      | Some bs \<Rightarrow> Some (tmp\<lparr>s6_addr := bs\<rparr>))"

text \<open>\<open>addr[i]\<close> of the cast to \<open>uint16_t*\<close>.\<close>

definition group16 :: "endian \<Rightarrow> byte list \<Rightarrow> nat \<Rightarrow> u16" where
  "group16 host bs i = word_of_mem host (take 2 (drop (2 * i) bs))"

text \<open>The loop for \<open>i\<close> up to 7; it returns the text and \<open>used_aeros\<close>.\<close>

function insert_loop :: "endian \<Rightarrow> (nat \<Rightarrow> u16) \<Rightarrow> nat \<Rightarrow> bool \<Rightarrow> string \<Rightarrow> string \<times> bool" where
  "insert_loop host addr i used os =
     (if i < 8 then
        if addr i = 0 \<and> \<not> used then insert_loop host addr (i + 1) used os
        else
          (let (os, used) = (if i \<noteq> 0 \<and> addr (i - 1) = 0 \<and> \<not> used then (os @ '':'', True) else (os, used));
               os = (if i \<noteq> 0 then os @ '':'' else os)
           in insert_loop host addr (i + 1) used (os @ hex_digits (unat (byteswapOnLittleEndian host (addr i)))))
      else (os, used))"
  by pat_completeness auto
termination
  by (relation "measure (\<lambda>(_, _, i, _, _). 8 - i)") auto

declare insert_loop.simps [simp del]

definition IPv6_insert :: "endian \<Rightarrow> sockaddr_in6 \<Rightarrow> string" where
  "IPv6_insert host m =
     (let addr = group16 host (s6_addr m);
          (os, used) = insert_loop host addr 0 False ''[''
      in (if \<not> used \<and> addr 7 = 0 then os @ ''::'' else os)
         @ '']:'' @ digits (unat (byteswapOnLittleEndian host (sin6_port m))))"

text \<open>The write to \<open>s6_addr[prefix_len / 8]\<close>, and the loop that starts at the same index.\<close>

definition upd_byte :: "nat \<Rightarrow> (byte \<Rightarrow> byte) \<Rightarrow> byte list \<Rightarrow> byte list result" where
  "upd_byte i f bs = (if i < length bs then Inr (bs[i := f (bs ! i)]) else Inl Out_of_bounds)"

definition fill_from :: "nat \<Rightarrow> byte \<Rightarrow> byte list \<Rightarrow> byte list" where
  "fill_from i b bs = fold (\<lambda>j bs. bs[j := b]) [i ..< 16] bs"

definition IPv6_broadcastaAddress :: "sockaddr_in6 \<Rightarrow> u32 \<Rightarrow> sockaddr_in6 result" where
  "IPv6_broadcastaAddress m prefix_len =
     rbind (CreateMask (prefix_len mod 8)) (\<lambda>mask.
     rbind (upd_byte (unat (prefix_len div 8)) (\<lambda>b. b OR mask) (s6_addr m)) (\<lambda>bs.
       Inr (m\<lparr>s6_addr := fill_from (unat (prefix_len div 8)) 0xff bs\<rparr>)))"

definition IPv6_networkAddress :: "sockaddr_in6 \<Rightarrow> u32 \<Rightarrow> sockaddr_in6 result" where
  "IPv6_networkAddress m prefix_len =
     rbind (CreateMask (prefix_len mod 8)) (\<lambda>mask.
     rbind (upd_byte (unat (prefix_len div 8)) (\<lambda>b. b AND mask) (s6_addr m)) (\<lambda>bs.
       Inr (m\<lparr>s6_addr := fill_from (unat (prefix_len div 8)) 0x00 bs\<rparr>)))"

definition IPv6_subNetMask :: "u32 \<Rightarrow> sockaddr_in6 result" where
  "IPv6_subNetMask prefix_len =
     rbind (CreateMask (prefix_len mod 8)) (\<lambda>mask.
     rbind (upd_byte (unat (prefix_len div 8)) (\<lambda>b. NOT mask) (s6_addr IPv6Address_zero)) (\<lambda>bs.
       Inr (IPv6Address_zero\<lparr>s6_addr := fill_from (unat (prefix_len div 8)) 0xff bs\<rparr>)))"

definition IPv6_getPort :: "endian \<Rightarrow> sockaddr_in6 \<Rightarrow> u32" where
  "IPv6_getPort host m = ucast (byteswapOnLittleEndian host (sin6_port m))"

definition IPv6_setPort :: "endian \<Rightarrow> u16 \<Rightarrow> sockaddr_in6 \<Rightarrow> sockaddr_in6" where
  "IPv6_setPort host val m = m\<lparr>sin6_port := byteswapOnLittleEndian host val\<rparr>"

section \<open>Interfaces by name, numeric addresses\<close>

definition getInterfaceAddress ::
  "endian \<Rightarrow> ifaddr list option \<Rightarrow> (address \<times> u32) list \<Rightarrow> string \<Rightarrow> u16 \<Rightarrow> (bool \<times> (address \<times> u32) list) result" where
  "getInterfaceAddress host ifs res iface family =
     (if iface = [] \<or> iface = ''*'' then
        (let res = (if family = AF_INET \<or> family = AF_UNSPEC then res @ [(IPv4Address (IPv4Address_new host 0 0), 0)] else res);
             res = (if family = AF_INET6 \<or> family = AF_UNSPEC then res @ [(IPv6Address IPv6Address_zero, 0)] else res)
         in Inr (True, res))
      else
        rbind (getInterfaceAddress_all host ifs [] family) (\<lambda>(ok, results).
          if \<not> ok then Inr (False, res)
          else (let res = res @ map snd (filter (\<lambda>(name, _). name = iface) results) in Inr (res \<noteq> [], res))))"

fun set_port :: "endian \<Rightarrow> u16 \<Rightarrow> address \<Rightarrow> address" where
  "set_port host port (IPv4Address m) = IPv4Address (IPv4_setPort host port m)"
| "set_port host port (IPv6Address m) = IPv6Address (IPv6_setPort host port m)"
| "set_port host port a = a"

definition IPAddress_Create :: "endian \<Rightarrow> getaddrinfo \<Rightarrow> string \<Rightarrow> u16 \<Rightarrow> address option result" where
  "IPAddress_Create host gai addr port =
     (case gai \<lparr>ai_family = AF_UNSPEC, ai_socktype = 0, ai_protocol = 0, ai_numerichost = True\<rparr> (c_str addr) None of
        None \<Rightarrow> Inr None
      | Some [] \<Rightarrow> Inl Null_deref
      | Some (res # _) \<Rightarrow>
          rbind (Address_Create host (Some res)) (\<lambda>a. Inr (map_option (set_port host port) (as_ip a))))"

section \<open>Unix and unknown addresses\<close>

definition MAX_PATH_LEN :: nat where
  "MAX_PATH_LEN = 108 - 1"

definition UnixAddress_new :: "sockaddr_un \<times> u32" where
  "UnixAddress_new = (\<lparr>sun_family = AF_UNIX, sun_path = replicate 108 (CHR 0x00)\<rparr>, 2 + of_nat MAX_PATH_LEN)"

definition UnixAddress_path :: "string \<Rightarrow> (sockaddr_un \<times> u32) result" where
  "UnixAddress_path path =
     (let m_len = of_nat (length path) + 1 :: u32;
          m_len = (if path \<noteq> [] \<and> hd path = CHR 0x00 then m_len - 1 else m_len)
      in if m_len > 108 then Inl Logic_error
         else Inr (\<lparr>sun_family = AF_UNIX,
                    sun_path = splice_at 0 (take (unat m_len) (path @ [CHR 0x00])) (replicate 108 (CHR 0x00))\<rparr>, m_len + 2))"

definition Unix_setAddrLen :: "u32 \<Rightarrow> sockaddr_un \<times> u32 \<Rightarrow> sockaddr_un \<times> u32" where
  "Unix_setAddrLen val a = (fst a, val)"

text \<open>The two ways a text is read from \<open>sun_path\<close> run past it when the length or the missing NUL says so.\<close>

definition Unix_insert :: "sockaddr_un \<times> u32 \<Rightarrow> string result" where
  "Unix_insert a =
     (let (m, m_len) = a in
      if m_len > 2 \<and> sun_path m ! 0 = CHR 0x00 then
        (if unat m_len - 2 > length (sun_path m) then Inl Out_of_bounds
         else Inr (CHR 0x5C # ''0'' @ take (unat m_len - 3) (drop 1 (sun_path m))))
      else if CHR 0x00 \<in> set (sun_path m) then Inr (c_str (sun_path m)) else Inl Out_of_bounds)"

definition UnknownAddress_new :: "u16 \<Rightarrow> sockaddr" where
  "UnknownAddress_new family = \<lparr>sa_family = family, sa_data = replicate 14 0\<rparr>"

definition Unknown_insert :: "sockaddr \<Rightarrow> string" where
  "Unknown_insert m = ''[UnknownAddress family = '' @ digits (unat (sa_family m)) @ '']''"

fun toString :: "endian \<Rightarrow> address \<Rightarrow> string result" where
  "toString host (IPv4Address m) = Inr (IPv4_insert host m)"
| "toString host (IPv6Address m) = Inr (IPv6_insert host m)"
| "toString host (UnixAddress m len) = Unix_insert (m, len)"
| "toString host (UnknownAddress m) = Inr (Unknown_insert m)"

section \<open>Comparison\<close>

text \<open>\<open>memcmp\<close> compares as unsigned bytes.\<close>

fun memcmp :: "byte list \<Rightarrow> byte list \<Rightarrow> int" where
  "memcmp (x # xs) (y # ys) = (if x < y then - 1 else if y < x then 1 else memcmp xs ys)"
| "memcmp _ _ = 0"

definition addr_less :: "endian \<Rightarrow> address \<Rightarrow> address \<Rightarrow> bool" where
  "addr_less host a b =
     (let minLen = min (getAddrLen a) (getAddrLen b);
          res = memcmp (take (unat minLen) (getAddr host a)) (take (unat minLen) (getAddr host b))
      in if res < 0 then True else if res > 0 then False else minLen = getAddrLen a)"

definition addr_eq :: "endian \<Rightarrow> address \<Rightarrow> address \<Rightarrow> bool" where
  "addr_eq host a b \<longleftrightarrow>
     getAddrLen a = getAddrLen b
     \<and> memcmp (take (unat (getAddrLen a)) (getAddr host a)) (take (unat (getAddrLen a)) (getAddr host b)) = 0"

definition addr_neq :: "endian \<Rightarrow> address \<Rightarrow> address \<Rightarrow> bool" where
  "addr_neq host a b \<longleftrightarrow> \<not> addr_eq host a b"

section \<open>Counting bits\<close>

lemma nat_clear_lowest:
  fixes n :: nat
  assumes "0 < n"
  shows "\<exists>k. bit n k \<and> (\<forall>i. bit (n AND (n - 1)) i \<longleftrightarrow> bit n i \<and> i \<noteq> k)"
  using assms
proof (induction n rule: less_induct)
  case (less n)
  show ?case
  proof (cases "even n")
    case True
    then obtain m where m: "n = 2 * m" by (elim evenE)
    then have "m < n" "0 < m" using less.prems by simp_all
    with less.IH obtain k where k: "bit m k" "\<forall>i. bit (m AND (m - 1)) i \<longleftrightarrow> bit m i \<and> i \<noteq> k" by blast
    have "n - 1 = 2 * (m - 1) + 1" using m less.prems by simp
    then have b: "bit (n - 1) i \<longleftrightarrow> i = 0 \<or> bit (m - 1) (i - 1)" for i
      by (cases i) (simp_all add: bit_0 bit_Suc)
    have bn: "bit n i \<longleftrightarrow> i \<noteq> 0 \<and> bit m (i - 1)" for i using m by (cases i) (simp_all add: bit_0 bit_Suc)
    show ?thesis
    proof (rule exI [of _ "Suc k"], intro conjI allI)
      show "bit n (Suc k)" using k(1) by (simp only: bn diff_Suc_1 nat.distinct simp_thms)
      show "bit (n AND (n - 1)) i \<longleftrightarrow> bit n i \<and> i \<noteq> Suc k" for i
        using k(2) [rule_format, of "i - 1"] unfolding bit_and_iff b bn by (cases i) auto
    qed
  next
    case False
    then obtain m where m: "n = 2 * m + 1" by (elim oddE)
    have b: "bit (n - 1) i \<longleftrightarrow> bit n i \<and> i \<noteq> 0" for i using m by (cases i) (simp_all add: bit_0 bit_Suc)
    have "bit n 0" using False by (simp add: bit_0)
    then show ?thesis by (intro exI [of _ 0]) (auto simp only: bit_and_iff b)
  qed
qed

lemma word_clear_lowest:
  fixes v :: "'a::len word"
  assumes "v \<noteq> 0"
  shows "\<exists>k. bit v k \<and> (\<forall>i. bit (v AND (v - 1)) i \<longleftrightarrow> bit v i \<and> i \<noteq> k)"
proof -
  have pos: "0 < unat v" using assms by (simp add: unat_gt_0)
  have "unat (v - 1) = unat v - 1" using assms by (simp add: unat_minus_one)
  then have "unat (v AND (v - 1)) = unat v AND (unat v - 1)" by (simp add: unsigned_and_eq)
  moreover have "bit w i \<longleftrightarrow> bit (unat w) i" for w :: "'a word" and i by (simp add: bit_unsigned_iff)
  ultimately show ?thesis using nat_clear_lowest [OF pos] by simp
qed

text \<open>The reference: the number of bits that are set.\<close>

definition popcount :: "'a::len word \<Rightarrow> nat" where
  "popcount v = length (filter (bit v) [0 ..< LENGTH('a)])"

lemma popcount_card: "popcount (v :: 'a::len word) = card {i. bit v i}"
proof -
  have "popcount v = card (set (filter (bit v) [0 ..< LENGTH('a)]))"
    unfolding popcount_def by (rule distinct_card [symmetric]) simp
  also have "set (filter (bit v) [0 ..< LENGTH('a)]) = {i. bit v i}"
    using bit_imp_le_length [of v] by auto
  finally show ?thesis .
qed

lemma finite_bits [simp]: "finite {i. bit (v :: 'a::len word) i}"
  by (rule finite_subset [of _ "{..< LENGTH('a)}"]) (auto dest: bit_imp_le_length)

lemma popcount_le: "popcount (v :: 'a::len word) \<le> LENGTH('a)"
  unfolding popcount_def by (metis diff_zero length_filter_le length_upt)

lemma CountBytes_loop_popcount: "CountBytes_loop v r = r + of_nat (popcount v)"
proof (induction v r rule: CountBytes_loop.induct)
  case (1 v r)
  show ?case
  proof (cases "v = 0")
    case True
    then show ?thesis by (subst CountBytes_loop.simps) (simp add: popcount_def)
  next
    case False
    then obtain k where k: "bit v k" "\<And>i. bit (v AND (v - 1)) i \<longleftrightarrow> bit v i \<and> i \<noteq> k"
      using word_clear_lowest by blast
    then have "{i. bit (v AND (v - 1)) i} = {i. bit v i} - {k}" by auto
    then have "popcount v = Suc (popcount (v AND (v - 1)))"
      using k(1) card_Suc_Diff1 [OF finite_bits, of k v] by (simp add: popcount_card)
    with 1 False show ?thesis by (subst CountBytes_loop.simps) simp
  qed
qed

lemma popcount_NOT: "popcount (NOT v :: 'a::len word) = LENGTH('a) - popcount v"
proof -
  have "{i. bit (NOT v) i} = {..< LENGTH('a)} - {i. bit v i}" by (auto simp: bit_simps)
  moreover have "{i. bit v i} \<subseteq> {..< LENGTH('a)}" using bit_imp_le_length [of v] by auto
  ultimately show ?thesis by (simp add: popcount_card card_Diff_subset)
qed

lemma bit_byteswap:
  fixes w :: "32 word"
  shows "bit (byteswap w) k \<longleftrightarrow> k < 32 \<and> bit w (8 * (3 - k div 8) + k mod 8)"
proof (cases "k < 32")
  case True
  then have "k div 8 < 4" by simp
  with True show ?thesis
    by (simp add: byteswap_def bit_word_le rev_nth bit_nth_bytes_le)
qed (use bit_imp_le_length [of "byteswap w" k] in auto)

lemma popcount_byteswap:
  fixes w :: "32 word"
  shows "popcount (byteswap w) = popcount w"
proof -
  let ?f = "\<lambda>k. 8 * (3 - k div 8) + k mod 8 :: nat"
  note bits = bit_byteswap [of w]
  have inv: "?f (?f k) = k" "?f k < 32" if "k < 32" for k
  proof -
    have q: "k div 8 \<le> 3" "k mod 8 < 8" using that by simp_all
    have "?f k div 8 = 3 - k div 8" "?f k mod 8 = k mod 8" by simp_all
    with q mult_div_mod_eq [of 8 k] show "?f (?f k) = k" by simp
    from q show "?f k < 32" by linarith
  qed
  have "{k. bit w k} = ?f ` {k. bit (byteswap w) k}"
  proof (intro set_eqI iffI)
    fix k assume k: "k \<in> {k. bit w k}"
    then have lt: "k < 32" using bit_imp_le_length [of w k] by auto
    from k have "?f k \<in> {k. bit (byteswap w) k}" by (simp only: mem_Collect_eq bits inv [OF lt] simp_thms)
    then show "k \<in> ?f ` {k. bit (byteswap w) k}" using inv(1) [OF lt] by (metis (no_types, lifting) image_eqI)
  qed (auto simp: bits)
  moreover have "inj_on ?f {k. bit (byteswap w) k}"
    by (rule inj_on_inverseI [of _ ?f]) (rule inv(1), simp add: bits)
  ultimately show ?thesis by (simp add: popcount_card card_image)
qed

section \<open>Masks\<close>

lemma unat_ucast_u64: "unat (ucast (p :: u32) :: u64) = unat p"
proof -
  have "unat p < 2 ^ 32" using unsigned_less [of p, where ?'a = nat] by simp
  then show ?thesis by (simp add: unsigned_ucast_eq take_bit_nat_eq_self)
qed

lemma CreateMask_u32:
  "CreateMask (p :: u32) =
     (if p = 0 \<or> p > 32 then Inl Bad_shift else if p = 1 then Inl Signed_overflow
      else Inr (mask (32 - unat p) :: u32))"
proof -
  let ?n = "of_nat LENGTH(32) - ucast p :: u64"
  have up: "unat (ucast p :: u64) = unat p" by (rule unat_ucast_u64)
  show ?thesis
  proof (cases "p > 32")
    case True
    then have gt: "32 < unat p" by (simp add: word_less_nat_alt)
    have "(ucast p :: u64) > 32" using gt by (simp add: word_less_nat_alt up)
    moreover have "unat p < 2 ^ 32" using unsigned_less [of p, where ?'a = nat] by simp
    ultimately have "unat ?n = 2 ^ 64 + 32 - unat p"
      using gt unat_sub_if_size [of "32 :: u64" "ucast p"] up by (simp add: word_size word_le_nat_alt)
    moreover have "unat p < 2 ^ 32" using unsigned_less [of p, where ?'a = nat] by simp
    ultimately have "?n \<ge> 32" by (simp add: word_le_nat_alt)
    with True show ?thesis by (simp add: CreateMask_def Let_def)
  next
    case False
    then have le: "unat p \<le> 32" by (simp add: word_less_nat_alt)
    then have "(ucast p :: u64) \<le> 32" by (simp add: word_le_nat_alt up)
    then have n: "unat ?n = 32 - unat p" by (simp add: unat_sub up)
    have c: "?n \<ge> 32 \<longleftrightarrow> unat p = 0" "?n = 31 \<longleftrightarrow> unat p = 1"
      using n le by (auto simp: word_le_nat_alt word_unat_eq_iff)
    have "p = 0 \<longleftrightarrow> unat p = 0" "p = 1 \<longleftrightarrow> unat p = 1" by (simp_all add: word_unat_eq_iff)
    moreover have "word_of_int (2 ^ k - 1) = (mask k :: u32)" for k by (simp add: mask_eq_exp_minus_1)
    ultimately show ?thesis using False n c by (simp add: CreateMask_def Let_def)
  qed
qed

lemma CreateMask_u8:
  assumes "p < (8 :: u32)"
  shows "CreateMask p = Inr (mask (8 - unat p) :: byte)"
proof -
  let ?n = "of_nat LENGTH(8) - ucast p :: u64"
  have up: "unat (ucast p :: u64) = unat p" by (rule unat_ucast_u64)
  have le: "unat p \<le> 8" using assms by (simp add: word_less_nat_alt)
  then have "(ucast p :: u64) \<le> 8" by (simp add: word_le_nat_alt up)
  then have n: "unat ?n = 8 - unat p" by (simp add: unat_sub up)
  then have "\<not> ?n \<ge> 32" "?n \<noteq> 31" by (auto simp: word_le_nat_alt word_unat_eq_iff)
  moreover have "word_of_int (2 ^ k - 1) = (mask k :: byte)" for k by (simp add: mask_eq_exp_minus_1)
  ultimately show ?thesis using n by (simp add: CreateMask_def Let_def)
qed

lemma byteswap_bitwise:
  fixes a b :: u32
  shows "byteswap (a OR b) = byteswap a OR byteswap b" "byteswap (a AND b) = byteswap a AND byteswap b"
    and "byteswap (NOT a) = NOT (byteswap a)"
proof -
  have "8 * (3 - k div 8) + k mod 8 < 32" for k :: nat
  proof -
    have "k mod 8 < 8" by simp
    then show ?thesis by linarith
  qed
  then show "byteswap (NOT a) = NOT (byteswap a)" by (intro bit_word_eqI) (simp add: bit_byteswap bit_simps)
qed (rule bit_word_eqI, auto simp: bit_byteswap bit_simps)+

lemma bswap_laws:
  fixes a b :: u32
  shows "byteswapOnLittleEndian host (byteswapOnLittleEndian host a) = a"
    and "byteswapOnLittleEndian host (a OR b) = byteswapOnLittleEndian host a OR byteswapOnLittleEndian host b"
    and "byteswapOnLittleEndian host (a AND b) = byteswapOnLittleEndian host a AND byteswapOnLittleEndian host b"
    and "byteswapOnLittleEndian host (NOT a) = NOT (byteswapOnLittleEndian host a)"
    and "popcount (byteswapOnLittleEndian host a) = popcount a"
  by (cases host; simp add: byteswapOnLittleEndian_def byteswap_bitwise popcount_byteswap)+

lemma bswap16_inv: "byteswapOnLittleEndian host (byteswapOnLittleEndian host (a :: u16)) = a"
  by (cases host) (simp_all add: byteswapOnLittleEndian_def)

lemma popcount_mask: "n \<le> LENGTH('a) \<Longrightarrow> popcount (mask n :: 'a::len word) = n"
proof -
  assume "n \<le> LENGTH('a)"
  then have "{i. bit (mask n :: 'a word) i} = {..< n}" by (auto simp: bit_mask_iff)
  then show ?thesis by (simp add: popcount_card)
qed

lemma bytes_le_u32:
  "bytes_le (w :: u32) = [ucast w, ucast (drop_bit 8 w), ucast (drop_bit 16 w), ucast (drop_bit 24 w)]"
  by (simp add: bytes_le_def upt_conv_Cons)

lemma mem_bytes_bswap: "mem_bytes host (byteswapOnLittleEndian host w) = rev (bytes_le (w :: u32))"
  by (cases host) (simp_all add: mem_bytes_def byteswapOnLittleEndian_def)

lemma octet_byte: "octet w n = digits (unat (ucast (drop_bit n w) :: byte))"
proof -
  have "drop_bit n w AND 0xff = take_bit 8 (drop_bit n w)" by (simp add: take_bit_eq_mask mask_eq_exp_minus_1)
  then have "unat (drop_bit n w AND 0xff) = unat (ucast (drop_bit n w) :: byte)"
    by (simp add: unsigned_ucast_eq unsigned_take_bit_eq)
  then show ?thesis by (simp add: octet_def)
qed

lemma unat_ucast_u16: "unat (ucast (p :: u16) :: u32) = unat p"
proof -
  have "unat p < 2 ^ 16" using unsigned_less [of p, where ?'a = nat] by simp
  then show ?thesis by (simp add: unsigned_ucast_eq take_bit_nat_eq_self)
qed

text \<open>The IPv4 address of an object as a number, and the number of the network part.\<close>

definition host_addr :: "endian \<Rightarrow> sockaddr_in \<Rightarrow> u32" where
  "host_addr host m = byteswapOnLittleEndian host (s_addr m)"

definition host_bits :: "u32 \<Rightarrow> u32" where
  "host_bits p = mask (32 - unat p)"

section \<open>Properties\<close>

text \<open>
  \<open>CountBytes\<close>, which clears the lowest set bit until none is left, ends and counts the bits that
  are set. So the prefix length that \<open>getInterfaceAddress\<close> computes from a netmask undoes \<open>subNetMask\<close> for
  each prefix length from 2 to 32, on hosts of both byte orders.
\<close>

lemma CountBytes_is_popcount:
  assumes "2 \<le> p" "p \<le> 32"
  shows "CountBytes v = of_nat (popcount (v :: 'a::len word))
    \<and> (\<exists>m. IPv4_subNetMask host p = Inr m \<and> CountBytes (s_addr m) = p)"
proof
  show count: "CountBytes v = of_nat (popcount v)" for v :: "'b::len word"
    by (simp add: CountBytes_def CountBytes_loop_popcount)
  let ?n = "32 - unat p"
  have p: "p \<noteq> 0" "p \<noteq> 1" "unat p \<le> 32" "\<not> 32 < p" using assms by (auto simp: word_le_nat_alt word_less_nat_alt)
  have "popcount (NOT (byteswapOnLittleEndian host (mask ?n :: u32))) = unat p"
    using p(3) popcount_mask [of ?n, where ?'a = 32] by (simp add: popcount_NOT bswap_laws)
  then show "\<exists>m. IPv4_subNetMask host p = Inr m \<and> CountBytes (s_addr m) = p"
    using p by (simp add: IPv4_subNetMask_def CreateMask_u32 count)
qed

text \<open>
  Subnets of IPv4: for a prefix length from 2 to 32, \<open>broadcastaAddress\<close> sets the host bits,
  \<open>subNetMask\<close> is the mask of the prefix, and \<open>networkAddress\<close> keeps the host bits and clears the network,
  the reverse of what its name and its comment say. A prefix longer than 32 gives a null pointer,
  except in \<open>subNetMask\<close>; 0 and 1, and anything longer than 32 in \<open>subNetMask\<close>, leave the range of the shift.
\<close>

lemma ipv4_subnets:
  "(2 \<le> p \<and> p \<le> 32 \<longrightarrow>
     (\<exists>b n k. IPv4_broadcastaAddress host m p = Inr (Some b) \<and> host_addr host b = host_addr host m OR host_bits p
       \<and> IPv4_networkAddress host m p = Inr (Some n) \<and> host_addr host n = host_addr host m AND host_bits p
       \<and> IPv4_subNetMask host p = Inr k \<and> host_addr host k = NOT (host_bits p)
       \<and> (host_addr host n \<noteq> host_addr host m AND host_addr host k \<or> host_addr host m = 0)))
   \<and> (32 < p \<longrightarrow> IPv4_broadcastaAddress host m p = Inr None \<and> IPv4_networkAddress host m p = Inr None
       \<and> IPv4_subNetMask host p = Inl Bad_shift)
   \<and> (\<forall>q e. (q, e) \<in> {(0, Bad_shift), (1, Signed_overflow)} \<longrightarrow>
       IPv4_broadcastaAddress host m q = Inl e \<and> IPv4_networkAddress host m q = Inl e \<and> IPv4_subNetMask host q = Inl e)"
proof (intro conjI impI)
  assume a: "2 \<le> p \<and> p \<le> 32"
  then have p: "p \<noteq> 0" "p \<noteq> 1" "\<not> 32 < p" by (auto simp: word_le_nat_alt word_less_nat_alt)
  let ?h = "byteswapOnLittleEndian host (host_bits p)"
  let ?b = "m\<lparr>s_addr := s_addr m OR ?h\<rparr>" and ?n = "m\<lparr>s_addr := s_addr m AND ?h\<rparr>"
    and ?k = "\<lparr>sin_family = AF_INET, sin_port = 0, s_addr = NOT ?h, sin_zero = replicate 8 0\<rparr>"
  have mask: "CreateMask p = Inr (host_bits p)" using p by (simp add: CreateMask_u32 host_bits_def)
  have part: "x = 0" if "x AND y = x AND NOT y" for x y :: u32
  proof (rule bit_word_eqI)
    show "bit x i \<longleftrightarrow> bit 0 i" if "i < LENGTH(32)" for i
      using that arg_cong [OF \<open>x AND y = x AND NOT y\<close>, of "\<lambda>w. bit w i"] by (auto simp: bit_simps)
  qed
  show "\<exists>b n k. IPv4_broadcastaAddress host m p = Inr (Some b) \<and> host_addr host b = host_addr host m OR host_bits p
       \<and> IPv4_networkAddress host m p = Inr (Some n) \<and> host_addr host n = host_addr host m AND host_bits p
       \<and> IPv4_subNetMask host p = Inr k \<and> host_addr host k = NOT (host_bits p)
       \<and> (host_addr host n \<noteq> host_addr host m AND host_addr host k \<or> host_addr host m = 0)"
    using p part [of "host_addr host m" "host_bits p"]
    by (intro exI [of _ ?b] exI [of _ ?n] exI [of _ ?k])
      (auto simp: IPv4_broadcastaAddress_def IPv4_networkAddress_def IPv4_subNetMask_def mask host_addr_def bswap_laws)
qed (auto simp: IPv4_broadcastaAddress_def IPv4_networkAddress_def IPv4_subNetMask_def CreateMask_u32)

text \<open>
  \<^bold>\<open>C30\<close>. Addresses survive their memory: \<open>Create\<close> applied to the bytes of an IPv4 or IPv6 address, as the
  kernel hands them back, gives that address, on hosts of both byte orders; the port set with \<open>setPort\<close>
  is the one \<open>getPort\<close> returns, and the text shows the bytes of the address in network order.
\<close>

theorem address_memory_roundtrip:
  assumes "sin_family m = AF_INET" "length (sin_zero m) = 8" "sin6_family n = AF_INET6" "length (s6_addr n) = 16"
  shows "Address_Create host (Some (getAddr host (IPv4Address m) @ rest)) = Inr (Some (IPv4Address m))
    \<and> Address_Create host (Some (getAddr host (IPv6Address n) @ rest)) = Inr (Some (IPv6Address n))
    \<and> IPv4_getPort host (IPv4_setPort host p m) = ucast p \<and> IPv6_getPort host (IPv6_setPort host p n) = ucast p
    \<and> IPv4_insert host m =
        (case mem_bytes host (s_addr m) of [a, b, c, d] \<Rightarrow>
           digits (unat a) @ ''.'' @ digits (unat b) @ ''.'' @ digits (unat c) @ ''.'' @ digits (unat d))
        @ '':'' @ digits (unat (IPv4_getPort host m))"
proof (intro conjI)
  let ?w = "byteswapOnLittleEndian host (s_addr m)"
  have "mem_bytes host (s_addr m) = mem_bytes host (byteswapOnLittleEndian host ?w)" by (simp only: bswap_laws)
  then have net: "mem_bytes host (s_addr m) = rev (bytes_le ?w)" by (simp only: mem_bytes_bswap)
  show "Address_Create host (Some (getAddr host (IPv4Address m) @ rest)) = Inr (Some (IPv4Address m))"
    using assms(1,2) by (cases m) (simp add: Address_Create_def load_in_def Let_def)
  show "Address_Create host (Some (getAddr host (IPv6Address n) @ rest)) = Inr (Some (IPv6Address n))"
    using assms(3,4) by (cases n) (simp add: Address_Create_def load_in6_def Let_def)
  show "IPv4_getPort host (IPv4_setPort host p m) = ucast p" "IPv6_getPort host (IPv6_setPort host p n) = ucast p"
    by (simp_all add: IPv4_getPort_def IPv4_setPort_def IPv6_getPort_def IPv6_setPort_def bswap16_inv)
  show "IPv4_insert host m =
        (case mem_bytes host (s_addr m) of [a, b, c, d] \<Rightarrow>
           digits (unat a) @ ''.'' @ digits (unat b) @ ''.'' @ digits (unat c) @ ''.'' @ digits (unat d))
        @ '':'' @ digits (unat (IPv4_getPort host m))"
    unfolding net bytes_le_u32
    by (simp add: IPv4_insert_def IPv4_getPort_def Let_def octet_byte unat_ucast_u16)
qed

theorem address_memory_roundtrip_witness:
  "Address_Create WINDGENT_LITTLE_ENDIAN (Some (getAddr WINDGENT_LITTLE_ENDIAN
     (IPv4Address (IPv4Address_new WINDGENT_LITTLE_ENDIAN 0x7F000001 8080)))) =
   Inr (Some (IPv4Address (IPv4Address_new WINDGENT_LITTLE_ENDIAN 0x7F000001 8080)))"
  using address_memory_roundtrip [of "IPv4Address_new WINDGENT_LITTLE_ENDIAN 0x7F000001 8080" IPv6Address_zero
      WINDGENT_LITTLE_ENDIAN "[]"]
  by (simp add: IPv4Address_new_def IPv6Address_zero_def)

text \<open>\<open>memcmp\<close> is antisymmetric.\<close>

lemma memcmp_flip: "memcmp ys xs = - memcmp xs ys"
  by (induction xs ys rule: memcmp.induct) auto

text \<open>
  The order of addresses is total but not strict: of two addresses one is less than the other,
  and two addresses are each less than the other exactly when they are equal. An address is less
  than itself, so \<open>operator<\<close> is not a comparator that \<open>std::set\<close> or \<open>std::map\<close> may use.
\<close>

lemma address_order:
  "(addr_less host a b \<or> addr_less host b a)
   \<and> (addr_less host a b \<and> addr_less host b a \<longleftrightarrow> \<not> addr_neq host a b)
   \<and> addr_less host a a"
proof -
  let ?m = "min (getAddrLen a) (getAddrLen b)"
  have flip: "memcmp (take n (getAddr host b)) (take n (getAddr host a)) = - memcmp (take n (getAddr host a)) (take n (getAddr host b))" for n
    by (rule memcmp_flip)
  have "?m = getAddrLen a \<or> ?m = getAddrLen b" "?m = getAddrLen a \<and> ?m = getAddrLen b \<longleftrightarrow> getAddrLen a = getAddrLen b"
    by (auto simp: min_def)
  then show ?thesis
    using flip [of "unat ?m"] memcmp_flip [of "take n (getAddr host a)" "take n (getAddr host a)" for n]
    by (auto simp: addr_less_def addr_neq_def addr_eq_def Let_def min.commute [of "getAddrLen b"])
qed

section \<open>Host names\<close>

lemma memchr_split: "c \<notin> set s \<Longrightarrow> memchr (s @ c # t) c = Some (length s)"
proof -
  assume "c \<notin> set s"
  then have "takeWhile (\<lambda>x. x \<noteq> c) (s @ c # t) = s" by (induction s) auto
  then show ?thesis by (simp add: memchr_def)
qed

lemma memchr_None: "memchr s c = None \<longleftrightarrow> c \<notin> set s"
proof -
  have "length (takeWhile (\<lambda>x. x \<noteq> c) s) < length s \<longleftrightarrow> c \<in> set s" by (induction s) auto
  then show ?thesis by (simp add: memchr_def Let_def)
qed

text \<open>
  The text given to \<open>getAllAddrFromHost\<close> is taken apart as documented for the bracketed form of
  IPv6 addresses, for \<open>node:service\<close> and for a plain node. A text with two colons and no bracket, such
  as a bare IPv6 address, is passed whole as the node, but with a service that starts at the colon.
\<close>

lemma split_host_forms:
  "(n \<noteq> [] \<and> CHR '']'' \<notin> set n \<longrightarrow>
      split_host (CHR ''['' # n @ '']:'' @ svc) = (n, Some svc) \<and> split_host (CHR ''['' # n @ '']'') = (n, None))
   \<and> (n \<noteq> [] \<and> hd n \<noteq> CHR ''['' \<and> CHR '':'' \<notin> set n \<longrightarrow>
      split_host n = (n, None)
      \<and> (CHR '':'' \<notin> set svc \<longrightarrow> split_host (n @ '':'' @ svc) = (n, Some svc))
      \<and> (CHR '':'' \<in> set svc \<longrightarrow> split_host (n @ '':'' @ svc) = (n @ '':'' @ svc, Some ('':'' @ svc))))"
proof (intro conjI impI)
  assume n: "n \<noteq> [] \<and> CHR '']'' \<notin> set n"
  have m: "memchr (n @ CHR '']'' # x) CHR '']'' = Some (length n)" for x using n by (intro memchr_split) simp
  show "split_host (CHR ''['' # n @ '']:'' @ svc) = (n, Some svc)" "split_host (CHR ''['' # n @ '']'') = (n, None)"
    using n by (simp_all add: split_host_def m numeral_3_eq_3)
next
  assume n: "n \<noteq> [] \<and> hd n \<noteq> CHR ''['' \<and> CHR '':'' \<notin> set n"
  have m: "memchr (n @ CHR '':'' # x) CHR '':'' = Some (length n)" for x using n by (intro memchr_split) simp
  have none: "memchr n CHR '':'' = None" using n by (simp add: memchr_None)
  show "split_host n = (n, None)" using n none by (simp add: split_host_def)
  show "split_host (n @ '':'' @ svc) = (n, Some svc)" if "CHR '':'' \<notin> set svc"
    using n that by (simp add: split_host_def m memchr_None)
  show "split_host (n @ '':'' @ svc) = (n @ '':'' @ svc, Some ('':'' @ svc))" if "CHR '':'' \<in> set svc"
    using n that by (simp add: split_host_def m memchr_None)
qed

section \<open>Masks of IPv6\<close>

lemma fold_fill:
  "i \<le> n \<Longrightarrow> n \<le> length bs \<Longrightarrow>
   fold (\<lambda>j bs. bs[j := b]) [i ..< n] bs = take i bs @ replicate (n - i) b @ drop n bs"
proof (induction n)
  case (Suc n)
  show ?case
  proof (cases "i = Suc n")
    case False
    with Suc.prems have i: "i \<le> n" by simp
    with Suc have "fold (\<lambda>j bs. bs[j := b]) [i ..< Suc n] bs = (take i bs @ replicate (n - i) b @ drop n bs)[n := b]" by simp
    also have "drop n bs = bs ! n # drop (Suc n) bs" using Suc.prems by (simp add: Cons_nth_drop_Suc)
    finally show ?thesis using i Suc.prems
      by (simp add: list_update_append min_absorb2 Suc_diff_le replicate_append_same [symmetric])
  qed simp
qed simp

lemma fill_from_eq: "length bs = 16 \<Longrightarrow> i \<le> 16 \<Longrightarrow> fill_from i b bs = take i bs @ replicate (16 - i) b"
  by (simp add: fill_from_def fold_fill)

lemma u32_div8: "unat (p div (8 :: u32)) = unat p div 8" "unat (p mod (8 :: u32)) = unat p mod 8"
  by (simp_all add: unat_div unat_mod)

text \<open>
  The masks of IPv6 end at a byte boundary, because the loops start at the byte that was just masked;
  \<open>subNetMask\<close> sets the host part, not the network; a prefix length of 128 writes past \<open>s6_addr\<close>.
\<close>

lemma ipv6_masks:
  fixes p :: u32
  assumes "length (s6_addr m) = 16"
  defines "k \<equiv> unat p div 8"
  shows "(p < 128 \<longrightarrow>
      IPv6_broadcastaAddress m p = Inr (m\<lparr>s6_addr := take k (s6_addr m) @ replicate (16 - k) 0xff\<rparr>)
      \<and> IPv6_networkAddress m p = Inr (m\<lparr>s6_addr := take k (s6_addr m) @ replicate (16 - k) 0\<rparr>)
      \<and> IPv6_subNetMask p = Inr (IPv6Address_zero\<lparr>s6_addr := replicate k 0 @ replicate (16 - k) 0xff\<rparr>))
    \<and> (128 \<le> p \<longrightarrow> IPv6_broadcastaAddress m p = Inl Out_of_bounds \<and> IPv6_networkAddress m p = Inl Out_of_bounds
      \<and> IPv6_subNetMask p = Inl Out_of_bounds)"
proof -
  have "p mod 8 < 8" by (simp add: word_less_nat_alt u32_div8)
  note mask = CreateMask_u8 [OF this]
  have k: "p < 128 \<longleftrightarrow> k < 16" "128 \<le> p \<longleftrightarrow> \<not> k < 16"
    unfolding k_def word_less_nat_alt word_le_nat_alt by auto
  show ?thesis
    unfolding IPv6_broadcastaAddress_def IPv6_networkAddress_def IPv6_subNetMask_def mask u32_div8 k_def [symmetric] k
    using assms(1) by (auto simp: upd_byte_def fill_from_eq IPv6Address_zero_def take_replicate min_absorb2)
qed

section \<open>The text of IPv6 addresses\<close>

text \<open>The reference: the groups in network order, the first run of zero groups written as two colons.\<close>

fun join :: "string list \<Rightarrow> string" where
  "join [] = []"
| "join [x] = x"
| "join (x # xs) = x @ '':'' @ join xs"

definition ipv6_text :: "u16 list \<Rightarrow> string" where
  "ipv6_text gs =
     (let pre = takeWhile (\<lambda>g. g \<noteq> 0) gs; rest = dropWhile (\<lambda>g. g \<noteq> 0) gs; post = dropWhile (\<lambda>g. g = 0) rest;
          hex = join \<circ> map (\<lambda>g. hex_digits (unat g))
      in if rest = [] then hex pre else hex pre @ ''::'' @ hex post)"

definition net16 :: "byte list \<Rightarrow> nat \<Rightarrow> u16" where
  "net16 bs i = word_le (rev (take 2 (drop (2 * i) bs)))"

lemma group16_net:
  assumes "length bs = 16" "i < 8"
  shows "byteswapOnLittleEndian host (group16 host bs i) = net16 bs i" "group16 host bs i = 0 \<longleftrightarrow> net16 bs i = 0"
proof -
  have len: "length (take 2 (drop (2 * i) bs)) = 2" using assms by simp
  then show eq: "byteswapOnLittleEndian host (group16 host bs i) = net16 bs i"
    by (cases host) (simp_all add: byteswapOnLittleEndian_def group16_def net16_def word_of_mem_def byteswap_def)
  have "byteswap (0 :: u16) = 0" by code_simp
  then have "byteswapOnLittleEndian host (0 :: u16) = 0" by (cases host) (simp_all add: byteswapOnLittleEndian_def)
  with eq show "group16 host bs i = 0 \<longleftrightarrow> net16 bs i = 0" using bswap16_inv by metis
qed

text \<open>What one round adds when no zeros were dropped before it, and what it adds after that.\<close>

definition part :: "(nat \<Rightarrow> string) \<Rightarrow> nat \<Rightarrow> string" where
  "part h i = (if i \<noteq> 0 then '':'' else []) @ h i"

lemma join_parts: "h i @ concat (map (part h) [Suc i ..< n]) = join (map h [i ..< n])" if "i < n"
  using that
proof (induction "n - i" arbitrary: i)
  case (Suc d)
  show ?case
  proof (cases "Suc i < n")
    case True
    with Suc have "h (Suc i) @ concat (map (part h) [Suc (Suc i) ..< n]) = join (map h [Suc i ..< n])" by simp
    with True Suc show ?thesis by (simp add: upt_conv_Cons part_def)
  qed (use Suc in \<open>simp add: upt_conv_Cons\<close>)
qed simp

lemma parts_0: "concat (map (part h) [0 ..< n]) = join (map h [0 ..< n])"
proof (cases n)
  case (Suc m)
  then have "[0 ..< n] = 0 # [Suc 0 ..< n]" by (simp only: upt_conv_Cons zero_less_Suc)
  then have "concat (map (part h) [0 ..< n]) = h 0 @ concat (map (part h) [Suc 0 ..< n])"
    by (simp only: list.map concat.simps part_def simp_thms if_False append_Nil)
  then show ?thesis using join_parts [of 0 n h] Suc by (simp only: zero_less_Suc)
qed simp

definition group_text :: "endian \<Rightarrow> (nat \<Rightarrow> u16) \<Rightarrow> nat \<Rightarrow> string" where
  "group_text host addr i = hex_digits (unat (byteswapOnLittleEndian host (addr i)))"

lemma loop_used:
  "0 < i \<Longrightarrow> i \<le> 8 \<Longrightarrow>
   insert_loop host addr i True os = (os @ concat (map (part (group_text host addr)) [i ..< 8]), True)"
proof (induction "8 - i" arbitrary: i os)
  case 0
  then show ?case by (subst insert_loop.simps) simp
next
  case (Suc d)
  have "i < 8" using Suc.hyps(2) by simp
  have "insert_loop host addr i True os = insert_loop host addr (Suc i) True (os @ part (group_text host addr) i)"
    using Suc.prems \<open>i < 8\<close> by (subst insert_loop.simps) (simp add: part_def group_text_def)
  also have "\<dots> = ((os @ part (group_text host addr) i) @ concat (map (part (group_text host addr)) [Suc i ..< 8]), True)"
    using Suc.hyps by (intro Suc.hyps(1)) simp_all
  finally show ?case using \<open>i < 8\<close> by (simp add: upt_conv_Cons)
qed

lemma loop_nonzero:
  "i \<le> a \<Longrightarrow> a \<le> 8 \<Longrightarrow> \<forall>j < a. addr j \<noteq> 0 \<Longrightarrow>
   insert_loop host addr i False os = insert_loop host addr a False (os @ concat (map (part (group_text host addr)) [i ..< a]))"
proof (induction "a - i" arbitrary: i os)
  case (Suc d)
  have "addr i \<noteq> 0" "i \<noteq> 0 \<longrightarrow> addr (i - 1) \<noteq> 0" "i < 8" "i < a" using Suc.prems Suc.hyps(2) by simp_all
  then have "insert_loop host addr i False os = insert_loop host addr (Suc i) False (os @ part (group_text host addr) i)"
    by (subst insert_loop.simps) (simp add: part_def group_text_def)
  also have "\<dots> = insert_loop host addr a False ((os @ part (group_text host addr) i) @ concat (map (part (group_text host addr)) [Suc i ..< a]))"
    using Suc by (intro Suc.hyps(1)) simp_all
  finally show ?case using \<open>i < a\<close> by (simp add: upt_conv_Cons)
qed simp

lemma loop_zero:
  "i \<le> b \<Longrightarrow> b \<le> 8 \<Longrightarrow> \<forall>j. i \<le> j \<and> j < b \<longrightarrow> addr j = 0 \<Longrightarrow>
   insert_loop host addr i False os = insert_loop host addr b False os"
proof (induction "b - i" arbitrary: i)
  case (Suc d)
  have "i < 8" "addr i = 0" using Suc.prems Suc.hyps(2) by simp_all
  then have "insert_loop host addr i False os = insert_loop host addr (Suc i) False os"
    by (subst insert_loop.simps) simp
  also have "\<dots> = insert_loop host addr b False os" using Suc by (intro Suc.hyps(1)) simp_all
  finally show ?case .
qed simp

lemma loop_result:
  fixes host :: endian and addr :: "nat \<Rightarrow> u16"
  assumes "a \<le> b" "b \<le> 8" "\<forall>j < a. addr j \<noteq> 0" "\<forall>j. a \<le> j \<and> j < b \<longrightarrow> addr j = 0" "b < 8 \<longrightarrow> a < b \<and> addr b \<noteq> 0"
  defines "h \<equiv> group_text host addr"
  shows "insert_loop host addr 0 False os =
     (os @ join (map h [0 ..< a]) @ (if b < 8 then ''::'' @ join (map h [b ..< 8]) else []), b < 8)"
proof -
  let ?os = "os @ join (map h [0 ..< a])"
  have "insert_loop host addr 0 False os = insert_loop host addr a False ?os"
    using assms(1-3) loop_nonzero [of 0 a addr host os] by (simp add: parts_0 h_def)
  also have "\<dots> = insert_loop host addr b False ?os" using assms(1,2,4) by (intro loop_zero)
  also have "\<dots> = (?os @ (if b < 8 then ''::'' @ join (map h [b ..< 8]) else []), b < 8)"
  proof (cases "b < 8")
    case True
    then have z: "addr b \<noteq> 0" "b \<noteq> 0" "addr (b - 1) = 0" using assms(4,5) by auto
    have "insert_loop host addr b False ?os = insert_loop host addr (Suc b) True (?os @ ''::'' @ h b)"
      using True z by (subst insert_loop.simps) (simp add: h_def group_text_def)
    also have "\<dots> = ((?os @ ''::'' @ h b) @ concat (map (part h) [Suc b ..< 8]), True)"
      unfolding h_def using True by (intro loop_used) simp_all
    finally show ?thesis using True join_parts [of b 8 h] by simp
  next
    case False
    then show ?thesis using assms(2) by (subst insert_loop.simps) simp
  qed
  finally show ?thesis by simp
qed

lemma takeWhile_upt:
  assumes "n \<le> m"
  obtains k where "n \<le> k" "k \<le> m" "takeWhile P (map f [n ..< m]) = map f [n ..< k]"
    "dropWhile P (map f [n ..< m]) = map f [k ..< m]" "\<forall>j. n \<le> j \<and> j < k \<longrightarrow> P (f j)" "k < m \<longrightarrow> \<not> P (f k)"
proof -
  let ?xs = "map f [n ..< m]"
  define k where "k = n + length (takeWhile P ?xs)"
  have le: "k \<le> m" using assms length_takeWhile_le [of P ?xs] by (simp add: k_def)
  have t: "takeWhile P ?xs = map f [n ..< k]"
    using le by (subst takeWhile_eq_take) (simp add: take_map take_upt k_def)
  have d: "dropWhile P ?xs = map f [k ..< m]"
    using le by (subst dropWhile_eq_drop) (simp add: drop_map k_def)
  have below: "P (f j)" if "n \<le> j" "j < k" for j
  proof -
    have "f j \<in> set (takeWhile P ?xs)" unfolding t using that by simp
    then show ?thesis by (rule set_takeWhileD [THEN conjunct2])
  qed
  have at: "\<not> P (f k)" if "k < m"
  proof -
    have c: "map f [k ..< m] = f k # map f [Suc k ..< m]" unfolding upt_conv_Cons [OF that] list.map ..
    show ?thesis using hd_dropWhile [of P ?xs] unfolding d c by simp
  qed
  have "n \<le> k" by (simp only: k_def le_add1)
  then show ?thesis using le t d below at by (intro that [of k]) blast+
qed

text \<open>
  \<^bold>\<open>C35\<close>. The text of an IPv6 address, written by a loop over the cast groups with a flag, is the one of
  the reference: the groups in network order in hexadecimal, with the first run of zero groups, also
  a run of one, written as two colons, whichever byte order the host has.
\<close>

theorem ipv6_text_correct:
  assumes "length (s6_addr m) = 16"
  shows "IPv6_insert host m =
    ''['' @ ipv6_text (map (net16 (s6_addr m)) [0 ..< 8]) @ '']:'' @ digits (unat (IPv6_getPort host m))"
proof -
  let ?addr = "group16 host (s6_addr m)" and ?net = "net16 (s6_addr m)"
  let ?h = "group_text host ?addr" and ?g = "\<lambda>i. hex_digits (unat (?net i))"
  have zero: "?addr i = 0 \<longleftrightarrow> ?net i = 0" "?h i = ?g i" if "i < 8" for i
    using group16_net [OF assms that] by (simp_all add: group_text_def)
  obtain a where a: "a \<le> 8" "takeWhile (\<lambda>g. g \<noteq> 0) (map ?net [0 ..< 8]) = map ?net [0 ..< a]"
    "dropWhile (\<lambda>g. g \<noteq> 0) (map ?net [0 ..< 8]) = map ?net [a ..< 8]" "\<forall>j < a. ?net j \<noteq> 0" "a < 8 \<longrightarrow> ?net a = 0"
    using takeWhile_upt [of 0 8 "\<lambda>g. g \<noteq> 0" ?net] by auto
  obtain b where b: "a \<le> b" "b \<le> 8" "dropWhile (\<lambda>g. g = 0) (map ?net [a ..< 8]) = map ?net [b ..< 8]"
    "\<forall>j. a \<le> j \<and> j < b \<longrightarrow> ?net j = 0" "b < 8 \<longrightarrow> ?net b \<noteq> 0"
    using takeWhile_upt [OF a(1), of "\<lambda>g. g = 0" ?net] by metis
  have ab: "a < b" if "a < 8" using that a(5) b(1,2,5) by (metis le_neq_implies_less)
  have loop: "insert_loop host ?addr 0 False ''['' =
     (''['' @ join (map ?h [0 ..< a]) @ (if b < 8 then ''::'' @ join (map ?h [b ..< 8]) else []), b < 8)"
    using a b ab zero(1) by (intro loop_result) auto
  have maps: "map ?h [0 ..< a] = map ?g [0 ..< a]" "map ?h [b ..< 8] = map ?g [b ..< 8]"
    using zero(2) a(1) by simp_all
  have last: "?addr 7 = 0 \<longleftrightarrow> a < 8" if "\<not> b < 8"
  proof -
    have "b = 8" using that b(2) by simp
    then show ?thesis using zero(1) [of 7] a(4) b(4) by (cases "a < 8") auto
  qed
  have "ipv6_text (map ?net [0 ..< 8]) =
    join (map ?g [0 ..< a]) @ (if a < 8 then ''::'' @ join (map ?g [b ..< 8]) else [])"
    unfolding ipv6_text_def Let_def a(2,3) b(3) by (simp add: comp_def)
  moreover have "b < 8 \<Longrightarrow> a < 8" using b(1) by simp
  ultimately show ?thesis
    unfolding IPv6_insert_def Let_def loop maps using last
    by (auto simp: IPv6_getPort_def unat_ucast_u16)
qed

theorem ipv6_text_correct_witness:
  "IPv6_insert WINDGENT_LITTLE_ENDIAN (IPv6Address_new WINDGENT_LITTLE_ENDIAN (replicate 15 0 @ [1]) 80) = ''[::1]:80''"
proof -
  let ?m = "IPv6Address_new WINDGENT_LITTLE_ENDIAN (replicate 15 0 @ [1]) 80"
  have "length (s6_addr ?m) = 16" by (simp add: IPv6Address_new_def)
  moreover have "''['' @ ipv6_text (map (net16 (s6_addr ?m)) [0 ..< 8]) @ '']:'' @ digits (unat (IPv6_getPort WINDGENT_LITTLE_ENDIAN ?m))
    = ''[::1]:80''" by code_simp
  ultimately show ?thesis using ipv6_text_correct [of ?m WINDGENT_LITTLE_ENDIAN] by simp
qed

section \<open>Unix addresses\<close>

lemma unat_len_u32: "n < 2 ^ 32 \<Longrightarrow> unat (of_nat n :: u32) = n"
  by (simp add: unat_of_nat take_bit_nat_eq_self)

lemma UnixAddress_path_eq:
  assumes "length path < 2 ^ 32 - 1" "path \<noteq> []"
  defines "n \<equiv> length path + (if hd path = CHR 0x00 then 0 else 1)"
  shows "UnixAddress_path path =
    (if n > 108 then Inl Logic_error
     else Inr (\<lparr>sun_family = AF_UNIX, sun_path = take n (path @ [CHR 0x00]) @ replicate (108 - n) (CHR 0x00)\<rparr>, of_nat (n + 2)))"
proof -
  have len: "(if path \<noteq> [] \<and> hd path = CHR 0x00 then of_nat (length path) + 1 - 1 else of_nat (length path) + 1) = (of_nat n :: u32)"
    using assms(2) by (simp add: n_def)
  have n: "unat (of_nat n :: u32) = n" using assms(1) by (intro unat_len_u32) (simp add: n_def)
  have "(of_nat n :: u32) > 108 \<longleftrightarrow> n > 108" by (simp only: word_less_nat_alt n) simp
  moreover have "splice_at 0 (take n (path @ [CHR 0x00])) (replicate 108 (CHR 0x00))
    = take n (path @ [CHR 0x00]) @ replicate (108 - n) (CHR 0x00)" if "\<not> n > 108"
  proof -
    have "length (take n (path @ [CHR 0x00])) = n" by (simp add: n_def)
    then show ?thesis by (simp add: splice_at_def)
  qed
  ultimately show ?thesis unfolding UnixAddress_path_def Let_def len n by simp
qed

text \<open>
  Unix addresses: a path without NUL that fits with its terminator is printed unchanged; an
  abstract name, which starts with NUL, is printed after a backslash and a 0, and may be one byte longer;
  a longer path throws \<open>std::logic_error\<close>. The length is that of the structure's used part.
\<close>

lemma unix_path_roundtrip:
  assumes "length path < 2 ^ 32 - 1" "path \<noteq> []"
  shows "(CHR 0x00 \<notin> set path \<and> length path \<le> 107 \<longrightarrow>
      (\<exists>a. UnixAddress_path path = Inr a \<and> Unix_insert a = Inr path \<and> unat (snd a) = length path + 3))
    \<and> (hd path = CHR 0x00 \<and> length path \<le> 108 \<longrightarrow>
      (\<exists>a. UnixAddress_path path = Inr a \<and> Unix_insert a = Inr (CHR 0x5C # ''0'' @ tl path) \<and> unat (snd a) = length path + 2))
    \<and> (length path > (if hd path = CHR 0x00 then 108 else 107) \<longrightarrow> UnixAddress_path path = Inl Logic_error)"
proof (intro conjI impI)
  obtain c cs where path: "path = c # cs" using assms(2) by (cases path) auto
  assume a: "CHR 0x00 \<notin> set path \<and> length path \<le> 107"
  let ?a = "(\<lparr>sun_family = AF_UNIX, sun_path = path @ CHR 0x00 # replicate (107 - length path) (CHR 0x00)\<rparr>,
    of_nat (length path + 3) :: u32)"
  have "hd path \<noteq> CHR 0x00" using a path by auto
  then have "UnixAddress_path path = Inr ?a" using a UnixAddress_path_eq [OF assms] by (simp add: eval_nat_numeral)
  moreover have "(path @ CHR 0x00 # replicate (107 - length path) (CHR 0x00)) ! 0 \<noteq> CHR 0x00" using a path by auto
  then have "Unix_insert ?a = Inr path" using a by (simp add: Unix_insert_def c_str_no_nul)
  moreover have "unat (snd ?a) = length path + 3" using a unat_len_u32 [of "length path + 3"] by simp
  ultimately show "\<exists>a. UnixAddress_path path = Inr a \<and> Unix_insert a = Inr path \<and> unat (snd a) = length path + 3" by blast
next
  assume a: "hd path = CHR 0x00 \<and> length path \<le> 108"
  then obtain cs where path: "path = CHR 0x00 # cs" using assms(2) by (cases path) auto
  let ?l = "of_nat (length path + 2) :: u32"
  let ?a = "(\<lparr>sun_family = AF_UNIX, sun_path = path @ replicate (108 - length path) (CHR 0x00)\<rparr>, ?l)"
  have l: "unat ?l = length path + 2" using a by (intro unat_len_u32) simp
  then have "?l > 2" by (simp only: word_less_nat_alt) (simp add: path)
  have "UnixAddress_path path = Inr ?a" using a UnixAddress_path_eq [OF assms] by simp
  moreover have "Unix_insert ?a = Inr (CHR 0x5C # ''0'' @ tl path)"
    using a l \<open>?l > 2\<close> unfolding Unix_insert_def by (simp add: path del: of_nat_add)
  moreover have "unat (snd ?a) = length path + 2" using l by simp
  ultimately show "\<exists>a. UnixAddress_path path = Inr a \<and> Unix_insert a = Inr (CHR 0x5C # ''0'' @ tl path)
    \<and> unat (snd a) = length path + 2" by blast
next
  assume "length path > (if hd path = CHR 0x00 then 108 else 107)"
  then show "UnixAddress_path path = Inl Logic_error" using UnixAddress_path_eq [OF assms] by (simp split: if_splits)
qed

end
