(* ===== verification/Socket.thy ===== *)
theory Socket
  imports Address Fd_Manager IO_Manager
begin

text \<open>
  windgent/socket.h and windgent/socket.cc. A \<open>Socket\<close> is a record; the calls of the C library and of the
  descriptor table that it makes are the fields of \<open>sysapi\<close>, functions on the state \<open>'w\<close> of the rest of
  the world, so that what a method does to the world is the sequence of calls it makes. A buffer that is
  sent is its bytes, a list of \<open>iovec\<close> the bytes of each; a buffer that is filled is the bytes received.
\<close>

section \<open>The calls\<close>

datatype optval = Opt_int int | Opt_timeval int int

record 'w sysapi =
  y_socket :: "int \<Rightarrow> int \<Rightarrow> int \<Rightarrow> 'w \<Rightarrow> int \<times> 'w"
  y_bind :: "int \<Rightarrow> byte list \<Rightarrow> u32 \<Rightarrow> 'w \<Rightarrow> int \<times> 'w"
  y_listen :: "int \<Rightarrow> int \<Rightarrow> 'w \<Rightarrow> int \<times> 'w"
  y_connect :: "int \<Rightarrow> byte list \<Rightarrow> u32 \<Rightarrow> 'w \<Rightarrow> int \<times> 'w"
  y_connect_with_timeout :: "int \<Rightarrow> byte list \<Rightarrow> u32 \<Rightarrow> u64 \<Rightarrow> 'w \<Rightarrow> int \<times> 'w"
  y_accept :: "int \<Rightarrow> 'w \<Rightarrow> int \<times> 'w"
  y_close :: "int \<Rightarrow> 'w \<Rightarrow> 'w"
  y_send :: "int \<Rightarrow> byte list \<Rightarrow> int \<Rightarrow> 'w \<Rightarrow> int \<times> 'w"
  y_sendto :: "int \<Rightarrow> byte list \<Rightarrow> int \<Rightarrow> byte list \<Rightarrow> u32 \<Rightarrow> 'w \<Rightarrow> int \<times> 'w"
  y_sendmsg :: "int \<Rightarrow> byte list list \<Rightarrow> byte list \<Rightarrow> u32 \<Rightarrow> int \<Rightarrow> 'w \<Rightarrow> int \<times> 'w"
  y_recv :: "int \<Rightarrow> nat \<Rightarrow> int \<Rightarrow> 'w \<Rightarrow> int \<times> byte list \<times> 'w"
  y_recvmsg :: "int \<Rightarrow> nat list \<Rightarrow> int \<Rightarrow> 'w \<Rightarrow> int \<times> byte list \<times> 'w"
  y_recvfrom :: "int \<Rightarrow> nat \<Rightarrow> int \<Rightarrow> byte list \<Rightarrow> 'w \<Rightarrow> int \<times> byte list \<times> byte list \<times> 'w"
  y_getsockname :: "int \<Rightarrow> byte list \<Rightarrow> u32 \<Rightarrow> 'w \<Rightarrow> (byte list \<times> u32) option"
  y_getpeername :: "int \<Rightarrow> byte list \<Rightarrow> u32 \<Rightarrow> 'w \<Rightarrow> (byte list \<times> u32) option"
  y_setsockopt :: "int \<Rightarrow> int \<Rightarrow> int \<Rightarrow> optval \<Rightarrow> 'w \<Rightarrow> int \<times> 'w"
  y_getsockopt :: "int \<Rightarrow> int \<Rightarrow> int \<Rightarrow> 'w \<Rightarrow> optval option"
  y_errno :: "'w \<Rightarrow> int"
  y_fds :: "'w \<Rightarrow> fd_manager"

abbreviation SOL_SOCKET :: int where "SOL_SOCKET \<equiv> 1"
abbreviation SO_REUSEADDR :: int where "SO_REUSEADDR \<equiv> 2"
abbreviation SO_ERROR :: int where "SO_ERROR \<equiv> 4"
abbreviation SO_RCVTIMEO :: int where "SO_RCVTIMEO \<equiv> 20"
abbreviation SO_SNDTIMEO :: int where "SO_SNDTIMEO \<equiv> 21"
abbreviation IPPROTO_TCP :: int where "IPPROTO_TCP \<equiv> 6"
abbreviation TCP_NODELAY :: int where "TCP_NODELAY \<equiv> 1"
abbreviation SOCK_STREAM :: int where "SOCK_STREAM \<equiv> 1"
abbreviation SOCK_DGRAM :: int where "SOCK_DGRAM \<equiv> 2"

section \<open>Sockets\<close>

record sock =
  m_sockfd :: int
  m_family :: int
  m_type :: int
  m_protocol :: int
  m_isConnected :: bool
  m_localAddress :: "address option"
  m_remoteAddress :: "address option"

definition Socket_new :: "int \<Rightarrow> int \<Rightarrow> int \<Rightarrow> sock" where
  "Socket_new family type protocol =
     \<lparr>m_sockfd = - 1, m_family = family, m_type = type, m_protocol = protocol, m_isConnected = False,
      m_localAddress = None, m_remoteAddress = None\<rparr>"

definition createTCP :: "address \<Rightarrow> sock" where
  "createTCP addr = Socket_new (uint (getFamily addr)) SOCK_STREAM 0"

definition createUDP :: "address \<Rightarrow> sock" where
  "createUDP addr = Socket_new (uint (getFamily addr)) SOCK_DGRAM 0"

definition createTCPSocket :: sock where "createTCPSocket = Socket_new (uint AF_INET) SOCK_STREAM 0"

definition createUDPSocket :: sock where "createUDPSocket = Socket_new (uint AF_INET) SOCK_DGRAM 0"

definition createTCPSocket6 :: sock where "createTCPSocket6 = Socket_new (uint AF_INET6) SOCK_STREAM 0"

definition createUDPSocket6 :: sock where "createUDPSocket6 = Socket_new (uint AF_INET6) SOCK_DGRAM 0"

definition createUnixTCPSocket :: sock where "createUnixTCPSocket = Socket_new (uint AF_UNIX) SOCK_STREAM 0"

definition createUnixUDPSocket :: sock where "createUnixUDPSocket = Socket_new (uint AF_UNIX) SOCK_DGRAM 0"

definition isValid :: "sock \<Rightarrow> bool" where
  "isValid s \<longleftrightarrow> m_sockfd s \<noteq> - 1"

section \<open>Options and timeouts\<close>

definition getSockOpt :: "'w sysapi \<Rightarrow> sock \<Rightarrow> int \<Rightarrow> int \<Rightarrow> 'w \<Rightarrow> optval option" where
  "getSockOpt k s level optname w = y_getsockopt k (m_sockfd s) level optname w"

definition setSockOpt :: "'w sysapi \<Rightarrow> sock \<Rightarrow> int \<Rightarrow> int \<Rightarrow> optval \<Rightarrow> 'w \<Rightarrow> bool \<times> 'w" where
  "setSockOpt k s level optname v w =
     (let (ret, w) = y_setsockopt k (m_sockfd s) level optname v w in (ret = 0, w))"

text \<open>\<open>FdMgr::GetInstance()->get(fd)\<close>, without creation.\<close>

definition fd_ctx_of :: "'w sysapi \<Rightarrow> int \<Rightarrow> 'w \<Rightarrow> fd_ctx option result" where
  "fd_ctx_of k fd w =
     rbind (get_read (y_fds k w) fd False) (\<lambda>r.
       case r of Some (Some p) \<Rightarrow> Inr (fm_heap (y_fds k w) p) | _ \<Rightarrow> Inr None)"

definition getSendTimeout :: "'w sysapi \<Rightarrow> sock \<Rightarrow> 'w \<Rightarrow> i64 result" where
  "getSendTimeout k s w =
     rbind (fd_ctx_of k (m_sockfd s) w) (\<lambda>ctx.
       case ctx of Some c \<Rightarrow> Inr (getTimeout c False) | None \<Rightarrow> Inr (- 1))"

definition getRecvTimeout :: "'w sysapi \<Rightarrow> sock \<Rightarrow> 'w \<Rightarrow> i64 result" where
  "getRecvTimeout k s w =
     rbind (fd_ctx_of k (m_sockfd s) w) (\<lambda>ctx.
       case ctx of Some c \<Rightarrow> Inr (getTimeout c True) | None \<Rightarrow> Inr (- 1))"

text \<open>\<open>timeval{int(val / 1000), int(val % 1000 * 1000)}\<close>: division towards zero, conversion to \<open>int\<close>.\<close>

definition timeval_of :: "i64 \<Rightarrow> optval" where
  "timeval_of val =
     (let v = sint val; q = sgn v * (\<bar>v\<bar> div 1000); r = sgn v * (\<bar>v\<bar> mod 1000) in
      Opt_timeval (sint (word_of_int q :: i32)) (sint (word_of_int (r * 1000) :: i32)))"

definition setSendTimeout :: "'w sysapi \<Rightarrow> sock \<Rightarrow> i64 \<Rightarrow> 'w \<Rightarrow> 'w" where
  "setSendTimeout k s val w = snd (setSockOpt k s SOL_SOCKET SO_SNDTIMEO (timeval_of val) w)"

definition setRecvTimeout :: "'w sysapi \<Rightarrow> sock \<Rightarrow> i64 \<Rightarrow> 'w \<Rightarrow> 'w" where
  "setRecvTimeout k s val w = snd (setSockOpt k s SOL_SOCKET SO_RCVTIMEO (timeval_of val) w)"

definition getError :: "'w sysapi \<Rightarrow> sock \<Rightarrow> 'w \<Rightarrow> int" where
  "getError k s w =
     (case getSockOpt k s SOL_SOCKET SO_ERROR w of Some (Opt_int e) \<Rightarrow> e | Some _ \<Rightarrow> 0 | None \<Rightarrow> y_errno k w)"

definition initSocket :: "'w sysapi \<Rightarrow> sock \<Rightarrow> 'w \<Rightarrow> 'w" where
  "initSocket k s w =
     (let w = snd (setSockOpt k s SOL_SOCKET SO_REUSEADDR (Opt_int 1) w) in
      if m_type s = SOCK_STREAM then snd (setSockOpt k s IPPROTO_TCP TCP_NODELAY (Opt_int 1) w) else w)"

definition newSocket :: "'w sysapi \<Rightarrow> sock \<Rightarrow> 'w \<Rightarrow> sock \<times> 'w" where
  "newSocket k s w =
     (let (fd, w) = y_socket k (m_family s) (m_type s) (m_protocol s) w; s = s\<lparr>m_sockfd := fd\<rparr> in
      (s, if fd \<noteq> - 1 then initSocket k s w else w))"

section \<open>Local and remote address\<close>

text \<open>An object of the class for the family, and the memory the call wrote into it.\<close>

definition address_for :: "endian \<Rightarrow> int \<Rightarrow> address" where
  "address_for host family =
     (if family = uint AF_INET then IPv4Address (IPv4Address_new host 0 0)
      else if family = uint AF_INET6 then IPv6Address IPv6Address_zero
      else if family = uint AF_UNIX then UnixAddress (fst UnixAddress_new) (snd UnixAddress_new)
      else UnknownAddress (UnknownAddress_new (word_of_int family)))"

fun store_addr :: "endian \<Rightarrow> address \<Rightarrow> byte list \<Rightarrow> address result" where
  "store_addr host (IPv4Address m) bs = rbind (load_in host bs) (\<lambda>m. Inr (IPv4Address m))"
| "store_addr host (IPv6Address m) bs = rbind (load_in6 host bs) (\<lambda>m. Inr (IPv6Address m))"
| "store_addr host (UnixAddress m len) bs =
     (if length bs < 110 then Inl Out_of_bounds
      else Inr (UnixAddress \<lparr>sun_family = word_of_mem host (take 2 bs),
                             sun_path = map (\<lambda>b. char_of (unat b)) (take 108 (drop 2 bs))\<rparr> len))"
| "store_addr host (UnknownAddress m) bs = rbind (load_sa host bs) (\<lambda>m. Inr (UnknownAddress m))"

fun set_len :: "u32 \<Rightarrow> address \<Rightarrow> address" where
  "set_len n (UnixAddress m len) = UnixAddress m n"
| "set_len n a = a"

definition fetch_address ::
  "endian \<Rightarrow> (int \<Rightarrow> byte list \<Rightarrow> u32 \<Rightarrow> 'w \<Rightarrow> (byte list \<times> u32) option) \<Rightarrow> sock \<Rightarrow> 'w \<Rightarrow> (bool \<times> address) result" where
  "fetch_address host query s w =
     (let res = address_for host (m_family s) in
      case query (m_sockfd s) (getAddr host res) (getAddrLen res) w of
        None \<Rightarrow> Inr (False, UnknownAddress (UnknownAddress_new (word_of_int (m_family s))))
      | Some (bs, addrlen) \<Rightarrow>
          rbind (store_addr host res bs) (\<lambda>res.
            Inr (True, if m_family s = uint AF_UNIX then set_len addrlen res else res)))"

definition getLocalAddress :: "endian \<Rightarrow> 'w sysapi \<Rightarrow> sock \<Rightarrow> 'w \<Rightarrow> (address \<times> sock) result" where
  "getLocalAddress host k s w =
     (case m_localAddress s of
        Some a \<Rightarrow> Inr (a, s)
      | None \<Rightarrow>
          rbind (fetch_address host (y_getsockname k) s w) (\<lambda>(ok, a).
            Inr (a, if ok then s\<lparr>m_localAddress := Some a\<rparr> else s)))"

definition getRemoteAddress :: "endian \<Rightarrow> 'w sysapi \<Rightarrow> sock \<Rightarrow> 'w \<Rightarrow> (address \<times> sock) result" where
  "getRemoteAddress host k s w =
     (case m_remoteAddress s of
        Some a \<Rightarrow> Inr (a, s)
      | None \<Rightarrow>
          rbind (fetch_address host (y_getpeername k) s w) (\<lambda>(ok, a).
            Inr (a, if ok then s\<lparr>m_remoteAddress := Some a\<rparr> else s)))"

section \<open>Connections\<close>

definition Socket_close :: "'w sysapi \<Rightarrow> sock \<Rightarrow> 'w \<Rightarrow> bool \<times> sock \<times> 'w" where
  "Socket_close k s w =
     (if \<not> m_isConnected s \<and> m_sockfd s = - 1 then (True, s, w)
      else
        let s = s\<lparr>m_isConnected := False\<rparr> in
        if m_sockfd s \<noteq> - 1 then (True, s\<lparr>m_sockfd := - 1\<rparr>, y_close k (m_sockfd s) w) else (True, s, w))"

definition Socket_bind :: "endian \<Rightarrow> 'w sysapi \<Rightarrow> sock \<Rightarrow> address \<Rightarrow> 'w \<Rightarrow> (bool \<times> sock \<times> 'w) result" where
  "Socket_bind host k s addr w =
     (let (s, w) = (if \<not> isValid s then newSocket k s w else (s, w)) in
      if \<not> isValid s then Inr (False, s, w)
      else if uint (getFamily addr) \<noteq> m_family s then Inr (False, s, w)
      else
        let (ret, w) = y_bind k (m_sockfd s) (getAddr host addr) (getAddrLen addr) w in
        if ret \<noteq> 0 then Inr (False, s, w)
        else rbind (getLocalAddress host k s w) (\<lambda>(_, s). Inr (True, s, w)))"

definition Socket_listen :: "'w sysapi \<Rightarrow> sock \<Rightarrow> int \<Rightarrow> 'w \<Rightarrow> bool \<times> 'w" where
  "Socket_listen k s backlog w =
     (if \<not> isValid s then (False, w)
      else let (ret, w) = y_listen k (m_sockfd s) backlog w in (ret = 0, w))"

definition Socket_connect ::
  "endian \<Rightarrow> 'w sysapi \<Rightarrow> sock \<Rightarrow> address \<Rightarrow> u64 \<Rightarrow> 'w \<Rightarrow> (bool \<times> sock \<times> 'w) result" where
  "Socket_connect host k s addr timeout w =
     (let (s, w) = (if \<not> isValid s then newSocket k s w else (s, w)) in
      if \<not> isValid s then Inr (False, s, w)
      else if uint (getFamily addr) \<noteq> m_family s then Inr (False, s, w)
      else
        let (ret, w) =
          (if timeout = - 1 then y_connect k (m_sockfd s) (getAddr host addr) (getAddrLen addr) w
           else y_connect_with_timeout k (m_sockfd s) (getAddr host addr) (getAddrLen addr) timeout w) in
        if ret \<noteq> 0 then let (_, s, w) = Socket_close k s w in Inr (False, s, w)
        else
          let s = s\<lparr>m_isConnected := True\<rparr> in
          rbind (getLocalAddress host k s w) (\<lambda>(_, s).
          rbind (getRemoteAddress host k s w) (\<lambda>(_, s). Inr (True, s, w))))"

definition Socket_init :: "endian \<Rightarrow> 'w sysapi \<Rightarrow> sock \<Rightarrow> int \<Rightarrow> 'w \<Rightarrow> (bool \<times> sock \<times> 'w) result" where
  "Socket_init host k s sockfd w =
     rbind (fd_ctx_of k sockfd w) (\<lambda>ctx.
       case ctx of
         Some c \<Rightarrow>
           if m_isSocket c \<and> \<not> m_isClosed c then
             let s = s\<lparr>m_sockfd := sockfd, m_isConnected := True\<rparr>; w = initSocket k s w in
             rbind (getLocalAddress host k s w) (\<lambda>(_, s).
             rbind (getRemoteAddress host k s w) (\<lambda>(_, s). Inr (True, s, w)))
           else Inr (False, s, w)
       | None \<Rightarrow> Inr (False, s, w))"

definition Socket_accept :: "endian \<Rightarrow> 'w sysapi \<Rightarrow> sock \<Rightarrow> 'w \<Rightarrow> (sock option \<times> 'w) result" where
  "Socket_accept host k s w =
     (let new = Socket_new (m_family s) (m_type s) (m_protocol s);
          (newfd, w) = y_accept k (m_sockfd s) w in
      if newfd = - 1 then Inr (None, w)
      else rbind (Socket_init host k new newfd w) (\<lambda>(ok, new, w). Inr (if ok then Some new else None, w)))"

section \<open>Input and output\<close>

definition Socket_send :: "'w sysapi \<Rightarrow> sock \<Rightarrow> byte list \<Rightarrow> int \<Rightarrow> 'w \<Rightarrow> int \<times> 'w" where
  "Socket_send k s buffer flags w = (if m_isConnected s then y_send k (m_sockfd s) buffer flags w else (- 1, w))"

definition Socket_send_iov :: "'w sysapi \<Rightarrow> sock \<Rightarrow> byte list list \<Rightarrow> int \<Rightarrow> 'w \<Rightarrow> int \<times> 'w" where
  "Socket_send_iov k s buffers flags w =
     (if m_isConnected s then y_sendmsg k (m_sockfd s) buffers [] 0 flags w else (- 1, w))"

definition Socket_sendTo :: "endian \<Rightarrow> 'w sysapi \<Rightarrow> sock \<Rightarrow> byte list \<Rightarrow> address \<Rightarrow> int \<Rightarrow> 'w \<Rightarrow> int \<times> 'w" where
  "Socket_sendTo host k s buffer dest flags w =
     (if m_isConnected s then y_sendto k (m_sockfd s) buffer flags (getAddr host dest) (getAddrLen dest) w else (- 1, w))"

definition Socket_sendTo_iov :: "endian \<Rightarrow> 'w sysapi \<Rightarrow> sock \<Rightarrow> byte list list \<Rightarrow> address \<Rightarrow> int \<Rightarrow> 'w \<Rightarrow> int \<times> 'w" where
  "Socket_sendTo_iov host k s buffers dest flags w =
     (if m_isConnected s then y_sendmsg k (m_sockfd s) buffers (getAddr host dest) (getAddrLen dest) flags w else (- 1, w))"

definition Socket_recv :: "'w sysapi \<Rightarrow> sock \<Rightarrow> nat \<Rightarrow> int \<Rightarrow> 'w \<Rightarrow> int \<times> byte list \<times> 'w" where
  "Socket_recv k s len flags w = (if m_isConnected s then y_recv k (m_sockfd s) len flags w else (- 1, [], w))"

definition Socket_recv_iov :: "'w sysapi \<Rightarrow> sock \<Rightarrow> nat list \<Rightarrow> int \<Rightarrow> 'w \<Rightarrow> int \<times> byte list \<times> 'w" where
  "Socket_recv_iov k s lens flags w = (if m_isConnected s then y_recvmsg k (m_sockfd s) lens flags w else (- 1, [], w))"

definition Socket_recvFrom ::
  "endian \<Rightarrow> 'w sysapi \<Rightarrow> sock \<Rightarrow> nat \<Rightarrow> address \<Rightarrow> int \<Rightarrow> 'w \<Rightarrow> (int \<times> byte list \<times> address \<times> 'w) result" where
  "Socket_recvFrom host k s len src flags w =
     (if m_isConnected s then
        let (ret, bs, mem, w) = y_recvfrom k (m_sockfd s) len flags (getAddr host src) w in
        rbind (store_addr host src mem) (\<lambda>src. Inr (ret, bs, src, w))
      else Inr (- 1, [], src, w))"

text \<open>The overload for \<open>iovec\<close> calls \<open>sendmsg\<close>; the buffers are what they held before.\<close>

definition Socket_recvFrom_iov :: "endian \<Rightarrow> 'w sysapi \<Rightarrow> sock \<Rightarrow> byte list list \<Rightarrow> address \<Rightarrow> int \<Rightarrow> 'w \<Rightarrow> int \<times> byte list list \<times> 'w" where
  "Socket_recvFrom_iov host k s buffers src flags w =
     (if m_isConnected s then
        let (ret, w) = y_sendmsg k (m_sockfd s) buffers (getAddr host src) (getAddrLen src) flags w in (ret, buffers, w)
      else (- 1, buffers, w))"

section \<open>Text and cancelling\<close>

definition Socket_dump :: "endian \<Rightarrow> sock \<Rightarrow> string result" where
  "Socket_dump host s =
     (let addr_text = (\<lambda>name a. case a of None \<Rightarrow> Inr [] | Some x \<Rightarrow> rbind (toString host x) (\<lambda>t. Inr (name @ t))) in
      rbind (addr_text '', localaddress= '' (m_localAddress s)) (\<lambda>l.
      rbind (addr_text '', remoteaddress= '' (m_remoteAddress s)) (\<lambda>r.
        Inr (''[Socket socket= '' @ int_digits (m_sockfd s) @ '', is_connected= '' @ (if m_isConnected s then ''1'' else ''0'')
          @ '', family= '' @ int_digits (m_family s) @ '', type = '' @ int_digits (m_type s)
          @ '', protocol = '' @ int_digits (m_protocol s) @ l @ r @ '']''))))"

definition cancelRead :: "bool \<Rightarrow> iomanager \<Rightarrow> sock \<Rightarrow> (bool \<times> iomanager) result" where
  "cancelRead ok m s = cancelEvent ok m (m_sockfd s) READ"

definition cancelWrite :: "bool \<Rightarrow> iomanager \<Rightarrow> sock \<Rightarrow> (bool \<times> iomanager) result" where
  "cancelWrite ok m s = cancelEvent ok m (m_sockfd s) WRITE"

definition cancelAccept :: "bool \<Rightarrow> iomanager \<Rightarrow> sock \<Rightarrow> (bool \<times> iomanager) result" where
  "cancelAccept ok m s = cancelEvent ok m (m_sockfd s) READ"

definition Socket_cancelAll :: "bool \<Rightarrow> iomanager \<Rightarrow> sock \<Rightarrow> (bool \<times> iomanager) result" where
  "Socket_cancelAll ok m s = cancelAll ok m (m_sockfd s)"

section \<open>Reachable sockets\<close>

text \<open>
  The sockets a program can hold: new ones, what the methods make of them in whatever state the world
  is, and what \<open>accept\<close> returns.
\<close>

inductive sock_reach :: "endian \<Rightarrow> 'w sysapi \<Rightarrow> sock \<Rightarrow> bool" for host k where
  reach_new: "sock_reach host k (Socket_new family type protocol)"
| reach_bind: "sock_reach host k s \<Longrightarrow> Socket_bind host k s addr w = Inr (r, s', w') \<Longrightarrow> sock_reach host k s'"
| reach_connect: "sock_reach host k s \<Longrightarrow> Socket_connect host k s addr t w = Inr (r, s', w') \<Longrightarrow> sock_reach host k s'"
| reach_accept: "sock_reach host k s \<Longrightarrow> Socket_accept host k s w = Inr (Some s', w') \<Longrightarrow> sock_reach host k s'"
| reach_close: "sock_reach host k s \<Longrightarrow> Socket_close k s w = (r, s', w') \<Longrightarrow> sock_reach host k s'"
| reach_local: "sock_reach host k s \<Longrightarrow> getLocalAddress host k s w = Inr (a, s') \<Longrightarrow> sock_reach host k s'"
| reach_remote: "sock_reach host k s \<Longrightarrow> getRemoteAddress host k s w = Inr (a, s') \<Longrightarrow> sock_reach host k s'"

text \<open>What the other methods leave of the descriptor and of the connection.\<close>

definition same_conn :: "sock \<Rightarrow> sock \<Rightarrow> bool" where
  "same_conn s s' \<longleftrightarrow> m_sockfd s' = m_sockfd s \<and> m_isConnected s' = m_isConnected s \<and> m_family s' = m_family s"

lemma local_same: "getLocalAddress host k s w = Inr (a, s') \<Longrightarrow> same_conn s s'"
  by (auto simp: getLocalAddress_def same_conn_def returns split: option.splits if_splits)

lemma remote_same: "getRemoteAddress host k s w = Inr (a, s') \<Longrightarrow> same_conn s s'"
  by (auto simp: getRemoteAddress_def same_conn_def returns split: option.splits if_splits)

lemma close_outcome:
  "Socket_close k s w = (r, s', w') \<Longrightarrow> r \<and> m_sockfd s' = - 1 \<and> \<not> m_isConnected s' \<and> m_family s' = m_family s"
  by (auto simp: Socket_close_def Let_def split: if_splits)

text \<open>The socket after the first step of \<open>bind\<close> and \<open>connect\<close>.\<close>

definition ensured :: "'w sysapi \<Rightarrow> sock \<Rightarrow> 'w \<Rightarrow> sock \<times> 'w" where
  "ensured k s w = (if \<not> isValid s then newSocket k s w else (s, w))"

lemma ensured_same: "ensured k s w = (s', w') \<Longrightarrow>
    m_isConnected s' = m_isConnected s \<and> m_family s' = m_family s \<and> (isValid s \<longrightarrow> s' = s)"
  by (auto simp: ensured_def newSocket_def Let_def split: if_splits prod.splits)

lemma bind_outcome:
  assumes "Socket_bind host k s addr w = Inr (r, s', w')"
  shows "m_isConnected s' = m_isConnected s \<and> (isValid s \<longrightarrow> isValid s') \<and> (r \<longrightarrow> isValid s' \<and> uint (getFamily addr) = m_family s')"
proof -
  obtain s1 w1 where e: "ensured k s w = (s1, w1)" by force
  show ?thesis
    using assms ensured_same [OF e] unfolding Socket_bind_def ensured_def [symmetric] e
    by (auto simp: Let_def returns isValid_def same_conn_def split: if_splits prod.splits dest!: local_same)
qed

lemma connect_outcome:
  assumes "Socket_connect host k s addr t w = Inr (r, s', w')"
  shows "(r \<longrightarrow> m_isConnected s' \<and> isValid s' \<and> uint (getFamily addr) = m_family s')
    \<and> (\<not> r \<longrightarrow> (m_isConnected s' = m_isConnected s \<and> (isValid s \<longrightarrow> isValid s')) \<or> \<not> m_isConnected s')"
proof -
  obtain s1 w1 where e: "ensured k s w = (s1, w1)" by force
  show ?thesis
    using assms ensured_same [OF e] unfolding Socket_connect_def ensured_def [symmetric] e
    by (auto simp: Let_def returns isValid_def same_conn_def split: if_splits prod.splits
        dest!: local_same remote_same close_outcome)
qed

lemma accept_outcome:
  assumes "Socket_accept host k s w = Inr (Some s', w')"
  shows "m_isConnected s' \<and> isValid s' \<and> m_family s' = m_family s"
  using assms
  by (auto simp: Socket_accept_def Socket_init_def Let_def returns isValid_def same_conn_def Socket_new_def
      split: if_splits prod.splits option.splits dest!: local_same remote_same)

lemma reach_connected_valid: "sock_reach host k s \<Longrightarrow> m_isConnected s \<Longrightarrow> isValid s"
proof (induction rule: sock_reach.induct)
  case (reach_new family type protocol)
  then show ?case by (simp add: Socket_new_def)
next
  case (reach_bind s addr w r s' w')
  then show ?case using bind_outcome [OF reach_bind.hyps(2)] by simp
next
  case (reach_connect s addr t w r s' w')
  then show ?case using connect_outcome [OF reach_connect.hyps(2)] by argo
next
  case (reach_accept s w s' w')
  then show ?case using accept_outcome [OF reach_accept.hyps(2)] by simp
next
  case (reach_close s w r s' w')
  then show ?case using close_outcome [OF reach_close.hyps(2)] by simp
next
  case (reach_local s w a s')
  then show ?case using local_same [OF reach_local.hyps(2)] by (simp add: same_conn_def isValid_def)
next
  case (reach_remote s w a s')
  then show ?case using remote_same [OF reach_remote.hyps(2)] by (simp add: same_conn_def isValid_def)
qed

lemma timeval_of_ms:
  assumes "0 \<le> sint val" "sint val < 2 ^ 31 * 1000"
  shows "timeval_of val = Opt_timeval (sint val div 1000) (sint val mod 1000 * 1000)"
proof -
  let ?v = "sint val"
  have q: "0 \<le> ?v div 1000" "?v div 1000 < 2 ^ 31" "0 \<le> ?v mod 1000 * 1000" "?v mod 1000 * 1000 < 2 ^ 31"
    using assms by auto
  have id: "sint (word_of_int x :: i32) = x" if "0 \<le> x" "x < 2 ^ 31" for x
    using that by (simp add: signed_of_int signed_take_bit_int_eq_self)
  have "sgn ?v * (\<bar>?v\<bar> div 1000) = ?v div 1000" "sgn ?v * (\<bar>?v\<bar> mod 1000) = ?v mod 1000"
    using assms(1) by (cases "?v = 0"; simp)+
  then show ?thesis using q unfolding timeval_of_def Let_def by (simp only: id)
qed

section \<open>Properties\<close>


text \<open>A system that counts its calls: every \<open>socket\<close> is descriptor 5, every call succeeds.\<close>

definition demo_sys :: "nat sysapi" where
  "demo_sys = \<lparr>y_socket = (\<lambda>_ _ _ w. (5, w + 1)), y_bind = (\<lambda>_ _ _ w. (0, w + 1)), y_listen = (\<lambda>_ _ w. (0, w + 1)),
     y_connect = (\<lambda>_ _ _ w. (0, w + 1)), y_connect_with_timeout = (\<lambda>_ _ _ _ w. (0, w + 1)), y_accept = (\<lambda>_ w. (- 1, w + 1)),
     y_close = (\<lambda>_ w. w + 1), y_send = (\<lambda>_ bs _ w. (int (length bs), w + 1)), y_sendto = (\<lambda>_ bs _ _ _ w. (int (length bs), w + 1)),
     y_sendmsg = (\<lambda>_ bss _ _ _ w. (int (length (concat bss)), w + 1)), y_recv = (\<lambda>_ n _ w. (int n, replicate n 0, w + 1)),
     y_recvmsg = (\<lambda>_ ns _ w. (0, [], w + 1)), y_recvfrom = (\<lambda>_ n _ a w. (int n, replicate n 0, a, w + 1)),
     y_getsockname = (\<lambda>_ a n w. Some (a, n)), y_getpeername = (\<lambda>_ a n w. Some (a, n)), y_setsockopt = (\<lambda>_ _ _ _ w. (0, w + 1)),
     y_getsockopt = (\<lambda>_ _ _ w. None), y_errno = (\<lambda>w. 0),
     y_fds = (\<lambda>w. FdManager_new \<lparr>k_stat = (\<lambda>_. None), k_nonblock = (\<lambda>_. False)\<rparr>)\<rparr>"


end
