(* ===== verification/Streams.thy ===== *)
theory Streams
  imports Socket ByteArray
begin

text \<open>
  windgent/stream.h, windgent/stream.cc and windgent/socket\_stream.cc. The virtual \<open>read\<close> or \<open>write\<close> that
  a loop of \<open>Stream\<close> calls is an argument: given the state of the world, the offset into the caller's
  buffer and the number of bytes left, it returns an \<open>int\<close> and the new state. The loops keep the \<open>uint64_t\<close>
  arithmetic of the source and may run forever, hence \<open>partial_function (option)\<close>.
\<close>

section \<open>Stream\<close>

type_synonym 'w io_op = "'w \<Rightarrow> u64 \<Rightarrow> u64 \<Rightarrow> (int \<times> 'w) result"

text \<open>\<open>Some r\<close>: the early \<open>return len\<close>; \<open>None\<close>: the loop was left with nothing to do.\<close>

partial_function (option) fixed_loop :: "'w io_op \<Rightarrow> 'w \<Rightarrow> u64 \<Rightarrow> u64 \<Rightarrow> (i32 option \<times> 'w) result option" where
  "fixed_loop io w offset left =
     (if left > 0 then
        (case io w offset left of
           Inl e \<Rightarrow> Some (Inl e)
         | Inr (ret, w') \<Rightarrow>
             (let len = word_of_int ret :: u64 in
              if len \<le> 0 then Some (Inr (Some (ucast len), w'))
              else fixed_loop io w' (offset + len) (left - len)))
      else Some (Inr (None, w)))"

definition fixed_result :: "u64 \<Rightarrow> (i32 option \<times> 'w) result option \<Rightarrow> (i32 \<times> 'w) result option" where
  "fixed_result n r =
     map_option (\<lambda>r. rbind r (\<lambda>(early, w). Inr (case early of Some v \<Rightarrow> v | None \<Rightarrow> ucast n, w))) r"

definition readFixedSize :: "'w io_op \<Rightarrow> 'w \<Rightarrow> u64 \<Rightarrow> (i32 \<times> 'w) result option" where
  "readFixedSize rd w n = fixed_result n (fixed_loop rd w 0 n)"

definition writeFixedSize :: "'w io_op \<Rightarrow> 'w \<Rightarrow> u64 \<Rightarrow> (i32 \<times> 'w) result option" where
  "writeFixedSize wr w n = fixed_result n (fixed_loop wr w 0 n)"

text \<open>The overloads for a \<open>ByteArray\<close> pass no offset: the array keeps its own position.\<close>

definition readFixedSize_ba :: "('w \<Rightarrow> u64 \<Rightarrow> (int \<times> 'w) result) \<Rightarrow> 'w \<Rightarrow> u64 \<Rightarrow> (i32 \<times> 'w) result option" where
  "readFixedSize_ba rd w n = fixed_result n (fixed_loop (\<lambda>w _ left. rd w left) w 0 n)"

definition writeFixedSize_ba :: "('w \<Rightarrow> u64 \<Rightarrow> (int \<times> 'w) result) \<Rightarrow> 'w \<Rightarrow> u64 \<Rightarrow> (i32 \<times> 'w) result option" where
  "writeFixedSize_ba wr w n = fixed_result n (fixed_loop (\<lambda>w _ left. wr w left) w 0 n)"

section \<open>SocketStream\<close>

record socket_stream =
  m_socket :: "sock option"
  m_owner :: bool

definition SocketStream_new :: "sock option \<Rightarrow> bool \<Rightarrow> socket_stream" where
  "SocketStream_new socket owner = \<lparr>m_socket = socket, m_owner = owner\<rparr>"

definition stream_close :: "'w sysapi \<Rightarrow> socket_stream \<Rightarrow> 'w \<Rightarrow> socket_stream \<times> 'w" where
  "stream_close k st w =
     (case m_socket st of
        Some s \<Rightarrow> let (_, s, w) = Socket_close k s w in (st\<lparr>m_socket := Some s\<rparr>, w)
      | None \<Rightarrow> (st, w))"

definition SocketStream_destroy :: "'w sysapi \<Rightarrow> socket_stream \<Rightarrow> 'w \<Rightarrow> socket_stream \<times> 'w" where
  "SocketStream_destroy k st w = (if m_owner st \<and> m_socket st \<noteq> None then stream_close k st w else (st, w))"

definition stream_isConnected :: "socket_stream \<Rightarrow> bool result" where
  "stream_isConnected st = (case m_socket st of None \<Rightarrow> Inl Null_deref | Some s \<Rightarrow> Inr (m_isConnected s))"

definition stream_read :: "'w sysapi \<Rightarrow> socket_stream \<Rightarrow> nat \<Rightarrow> 'w \<Rightarrow> (int \<times> byte list \<times> 'w) result" where
  "stream_read k st n w =
     rbind (stream_isConnected st) (\<lambda>c.
       if \<not> c then Inr (- 1, [], w) else Inr (Socket_recv k (the (m_socket st)) n 0 w))"

definition stream_write :: "'w sysapi \<Rightarrow> socket_stream \<Rightarrow> byte list \<Rightarrow> 'w \<Rightarrow> (int \<times> 'w) result" where
  "stream_write k st buffer w =
     rbind (stream_isConnected st) (\<lambda>c.
       if \<not> c then Inr (- 1, w) else Inr (Socket_send k (the (m_socket st)) buffer 0 w))"

text \<open>What \<open>recvmsg\<close> stores through the vectors, and what \<open>sendmsg\<close> reads through them.\<close>

fun scatter :: "node list \<Rightarrow> iovec list \<Rightarrow> byte list \<Rightarrow> node list result" where
  "scatter ns [] bs = Inr ns"
| "scatter ns (v # vs) bs =
     rbind (memcpy_to ns (iov_node v) (iov_off v) (take (iov_len v) bs)) (\<lambda>ns. scatter ns vs (drop (iov_len v) bs))"

fun gather :: "node list \<Rightarrow> iovec list \<Rightarrow> byte list list result" where
  "gather ns [] = Inr []"
| "gather ns (v # vs) =
     rbind (memcpy_from ns (iov_node v) (iov_off v) (iov_len v)) (\<lambda>bs. rbind (gather ns vs) (\<lambda>bss. Inr (bs # bss)))"

text \<open>\<open>&iovs[0]\<close> of an empty vector, which a length of 0 gives, is outside the vector.\<close>

definition stream_read_ba ::
  "'w sysapi \<Rightarrow> socket_stream \<Rightarrow> byte_array \<Rightarrow> nat \<Rightarrow> 'w \<Rightarrow> (int \<times> byte_array \<times> 'w) result" where
  "stream_read_ba k st ba n w =
     rbind (stream_isConnected st) (\<lambda>c.
       if \<not> c then Inr (- 1, ba, w)
       else rbind (getWriteBuffers ba n) (\<lambda>((_, iovs), ba).
         if iovs = [] then Inl Out_of_bounds
         else
           let (ret, bs, w) = Socket_recv_iov k (the (m_socket st)) (map iov_len iovs) 0 w in
           rbind (scatter (m_nodes ba) iovs bs) (\<lambda>ns.
           let ba = ba\<lparr>m_nodes := ns\<rparr> in
           if ret > 0 then rbind (setPosition ba (m_position ba + nat ret)) (\<lambda>ba. Inr (ret, ba, w))
           else Inr (ret, ba, w))))"

definition stream_write_ba ::
  "'w sysapi \<Rightarrow> socket_stream \<Rightarrow> byte_array \<Rightarrow> nat \<Rightarrow> 'w \<Rightarrow> (int \<times> byte_array \<times> 'w) result" where
  "stream_write_ba k st ba n w =
     rbind (stream_isConnected st) (\<lambda>c.
       if \<not> c then Inr (- 1, ba, w)
       else rbind (getWriteBuffers ba n) (\<lambda>((_, iovs), ba).
         if iovs = [] then Inl Out_of_bounds
         else rbind (gather (m_nodes ba) iovs) (\<lambda>bss.
           let (ret, w) = Socket_send_iov k (the (m_socket st)) bss 0 w in
           if ret > 0 then rbind (setPosition ba (m_position ba + nat ret)) (\<lambda>ba. Inr (ret, ba, w))
           else Inr (ret, ba, w))))"

section \<open>Every result of the loops\<close>

lemma fixed_loop_early:
  assumes "fixed_loop io w offset left = Some r"
  shows "\<forall>v w'. r = Inr (Some v, w') \<longrightarrow> v = 0"
proof (rule fixed_loop.raw_induct [where P = "\<lambda>_ _ _ _ r. \<forall>v w'. r = Inr (Some v, w') \<longrightarrow> v = 0", OF _ assms])
  fix loop :: "'w io_op \<Rightarrow> 'w \<Rightarrow> u64 \<Rightarrow> u64 \<Rightarrow> (i32 option \<times> 'w) result option" and io w offset left r
  assume "\<And>io w offset left r. loop io w offset left = Some r \<Longrightarrow> \<forall>v w'. r = Inr (Some v, w') \<longrightarrow> v = 0"
    and "(if left > 0 then
        (case io w offset left of
           Inl e \<Rightarrow> Some (Inl e)
         | Inr (ret, w') \<Rightarrow>
             (let len = word_of_int ret :: u64 in
              if len \<le> 0 then Some (Inr (Some (ucast len), w')) else loop io w' (offset + len) (left - len)))
      else Some (Inr (None, w))) = Some r"
  then show "\<forall>v w'. r = Inr (Some v, w') \<longrightarrow> v = 0"
    by (auto simp: Let_def split: if_splits sum.splits prod.splits)
qed

lemma fixed_result_values:
  assumes "fixed_result n (fixed_loop io w 0 n) = Some (Inr (r, w'))"
  shows "r = 0 \<or> r = ucast n"
  using assms fixed_loop_early [of io w 0 n] by (auto simp: fixed_result_def returns split: option.splits)

text \<open>A stream on which every call fails: \<open>len\<close> is then \<open>2 ^ 64 - 1\<close>, and the loop counts up to overflow.\<close>

lemma fixed_loop_failing: "fixed_loop (\<lambda>w _ _. Inr (- 1, w)) w offset left = Some (Inr (None, w))"
proof (induction "unat (- left)" arbitrary: offset left)
  case 0
  then have "left = 0" by (metis neg_equal_0_iff_equal unat_eq_zero)
  then show ?case by (subst fixed_loop.simps) simp
next
  case (Suc n)
  then have "left \<noteq> 0" by auto
  have "- (left + 1) = - left - 1" by simp
  then have "unat (- (left + 1)) = n"
    using Suc.hyps(2) unat_minus_one [of "- left"] \<open>left \<noteq> 0\<close> by (simp only: neg_equal_0_iff_equal) simp
  then have "fixed_loop (\<lambda>w _ _. Inr (- 1, w)) w (offset - 1) (left + 1) = Some (Inr (None, w))"
    using Suc.hyps(1) by blast
  then show ?case using \<open>left \<noteq> 0\<close> by (subst fixed_loop.simps) (simp add: word_gt_0)
qed

section \<open>Streams that deliver\<close>

lemma unat_of_nat_u64: "n < 2 ^ 64 \<Longrightarrow> unat (of_nat n :: u64) = n"
  by (simp add: unat_of_nat take_bit_nat_eq_self)

lemma ucast_of_nat_u64 [simp]: "(ucast (of_nat n :: u64) :: i32) = of_nat n"
  by (simp add: unsigned_of_nat word_of_nat_eq_iff take_bit_take_bit)

lemma of_nat_u64_ne0: "0 < n \<Longrightarrow> n < 2 ^ 64 \<Longrightarrow> (of_nat n :: u64) \<noteq> 0"
  using unat_of_nat_u64 [of n] by (metis less_numeral_extra(3) unat_0)

text \<open>
  What the loops rely on: as long as bytes are wanted, a call moves at least one and at most the bytes
  that are left, fewer than \<open>2 ^ 31\<close>. \<open>I d w\<close> says that \<open>w\<close> is a state after \<open>d\<close> of \<open>tot\<close> bytes.
\<close>

locale delivering =
  fixes io :: "'w io_op" and I :: "nat \<Rightarrow> 'w \<Rightarrow> bool" and tot :: nat
  assumes progress: "I d w \<Longrightarrow> d < tot \<Longrightarrow> tot < 2 ^ 64 \<Longrightarrow>
    \<exists>k w'. io w (of_nat d) (of_nat (tot - d)) = Inr (int k, w') \<and> 0 < k \<and> d + k \<le> tot \<and> k < 2 ^ 31 \<and> I (d + k) w'"
begin

lemma fixed_loop_delivers:
  assumes "tot < 2 ^ 64"
  shows "I d w \<Longrightarrow> d \<le> tot \<Longrightarrow>
    \<exists>w'. fixed_loop io w (of_nat d) (of_nat (tot - d)) = Some (Inr (None, w')) \<and> I tot w'"
proof (induction "tot - d" arbitrary: d w rule: less_induct)
  case less
  show ?case
  proof (cases "d = tot")
    case True
    then show ?thesis using less.prems by (subst fixed_loop.simps) simp
  next
    case False
    then have d: "d < tot" using less.prems by simp
    obtain k w' where k: "io w (of_nat d) (of_nat (tot - d)) = Inr (int k, w')" "0 < k" "d + k \<le> tot" "I (d + k) w'"
      using progress [OF less.prems(1) d assms] by blast
    have small: "k < 2 ^ 64" "tot - d < 2 ^ 64" using k(3) assms by auto
    have ne: "(of_nat k :: u64) \<noteq> 0" "(of_nat (tot - d) :: u64) \<noteq> 0"
      using small k(2) d by (intro of_nat_u64_ne0; simp)+
    have left: "of_nat (tot - d) - of_nat k = (of_nat (tot - (d + k)) :: u64)"
      using k(3) by (simp add: of_nat_diff)
    from ne k(1) have "fixed_loop io w (of_nat d) (of_nat (tot - d)) = fixed_loop io w' (of_nat d + of_nat k) (of_nat (tot - d) - of_nat k)"
      by (subst fixed_loop.simps) (simp add: word_gt_0 Let_def del: of_nat_diff)
    also have "\<dots> = fixed_loop io w' (of_nat (d + k)) (of_nat (tot - (d + k)))" unfolding left by simp
    finally show ?thesis using less.hyps [OF _ k(4) k(3)] k(2) d by simp
  qed
qed

end

text \<open>\<open>read\<close> into a buffer and \<open>write\<close> from one, as the sessions use them.\<close>

definition read_at :: "'w sysapi \<Rightarrow> socket_stream \<Rightarrow> ('w \<times> byte list) io_op" where
  "read_at k st w offset left =
     rbind (stream_read k st (unat left) (fst w)) (\<lambda>(ret, bs, w').
       if bs = [] then Inr (ret, (w', snd w))
       else if unat offset + length bs \<le> length (snd w) then Inr (ret, (w', splice_at (unat offset) bs (snd w)))
       else Inl Out_of_bounds)"

definition write_from :: "'w sysapi \<Rightarrow> socket_stream \<Rightarrow> byte list \<Rightarrow> 'w io_op" where
  "write_from k st data w offset left =
     (if unat offset + unat left \<le> length data then stream_write k st (take (unat left) (drop (unat offset) data)) w
      else Inl Out_of_bounds)"

text \<open>
  A peer: the bytes still to come from it and the bytes it got. How many bytes one call moves is any
  function of how many there are.
\<close>

type_synonym peer = "byte list \<times> byte list"

definition chunk :: "(nat \<Rightarrow> nat) \<Rightarrow> nat \<Rightarrow> nat \<Rightarrow> nat" where
  "chunk ch have want = min want (Suc (ch have mod 65536))"

definition peer_recv :: "(nat \<Rightarrow> nat) \<Rightarrow> nat \<Rightarrow> peer \<Rightarrow> int \<times> byte list \<times> peer" where
  "peer_recv ch n p =
     (let m = min (chunk ch (length (fst p)) n) (length (fst p)) in (int m, take m (fst p), (drop m (fst p), snd p)))"

definition peer_send :: "(nat \<Rightarrow> nat) \<Rightarrow> byte list \<Rightarrow> peer \<Rightarrow> int \<times> peer" where
  "peer_send ch bs p =
     (let m = chunk ch (length (snd p)) (length bs) in (int m, (fst p, snd p @ take m bs)))"

definition peer_sys :: "(nat \<Rightarrow> nat) \<Rightarrow> peer sysapi" where
  "peer_sys ch = \<lparr>y_socket = (\<lambda>_ _ _ w. (5, w)), y_bind = (\<lambda>_ _ _ w. (0, w)), y_listen = (\<lambda>_ _ w. (0, w)),
     y_connect = (\<lambda>_ _ _ w. (0, w)), y_connect_with_timeout = (\<lambda>_ _ _ _ w. (0, w)), y_accept = (\<lambda>_ w. (- 1, w)),
     y_close = (\<lambda>_ w. w), y_send = (\<lambda>_ bs _ w. peer_send ch bs w), y_sendto = (\<lambda>_ bs _ _ _ w. peer_send ch bs w),
     y_sendmsg = (\<lambda>_ bss _ _ _ w. peer_send ch (concat bss) w), y_recv = (\<lambda>_ n _ w. peer_recv ch n w),
     y_recvmsg = (\<lambda>_ ns _ w. peer_recv ch (sum_list ns) w), y_recvfrom = (\<lambda>_ n _ a w. case peer_recv ch n w of (r, bs, w) \<Rightarrow> (r, bs, a, w)),
     y_getsockname = (\<lambda>_ a n w. Some (a, n)), y_getpeername = (\<lambda>_ a n w. Some (a, n)), y_setsockopt = (\<lambda>_ _ _ _ w. (0, w)),
     y_getsockopt = (\<lambda>_ _ _ w. None), y_errno = (\<lambda>w. 0),
     y_fds = (\<lambda>w. FdManager_new \<lparr>k_stat = (\<lambda>_. None), k_nonblock = (\<lambda>_. False)\<rparr>)\<rparr>"

text \<open>A stream over a connected socket.\<close>

definition live :: "socket_stream \<Rightarrow> bool" where
  "live st \<longleftrightarrow> (case m_socket st of Some s \<Rightarrow> m_isConnected s | None \<Rightarrow> False)"

lemma stream_read_peer: "live st \<Longrightarrow> stream_read (peer_sys ch) st n w = Inr (peer_recv ch n w)"
  by (auto simp: live_def stream_read_def stream_isConnected_def Socket_recv_def peer_sys_def split: option.splits)

lemma stream_write_peer: "live st \<Longrightarrow> stream_write (peer_sys ch) st bs w = Inr (peer_send ch bs w)"
  by (auto simp: live_def stream_write_def stream_isConnected_def Socket_send_def peer_sys_def split: option.splits)

text \<open>Reading into a buffer from an offset on: \<open>pre\<close> is what the buffer holds before it.\<close>

definition read_into :: "'w sysapi \<Rightarrow> socket_stream \<Rightarrow> nat \<Rightarrow> ('w \<times> byte list) io_op" where
  "read_into k st base = (\<lambda>w offset. read_at k st w (of_nat base + offset))"

lemma read_into_0: "read_into k st 0 = read_at k st"
  by (simp add: read_into_def)

definition reading :: "socket_stream \<Rightarrow> byte list \<Rightarrow> byte list \<Rightarrow> byte list \<Rightarrow> nat \<Rightarrow> nat \<Rightarrow> peer \<times> byte list \<Rightarrow> bool" where
  "reading st src out pre tot d w \<longleftrightarrow> live st \<and> tot \<le> length src \<and> length pre + tot < 2 ^ 64 \<and> fst w = (drop d src, out)
     \<and> length (snd w) = length pre + tot \<and> take (length pre + d) (snd w) = pre @ take d src"

definition writing :: "socket_stream \<Rightarrow> byte list \<Rightarrow> byte list \<Rightarrow> byte list \<Rightarrow> nat \<Rightarrow> peer \<Rightarrow> bool" where
  "writing st data inp out d w \<longleftrightarrow> live st \<and> w = (inp, out @ take d data)"

interpretation rd: delivering "read_into (peer_sys ch) st (length pre)" "reading st src out pre tot" tot for ch st src out pre tot
proof unfold_locales
  fix d w assume a: "reading st src out pre tot d w" "d < tot" "tot < 2 ^ 64"
  define m where "m = min (chunk ch (length src - d) (tot - d)) (length src - d)"
  let ?c = "length pre"
  obtain buf where w: "w = ((drop d src, out), buf)" "length buf = ?c + tot" "take (?c + d) buf = pre @ take d src" "live st"
      "tot \<le> length src" "?c + tot < 2 ^ 64"
    using a(1) by (cases w) (auto simp: reading_def)
  have m: "0 < m" "d + m \<le> tot" "m < 2 ^ 31" "m \<le> length src - d" using a(2) w(5) by (auto simp: m_def chunk_def)
  have "of_nat ?c + of_nat d = (of_nat (?c + d) :: u64)" by simp
  then have u: "unat (of_nat ?c + of_nat d :: u64) = ?c + d" "unat (of_nat (tot - d) :: u64) = tot - d"
    using a(2,3) w(6) unat_of_nat_u64 [of "?c + d"] unat_of_nat_u64 [of "tot - d"] by simp_all
  let ?bs = "take m (drop d src)"
  have len: "length ?bs = m" using m(4) by simp
  have ne: "?bs \<noteq> []" using m(1,4) by auto
  have "read_into (peer_sys ch) st ?c w (of_nat d) (of_nat (tot - d)) = Inr (int m, ((drop (d + m) src, out), splice_at (?c + d) ?bs buf))"
  proof -
    have "stream_read (peer_sys ch) st (tot - d) (fst w) = Inr (int m, ?bs, (drop (d + m) src, out))"
      by (simp add: stream_read_peer w(1,4) peer_recv_def Let_def m_def add.commute)
    moreover have "?c + d + length ?bs \<le> length buf" using m(2) w(2) len by simp
    ultimately show ?thesis using ne unfolding read_into_def read_at_def u by (simp add: w(1))
  qed
  moreover have "reading st src out pre tot (d + m) ((drop (d + m) src, out), splice_at (?c + d) ?bs buf)"
  proof -
    have "length (splice_at (?c + d) ?bs buf) = ?c + tot" using m(2) w(2) len by (subst length_splice_at) simp_all
    moreover have "take (?c + (d + m)) (splice_at (?c + d) ?bs buf) = take (?c + d) buf @ ?bs"
      using m(2) w(2) len by (simp add: splice_at_def)
    moreover have "take (d + m) src = take d src @ ?bs" by (simp only: take_add)
    ultimately show ?thesis using w by (simp only: reading_def fst_conv snd_conv simp_thms append_assoc)
  qed
  ultimately show "\<exists>k w'. read_into (peer_sys ch) st ?c w (of_nat d) (of_nat (tot - d)) = Inr (int k, w') \<and> 0 < k \<and> d + k \<le> tot
      \<and> k < 2 ^ 31 \<and> reading st src out pre tot (d + k) w'"
    using m by blast
qed

lemma read_into_delivers:
  assumes "live st" "length buf = length pre + tot" "take (length pre) buf = pre" "tot \<le> length src" "length pre + tot < 2 ^ 64"
  shows "readFixedSize (read_into (peer_sys ch) st (length pre)) ((src, out), buf) (of_nat tot) =
      Some (Inr (of_nat tot, ((drop tot src, out), pre @ take tot src)))"
proof -
  have i: "reading st src out pre tot 0 ((src, out), buf)" and t: "tot < 2 ^ 64" using assms by (auto simp: reading_def)
  from rd.fixed_loop_delivers [where ch = ch, OF t i]
  obtain w' where l: "fixed_loop (read_into (peer_sys ch) st (length pre)) ((src, out), buf) 0 (of_nat tot) = Some (Inr (None, w'))"
    and r: "reading st src out pre tot tot w'" by auto
  from r have "w' = ((drop tot src, out), pre @ take tot src)" by (cases w') (auto simp: reading_def)
  with l show ?thesis by (simp add: readFixedSize_def fixed_result_def)
qed

interpretation wr: delivering "write_from (peer_sys ch) st data" "writing st data inp out" "length data" for ch st data inp out
proof unfold_locales
  fix d w assume a: "writing st data inp out d w" "d < length data" "length data < 2 ^ 64"
  define m where "m = chunk ch (length (out @ take d data)) (length data - d)"
  have w: "live st" "w = (inp, out @ take d data)" using a(1) by (simp_all add: writing_def)
  have m: "0 < m" "d + m \<le> length data" "m < 2 ^ 31" using a(2) by (auto simp: m_def chunk_def)
  have u: "unat (of_nat d :: u64) = d" "unat (of_nat (length data - d) :: u64) = length data - d"
    using a(2,3) by (intro unat_of_nat_u64; simp)+
  have "stream_write (peer_sys ch) st (take (length data - d) (drop d data)) w = Inr (int m, (inp, (out @ take d data) @ take m (drop d data)))"
    by (simp add: stream_write_peer w peer_send_def Let_def m_def)
  then have "write_from (peer_sys ch) st data w (of_nat d) (of_nat (length data - d)) = Inr (int m, (inp, out @ take (d + m) data))"
    using a(2) unfolding write_from_def u by (simp add: take_add)
  moreover have "writing st data inp out (d + m) (inp, out @ take (d + m) data)" using w(1) by (simp add: writing_def)
  ultimately show "\<exists>k w'. write_from (peer_sys ch) st data w (of_nat d) (of_nat (length data - d)) = Inr (int k, w') \<and> 0 < k
      \<and> d + k \<le> length data \<and> k < 2 ^ 31 \<and> writing st data inp out (d + k) w'"
    using m by blast
qed

lemma fixed_size_writes:
  assumes "live st" "length data < 2 ^ 64"
  shows "writeFixedSize (write_from (peer_sys ch) st data) (inp, out) (of_nat (length data)) =
      Some (Inr (of_nat (length data), (inp, out @ data)))"
proof -
  have "writing st data inp out 0 (inp, out)" using assms(1) by (simp add: writing_def)
  from wr.fixed_loop_delivers [where ch = ch, OF assms(2) this]
  obtain w' where l: "fixed_loop (write_from (peer_sys ch) st data) (inp, out) 0 (of_nat (length data)) = Some (Inr (None, w'))"
    and r: "writing st data inp out (length data) w'" by auto
  from r have "w' = (inp, out @ data)" by (simp add: writing_def)
  with l show "writeFixedSize (write_from (peer_sys ch) st data) (inp, out) (of_nat (length data)) =
      Some (Inr (of_nat (length data), (inp, out @ data)))"
    by (simp add: writeFixedSize_def fixed_result_def)
qed

section \<open>Properties\<close>



text \<open>
  The loops never report an error of the stream: what they return is 0 or the requested length.
  The result of the virtual call is kept in an unsigned variable, so that -1 passes the test for an
  error, moves the offset back and enlarges what is left; on a stream on which every call fails they
  return the requested length, as if everything had been moved.
\<close>

lemma fixed_size_hides_errors:
  "(\<forall>r w'. readFixedSize io w n = Some (Inr (r, w')) \<longrightarrow> r = 0 \<or> r = ucast n)
   \<and> (\<forall>r w'. writeFixedSize io w n = Some (Inr (r, w')) \<longrightarrow> r = 0 \<or> r = ucast n)
   \<and> readFixedSize (\<lambda>w _ _. Inr (- 1, w)) w n = Some (Inr (ucast n, w))
   \<and> writeFixedSize_ba (\<lambda>w _. Inr (- 1, w)) w n = Some (Inr (ucast n, w))"
proof -
  have "r = 0 \<or> r = ucast n" if "fixed_result n (fixed_loop io w 0 n) = Some (Inr (r, w'))" for r w'
    using fixed_result_values [OF that] .
  then show ?thesis
    by (simp add: readFixedSize_def writeFixedSize_def writeFixedSize_ba_def fixed_loop_failing fixed_result_def)
qed

end
