(* ===== verification/Http_Session.thy ===== *)
theory Http_Session
  imports Http_Parser Servlet Streams
begin

text \<open>
  windgent/http/http\_session.cc and windgent/http/http\_server.cc: receiving a request, sending a response
  and serving a client. The loops run until the peer or the parser ends them, hence
  \<open>partial_function (option)\<close>. \<open>None\<close> inside a result is a null \<open>HttpRequest::ptr\<close>. \<open>limit\<close> is the size
  above which an allocation fails.
\<close>

section \<open>HttpSession\<close>

definition HttpSession_new :: "sock option \<Rightarrow> bool \<Rightarrow> socket_stream" where
  "HttpSession_new socket owner = SocketStream_new socket owner"

text \<open>\<open>close(); return nullptr;\<close>\<close>

definition give_up :: "'w sysapi \<Rightarrow> socket_stream \<Rightarrow> 'w \<Rightarrow> 'a option \<times> socket_stream \<times> 'w" where
  "give_up k st w = (None, stream_close k st w)"

text \<open>The loop for the head: \<open>pend\<close> is the unparsed data at the front of the buffer.\<close>

partial_function (option) recv_head ::
  "('p, request_event) machine \<Rightarrow> 'w sysapi \<Rightarrow> socket_stream \<Rightarrow> nat \<Rightarrow> 'p request_parser \<Rightarrow> byte list \<Rightarrow> 'w
   \<Rightarrow> (('p request_parser \<times> byte list) option \<times> socket_stream \<times> 'w) result option" where
  "recv_head M k st bsz p pend w =
     (case stream_read k st (bsz - length pend) w of
        Inl e \<Rightarrow> Some (Inl e)
      | Inr (len, bs, w) \<Rightarrow>
          if len \<le> 0 then Some (Inr (give_up k st w))
          else
            (let (nparse, p, rest) = request_execute M p (to_string (pend @ bs)) in
             if request_hasError M p then Some (Inr (give_up k st w))
             else if length rest = bsz then Some (Inr (give_up k st w))
             else if request_isFinished M p then Some (Inr (Some (p, to_bytes rest), st, w))
             else recv_head M k st bsz p (to_bytes rest) w))"

text \<open>The body, for \<open>rest\<close> already in the buffer: \<open>length -= last_size\<close> is unsigned.\<close>

definition recv_body ::
  "'w sysapi \<Rightarrow> nat \<Rightarrow> socket_stream \<Rightarrow> u64 \<Rightarrow> byte list \<Rightarrow> 'w \<Rightarrow> (byte list option \<times> socket_stream \<times> 'w) result option" where
  "recv_body k limit st len rest w =
     (if unat len > limit then Some (Inl Bad_alloc)
      else
        let last_size = of_nat (length rest) :: u64;
            copied = (if len \<ge> last_size then rest else take (unat len) rest);
            body = splice_at 0 copied (replicate (unat len) 0);
            left = len - last_size in
        if left > 0 then
          (case readFixedSize (read_into k st (length copied)) (w, body) left of
             None \<Rightarrow> None
           | Some (Inl e) \<Rightarrow> Some (Inl e)
           | Some (Inr (ret, (w, body))) \<Rightarrow>
               if sint ret \<le> 0 then Some (Inr (give_up k st w)) else Some (Inr (Some body, st, w)))
        else Some (Inr (Some body, st, w)))"

definition recvRequest ::
  "('p, request_event) machine \<Rightarrow> (string \<Rightarrow> u64 option) \<Rightarrow> 'w sysapi \<Rightarrow> nat \<Rightarrow> http_sizes \<Rightarrow> socket_stream \<Rightarrow> 'w
   \<Rightarrow> (http_request option \<times> socket_stream \<times> 'w) result option" where
  "recvRequest M cast k limit z st w =
     (case recv_head M k st (unat (request_buffer_size z)) (HttpRequestParser_new M) [] w of
        None \<Rightarrow> None
      | Some (Inl e) \<Rightarrow> Some (Inl e)
      | Some (Inr (None, st, w)) \<Rightarrow> Some (Inr (None, st, w))
      | Some (Inr (Some (p, rest), st, w)) \<Rightarrow>
          let len = request_getContentLength cast p in
          if len > 0 then
            (case recv_body k limit st len rest w of
               None \<Rightarrow> None
             | Some (Inl e) \<Rightarrow> Some (Inl e)
             | Some (Inr (None, st, w)) \<Rightarrow> Some (Inr (None, st, w))
             | Some (Inr (Some body, st, w)) \<Rightarrow>
                 Some (Inr (Some (HttpRequest_init ((m_data p)\<lparr>q_body := to_string body\<rparr>)), st, w)))
          else Some (Inr (Some (HttpRequest_init (m_data p)), st, w)))"

definition sendResponse :: "'w sysapi \<Rightarrow> socket_stream \<Rightarrow> http_response \<Rightarrow> 'w \<Rightarrow> (i32 \<times> 'w) result option" where
  "sendResponse k st rsp w =
     (let data = to_bytes (response_dump rsp) in
      writeFixedSize (write_from k st data) w (of_nat (length data)))"

section \<open>HttpServer\<close>

text \<open>A servlet may use the session it is given: its world is the session and the rest.\<close>

record 'w http_server =
  hs_keepalive :: bool
  hs_dispatcher :: "(socket_stream \<times> 'w) servlet"
  hs_name :: string

definition HttpServer_new :: "bool \<Rightarrow> 'w http_server" where
  "HttpServer_new keep_alive =
     \<lparr>hs_keepalive = keep_alive, hs_dispatcher = ServletDispatcher_new, hs_name = ''windgent/1.0.0''\<rparr>"

partial_function (option) client_loop ::
  "('p, request_event) machine \<Rightarrow> (string \<Rightarrow> u64 option) \<Rightarrow> (string \<Rightarrow> string \<Rightarrow> bool) \<Rightarrow> 'w sysapi \<Rightarrow> nat \<Rightarrow> http_sizes
   \<Rightarrow> 'w http_server \<Rightarrow> socket_stream \<Rightarrow> 'w \<Rightarrow> (socket_stream \<times> 'w) result option" where
  "client_loop M cast fnm k limit z srv st w =
     (case recvRequest M cast k limit z st w of
        None \<Rightarrow> None
      | Some (Inl e) \<Rightarrow> Some (Inl e)
      | Some (Inr (None, st, w)) \<Rightarrow> Some (Inl Null_deref)
      | Some (Inr (Some req, st, w)) \<Rightarrow>
          (let rsp = rsp_setHeader (HttpResponse_new (q_version req) (q_close req \<or> \<not> hs_keepalive srv)) ''Server'' (hs_name srv);
               (_, req, rsp, st, w) = handle fnm (hs_dispatcher srv) req rsp (st, w) in
           case sendResponse k st rsp w of
             None \<Rightarrow> None
           | Some (Inl e) \<Rightarrow> Some (Inl e)
           | Some (Inr (_, w)) \<Rightarrow>
               if \<not> hs_keepalive srv \<or> q_close req then Some (Inr (st, w))
               else client_loop M cast fnm k limit z srv st w))"

definition handleClient ::
  "('p, request_event) machine \<Rightarrow> (string \<Rightarrow> u64 option) \<Rightarrow> (string \<Rightarrow> string \<Rightarrow> bool) \<Rightarrow> 'w sysapi \<Rightarrow> nat \<Rightarrow> http_sizes
   \<Rightarrow> 'w http_server \<Rightarrow> sock option \<Rightarrow> 'w \<Rightarrow> (socket_stream \<times> 'w) result option" where
  "handleClient M cast fnm k limit z srv client w =
     map_option (\<lambda>r. rbind r (\<lambda>(st, w). Inr (stream_close k st w)))
       (client_loop M cast fnm k limit z srv (HttpSession_new client True) w)"

section \<open>Properties\<close>

lemma peer_recv_some:
  assumes "src \<noteq> []" "0 < n"
  shows "\<exists>b bs p. peer_recv ch n (src, out) = (int (Suc (length bs)), b # bs, p)"
proof -
  obtain a l where src: "src = a # l" using assms(1) by (cases src) auto
  define m where "m = min (chunk ch (length src) n) (length src)"
  have "0 < m" using assms(2) by (simp add: m_def src chunk_def)
  then obtain j where j: "m = Suc j" by (metis gr0_implies_Suc)
  have "j \<le> length l" using j src by (auto simp: m_def min_def split: if_splits)
  then have "take m src = a # take j l" "int m = int (Suc (length (take j l)))" by (simp_all add: j src)
  moreover have "peer_recv ch n (src, out) = (int m, take m src, (drop m src, out))" by (simp add: peer_recv_def Let_def m_def)
  ultimately show ?thesis by metis
qed

lemma peer_recv_eof: "peer_recv ch n ([], out) = (0, [], ([], out))"
  by (simp add: peer_recv_def)

text \<open>A body shorter than what is already in the buffer: the wrapped length asks for bytes behind the body.\<close>

lemma recv_body_overrun:
  assumes "live st" "unat len \<le> limit" "unat len < length rest" "length rest < 2 ^ 63" "src \<noteq> []"
  shows "recv_body (peer_sys ch) limit st len rest (src, out) = Some (Inl Out_of_bounds)"
proof -
  define left where "left = len - of_nat (length rest)"
  let ?copied = "take (unat len) rest" and ?body = "splice_at 0 (take (unat len) rest) (replicate (unat len) 0)"
  have u: "unat (of_nat (length rest) :: u64) = length rest" using assms(4) by (intro unat_of_nat_u64) simp
  have lt: "len < of_nat (length rest)" using assms(3) by (simp add: word_less_nat_alt u)
  then have pos: "left > 0" by (auto simp: left_def word_gt_0)
  have nle: "\<not> of_nat (length rest) \<le> len" using lt by simp
  have c: "length ?copied = unat len" "length ?body = unat len" using assms(3) by (simp_all add: splice_at_def)
  obtain b bs p where r: "peer_recv ch (unat left) (src, out) = (int (Suc (length bs)), b # bs, p)"
    using peer_recv_some [OF assms(5), of "unat left" ch out] pos by (auto simp: word_gt_0 unat_gt_0)
  have "read_into (peer_sys ch) st (unat len) ((src, out), ?body) 0 left = Inl Out_of_bounds"
    using c(2) by (simp add: read_into_def read_at_def stream_read_peer [OF assms(1)] r)
  then have "fixed_loop (read_into (peer_sys ch) st (unat len)) ((src, out), ?body) 0 left = Some (Inl Out_of_bounds)"
    using pos by (subst fixed_loop.simps) simp
  then show ?thesis
    using assms(2) nle pos c(1) unfolding recv_body_def Let_def left_def [symmetric]
    by (simp add: readFixedSize_def fixed_result_def)
qed

lemma recv_body_exact:
  assumes "live st" "unat len \<le> limit" "length rest \<le> unat len" "unat len - length rest \<le> length src"
    "unat len - length rest < 2 ^ 31"
  shows "recv_body (peer_sys ch) limit st len rest (src, out) =
    Some (Inr (Some (rest @ take (unat len - length rest) src), st, (drop (unat len - length rest) src, out)))"
proof -
  define n where "n = unat len - length rest"
  have b: "unat len < 2 ^ 64" using unsigned_less [of len, where ?'a = nat] by simp
  have u: "unat (of_nat (length rest) :: u64) = length rest" using assms(3) b by (intro unat_of_nat_u64) simp
  have le: "of_nat (length rest) \<le> len" using assms(3) by (simp add: word_le_nat_alt u)
  have left: "len - of_nat (length rest) = of_nat n"
    using le u unat_of_nat_u64 [of n] b by (simp add: word_unat_eq_iff unat_sub n_def)
  let ?body = "splice_at 0 rest (replicate (unat len) 0)"
  have body: "length ?body = length rest + n" "take (length rest) ?body = rest" using assms(3) by (simp_all add: splice_at_def n_def)
  show ?thesis
  proof (cases "n = 0")
    case True
    then have "?body = rest" using body by simp
    moreover have "len - of_nat (length rest) = 0" using left True by simp
    ultimately show ?thesis using le assms(2) unfolding recv_body_def Let_def n_def [symmetric] True by simp
  next
    case False
    then have pos: "(of_nat n :: u64) \<noteq> 0" using assms(5) by (intro of_nat_u64_ne0) (simp_all add: n_def)
    have sz: "length rest + n < 2 ^ 64" using b assms(3) by (simp add: n_def)
    have "n < 2 ^ 31" using assms(5) by (simp add: n_def)
    then have ret: "sint (of_nat n :: i32) = int n" by (simp add: signed_of_nat signed_take_bit_int_eq_self)
    have rf: "readFixedSize (read_into (peer_sys ch) st (length rest)) ((src, out), ?body) (of_nat n) =
      Some (Inr (of_nat n, ((drop n src, out), rest @ take n src)))"
      using read_into_delivers [OF assms(1) body _ sz, of src ch out] assms(4) by (simp add: n_def)
    show ?thesis
      using False le left assms(2) pos unfolding recv_body_def Let_def n_def [symmetric]
      by (simp add: rf ret word_gt_0)
  qed
qed

text \<open>
  \<^bold>\<open>C27\<close>. The body of a request. When no more than the body is in the buffer behind the head, and the
  rest of it is below \<open>2 ^ 31\<close> bytes, the body is exactly the announced number of bytes, however the
  peer splits them. When more is in the buffer, as with a second request sent behind the first, the
  number of bytes left wraps around and the next bytes from the peer are written behind the body. The
  announced length is never compared with the configured maximum: only the allocation bounds it.
\<close>

theorem recv_body_outcome:
  assumes "live st" "length rest < 2 ^ 63" "unat len \<le> limit"
  shows "(length rest \<le> unat len \<and> unat len - length rest \<le> length src \<and> unat len - length rest < 2 ^ 31 \<longrightarrow>
      recv_body (peer_sys ch) limit st len rest (src, out) =
        Some (Inr (Some (rest @ take (unat len - length rest) src), st, (drop (unat len - length rest) src, out))))
    \<and> (unat len < length rest \<and> src \<noteq> [] \<longrightarrow>
      recv_body (peer_sys ch) limit st len rest (src, out) = Some (Inl Out_of_bounds))
    \<and> (unat len' > limit \<longrightarrow> recv_body (peer_sys ch) limit st len' rest (src, out) = Some (Inl Bad_alloc))"
  using recv_body_exact [OF assms(1,3)] recv_body_overrun [OF assms(1,3) _ assms(2)] by (simp add: recv_body_def)

theorem recv_body_outcome_witness:
  "recv_body (peer_sys (\<lambda>_. 0)) 100 (SocketStream_new (Some (createTCPSocket\<lparr>m_isConnected := True\<rparr>)) True) 3 [1] ([2, 3, 4], []) =
     Some (Inr (Some [1, 2, 3], SocketStream_new (Some (createTCPSocket\<lparr>m_isConnected := True\<rparr>)) True, ([4], [])))"
proof -
  let ?st = "SocketStream_new (Some (createTCPSocket\<lparr>m_isConnected := True\<rparr>)) True"
  have "live ?st" by (simp add: live_def SocketStream_new_def)
  from recv_body_outcome [OF this, of "[1]" 3 100 "[2, 3, 4]" "\<lambda>_. 0" "[]"] show ?thesis by simp
qed

text \<open>
  \<^bold>\<open>C23\<close>. Serving a client. A request that was received and that ends the connection is answered with
  exactly the text of the response its servlet left, and the session is closed. When no request comes,
  because the peer closed the connection or sent something unparsable, \<open>handleClient\<close> goes on with the null
  pointer: a client that connects and sends nothing, or that ends a keep-alive connection, stops the server.
\<close>

theorem handleClient_outcome:
  assumes "recvRequest M cast (peer_sys ch) limit z (HttpSession_new client True) w = Some (Inr (r, st1, w1))"
    and "\<And>req. r = Some req \<Longrightarrow>
      snd (handle fnm (hs_dispatcher srv) req
        (rsp_setHeader (HttpResponse_new (q_version req) (q_close req \<or> \<not> hs_keepalive srv)) ''Server'' (hs_name srv)) (st1, w1))
        = (req', rsp', st2, (src, out)) \<and> live st2 \<and> (\<not> hs_keepalive srv \<or> q_close req') \<and> length (response_dump rsp') < 2 ^ 64"
  shows "handleClient M cast fnm (peer_sys ch) limit z srv client w =
    (if r = None then Some (Inl Null_deref)
     else Some (Inr (stream_close (peer_sys ch) st2 (src, out @ to_bytes (response_dump rsp')))))"
proof (cases r)
  case None
  then show ?thesis using assms(1) by (simp add: handleClient_def client_loop.simps)
next
  case (Some req)
  note h = assms(2) [OF Some]
  let ?data = "to_bytes (response_dump rsp')"
  have "sendResponse (peer_sys ch) st2 rsp' (src, out) = Some (Inr (of_nat (length ?data), (src, out @ ?data)))"
    using fixed_size_writes [of st2 ?data ch src out] h by (simp add: sendResponse_def)
  moreover obtain i where "handle fnm (hs_dispatcher srv) req
      (rsp_setHeader (HttpResponse_new (q_version req) (q_close req \<or> \<not> hs_keepalive srv)) ''Server'' (hs_name srv)) (st1, w1)
      = (i, req', rsp', st2, (src, out))" using h by (metis prod.collapse)
  ultimately show ?thesis using assms(1) Some h by (simp add: handleClient_def client_loop.simps)
qed

lemma eof_no_request: "live st \<Longrightarrow>
    recvRequest M cast (peer_sys ch) limit z st ([], out) = Some (Inr (give_up (peer_sys ch) st ([], out)))"
  by (simp add: recvRequest_def recv_head.simps stream_read_peer peer_recv_eof give_up_def split: prod.split)

definition one_shot :: "(bool, request_event) machine" where
  "one_shot = \<lparr>mc_init = False, mc_execute = (\<lambda>_ data. (length data, [], True)), mc_finished = (\<lambda>m. m), mc_error = (\<lambda>_. False)\<rparr>"

definition demo_stream :: socket_stream where
  "demo_stream = HttpSession_new (Some (createTCPSocket\<lparr>m_isConnected := True\<rparr>)) True"

definition demo_response :: http_response where
  "demo_response = NotFound_handle
     (''<html><head><title>404 Not Found'' @ ''</title></head><body><center><h1>404 Not Found</h1></center>''
      @ ''<hr><center>'' @ ''nothing'' @ ''</center></body></html>'')
     (rsp_setHeader (HttpResponse_new 0x11 True) ''Server'' ''windgent/1.0.0'')"

lemma demo_live: "live demo_stream"
  by (simp add: demo_stream_def HttpSession_new_def live_def SocketStream_new_def)

lemma demo_request:
  "recvRequest one_shot (\<lambda>_. None) (peer_sys (\<lambda>_. 0)) 100 RequestSizeIniter demo_stream ([71], []) =
     Some (Inr (Some (HttpRequest_new 0x11 True), demo_stream, ([], [])))"
proof -
  have "peer_recv (\<lambda>_. 0) 4096 ([71], []) = (1, [71], ([], []))" by (simp add: peer_recv_def chunk_def)
  moreover have "unat (request_buffer_size RequestSizeIniter) = 4096" by (simp add: RequestSizeIniter_def)
  moreover have "HttpRequest_init (HttpRequest_new 0x11 True) = HttpRequest_new 0x11 True"
    "request_getContentLength (\<lambda>_. None) \<lparr>m_parser = True, m_data = HttpRequest_new 0x11 True, m_error = 0\<rparr> = 0"
    by (simp_all add: HttpRequest_init_def HttpRequest_new_def getHeader_def request_getContentLength_def getHeaderAs_def getAs_def)
  moreover have "request_execute one_shot (HttpRequestParser_new one_shot) (to_string [71]) =
      (1, \<lparr>m_parser = True, m_data = HttpRequest_new 0x11 True, m_error = 0\<rparr>, [])"
    by (simp add: request_execute_def one_shot_def HttpRequestParser_new_def)
  ultimately show ?thesis
    unfolding recvRequest_def
    by (subst recv_head.simps) (simp add: stream_read_peer demo_live request_hasError_def request_isFinished_def one_shot_def to_bytes_def)
qed

theorem handleClient_outcome_witness:
  "handleClient one_shot (\<lambda>_. None) (\<lambda>_ _. False) (peer_sys (\<lambda>_. 0)) 100 RequestSizeIniter (HttpServer_new True)
     (Some (createTCPSocket\<lparr>m_isConnected := True\<rparr>)) ([], []) = Some (Inl Null_deref)
   \<and> handleClient one_shot (\<lambda>_. None) (\<lambda>_ _. False) (peer_sys (\<lambda>_. 0)) 100 RequestSizeIniter (HttpServer_new True)
     (Some (createTCPSocket\<lparr>m_isConnected := True\<rparr>)) ([71], []) =
       Some (Inr (stream_close (peer_sys (\<lambda>_. 0)) demo_stream ([], to_bytes (response_dump demo_response))))"
proof
  obtain st w where c: "stream_close (peer_sys (\<lambda>_. 0)) demo_stream ([], []) = (st, w)" by (metis surj_pair)
  have "recvRequest one_shot (\<lambda>_. None) (peer_sys (\<lambda>_. 0)) 100 RequestSizeIniter demo_stream ([], []) = Some (Inr (None, st, w))"
    using eof_no_request [OF demo_live, of one_shot "\<lambda>_. None" "\<lambda>_. 0" 100 RequestSizeIniter "[]"] by (simp add: give_up_def c)
  from handleClient_outcome [OF this [unfolded demo_stream_def]]
  show "handleClient one_shot (\<lambda>_. None) (\<lambda>_ _. False) (peer_sys (\<lambda>_. 0)) 100 RequestSizeIniter (HttpServer_new True)
     (Some (createTCPSocket\<lparr>m_isConnected := True\<rparr>)) ([], []) = Some (Inl Null_deref)" by simp
next
  have "length (response_dump demo_response) \<le> 400" by code_simp
  then have "length (response_dump demo_response) < 2 ^ 64" by simp
  moreover have "snd (handle (\<lambda>_ _. False) (hs_dispatcher (HttpServer_new True)) (HttpRequest_new 0x11 True)
     (rsp_setHeader (HttpResponse_new 0x11 True) ''Server'' ''windgent/1.0.0'') (demo_stream, ([], []))) =
     (HttpRequest_new 0x11 True, demo_response, demo_stream, ([], []))"
    by (simp add: HttpServer_new_def ServletDispatcher_new_def getMatchedServlet_def tables_def NotFoundServlet_new_def demo_response_def)
  ultimately show "handleClient one_shot (\<lambda>_. None) (\<lambda>_ _. False) (peer_sys (\<lambda>_. 0)) 100 RequestSizeIniter (HttpServer_new True)
     (Some (createTCPSocket\<lparr>m_isConnected := True\<rparr>)) ([71], []) =
       Some (Inr (stream_close (peer_sys (\<lambda>_. 0)) demo_stream ([], to_bytes (response_dump demo_response))))"
    using handleClient_outcome [OF demo_request [unfolded demo_stream_def], of "\<lambda>_ _. False" "HttpServer_new True"
        "HttpRequest_new 0x11 True" demo_response demo_stream "[]" "[]"] demo_live
    by (simp add: HttpServer_new_def HttpRequest_new_def demo_stream_def)
qed

end
