(* ===== verification/Http_Connection.thy ===== *)
theory Http_Connection
  imports Http_Session
begin

text \<open>
  windgent/http/http\_connection.h and http\_connection.cc: the client side of a connection, and the pool of
  connections. The parser that ragel generates from uri.rl is the field \<open>e_uri\<close> of the environment; the
  accessors of \<open>Uri\<close> are modelled from uri.rl. \<open>Socket::createTCP\<close> never returns a null pointer, nor has a
  connection of the pool a null socket, so the branches for these have no counterpart.
\<close>

section \<open>Uri\<close>

record uri =
  u_scheme :: string
  u_userinfo :: string
  u_host :: string
  u_path :: string
  u_query :: string
  u_fragment :: string
  u_port :: i32

definition Uri_getPath :: "uri \<Rightarrow> string" where
  "Uri_getPath u = (if u_path u = [] then ''/'' else u_path u)"

definition Uri_getPort :: "uri \<Rightarrow> i32" where
  "Uri_getPort u =
     (if u_port u \<noteq> 0 then u_port u
      else if u_scheme u = ''http'' then 80 else if u_scheme u = ''https'' then 443 else u_port u)"

definition getAddrFromUri :: "endian \<Rightarrow> getaddrinfo \<Rightarrow> uri \<Rightarrow> address option result" where
  "getAddrFromUri host gai u =
     rbind (getAnyIPAddrFromHost host gai (u_host u) AF_INET 0 0) (\<lambda>a.
       Inr (map_option (set_port host (ucast (Uri_getPort u))) a))"

definition Uri_isDefaultPort :: "uri \<Rightarrow> bool" where
  "Uri_isDefaultPort u \<longleftrightarrow>
     (if u_port u = 0 then True
      else if u_scheme u = ''http'' then u_port u = 80 else if u_scheme u = ''https'' then u_port u = 443 else False)"

definition Uri_dump :: "uri \<Rightarrow> string" where
  "Uri_dump u =
     u_scheme u @ ''://'' @ u_userinfo u @ (if u_userinfo u = [] then [] else ''@'')
     @ u_host u @ (if Uri_isDefaultPort u then [] else '':'' @ int_digits (sint (u_port u)))
     @ Uri_getPath u @ (if u_query u = [] then [] else ''?'') @ u_query u @ (if u_fragment u = [] then [] else ''#'') @ u_fragment u"

definition Uri_toString :: "uri \<Rightarrow> string" where
  "Uri_toString u = Uri_dump u"

text \<open>The port is left out of the text exactly when the address without it has the same port.\<close>

lemma default_port_redundant: "Uri_isDefaultPort u \<longleftrightarrow> Uri_getPort (u\<lparr>u_port := 0\<rparr>) = Uri_getPort u"
  by (auto simp: Uri_isDefaultPort_def Uri_getPort_def)

section \<open>Results and environment\<close>

datatype http_error =
    OK | INVALID_URL | INVALID_HOST | CONNECT_FAILED | CLOSED_BY_PEER | SEND_SOCKET_ERROR | TIMEOUT
  | CREATE_SOCKET_ERROR | POOL_GET_CONN_FAILED | POOL_INVALID_CONN

record http_result =
  res_result :: http_error
  res_response :: "http_response option"
  res_error :: string

definition HttpResult_new :: "http_error \<Rightarrow> http_response option \<Rightarrow> string \<Rightarrow> http_result" where
  "HttpResult_new r rsp e = \<lparr>res_result = r, res_response = rsp, res_error = e\<rparr>"

text \<open>\<open>(int)result\<close>: the constructors are in the order of their numbers.\<close>

definition error_num :: "http_error \<Rightarrow> nat" where
  "error_num e = length (takeWhile (\<lambda>x. x \<noteq> e)
     [OK, INVALID_URL, INVALID_HOST, CONNECT_FAILED, CLOSED_BY_PEER, SEND_SOCKET_ERROR, TIMEOUT, CREATE_SOCKET_ERROR,
      POOL_GET_CONN_FAILED, POOL_INVALID_CONN])"

definition HttpResult_toString :: "http_result \<Rightarrow> string" where
  "HttpResult_toString r =
     ''[HttpResult result= '' @ digits (error_num (res_result r)) @ '', error= '' @ res_error r @ '', response= ''
     @ (case res_response r of Some p \<Rightarrow> response_dump p | None \<Rightarrow> ''nullptr'') @ '']''"

text \<open>The three fields of \<open>httpclient_parser\<close> that are read directly.\<close>

record 'p chunk_info =
  ci_chunked :: "'p \<Rightarrow> bool"
  ci_content_len :: "'p \<Rightarrow> int"
  ci_chunks_done :: "'p \<Rightarrow> bool"

record ('w, 'p) env =
  e_host :: endian
  e_sys :: "'w sysapi"
  e_gai :: getaddrinfo
  e_machine :: "('p, response_event) machine"
  e_chunks :: "'p chunk_info"
  e_cast :: "string \<Rightarrow> u64 option"
  e_limit :: nat
  e_sizes :: http_sizes
  e_uri :: "string \<Rightarrow> uri option"
  e_strerror :: "int \<Rightarrow> string"
  e_now :: "'w \<Rightarrow> u64"

section \<open>Receiving a response\<close>

partial_function (option) recv_rsp_head ::
  "('w, 'p) env \<Rightarrow> socket_stream \<Rightarrow> nat \<Rightarrow> 'p response_parser \<Rightarrow> byte list \<Rightarrow> 'w
   \<Rightarrow> (('p response_parser \<times> byte list) option \<times> socket_stream \<times> 'w) result option" where
  "recv_rsp_head E st bsz p pend w =
     (case stream_read (e_sys E) st (bsz - length pend) w of
        Inl e \<Rightarrow> Some (Inl e)
      | Inr (len, bs, w) \<Rightarrow>
          if len \<le> 0 then Some (Inr (give_up (e_sys E) st w))
          else
            (let (nparse, p, rest) = response_execute (e_machine E) p (to_string (pend @ bs)) False in
             if response_hasError (e_machine E) p then Some (Inr (give_up (e_sys E) st w))
             else if length rest = bsz then Some (Inr (give_up (e_sys E) st w))
             else if response_isFinished (e_machine E) p then Some (Inr (Some (p, to_bytes rest), st, w))
             else recv_rsp_head E st bsz p (to_bytes rest) w))"

text \<open>The inner loop over the head of a chunk; \<open>data[len] = '\0'\<close> is a write at index \<open>len\<close> of the buffer.\<close>

partial_function (option) chunk_head ::
  "('w, 'p) env \<Rightarrow> socket_stream \<Rightarrow> nat \<Rightarrow> bool \<Rightarrow> 'p response_parser \<Rightarrow> byte list \<Rightarrow> 'w
   \<Rightarrow> (('p response_parser \<times> byte list) option \<times> socket_stream \<times> 'w) result option" where
  "chunk_head E st bsz begin p data w =
     (case (if \<not> begin \<or> length data = 0 then stream_read (e_sys E) st (bsz - length data) w else Inr (1, [], w)) of
        Inl e \<Rightarrow> Some (Inl e)
      | Inr (rt, bs, w) \<Rightarrow>
          if rt \<le> 0 then Some (Inr (give_up (e_sys E) st w))
          else if length (data @ bs) \<ge> bsz then Some (Inl Out_of_bounds)
          else
            (let (nparse, p, rest) = response_execute (e_machine E) p (to_string (data @ bs)) True in
             if response_hasError (e_machine E) p then Some (Inr (give_up (e_sys E) st w))
             else if length rest = bsz then Some (Inr (give_up (e_sys E) st w))
             else if response_isFinished (e_machine E) p then Some (Inr (Some (p, to_bytes rest), st, w))
             else chunk_head E st bsz False p (to_bytes rest) w))"

text \<open>\<open>while(left > 0)\<close>: the rest of a chunk and the line end behind it.\<close>

partial_function (option) chunk_left ::
  "'w sysapi \<Rightarrow> socket_stream \<Rightarrow> nat \<Rightarrow> int \<Rightarrow> byte list \<Rightarrow> 'w \<Rightarrow> (byte list option \<times> socket_stream \<times> 'w) result option" where
  "chunk_left k st bsz left body w =
     (if left > 0 then
        (case stream_read k st (nat (if left > int bsz then int bsz else left)) w of
           Inl e \<Rightarrow> Some (Inl e)
         | Inr (rt, bs, w) \<Rightarrow>
             if rt \<le> 0 then Some (Inr (give_up k st w))
             else chunk_left k st bsz (left - rt) (body @ bs) w)
      else Some (Inr (Some body, st, w)))"

text \<open>
  The data of a chunk, from what is in the buffer and from the peer. \<open>content_len\<close> is an \<open>int\<close>: a negative
  one reaches \<open>append\<close> or \<open>resize\<close> as a size beyond every string.
\<close>

definition chunk_data ::
  "'w sysapi \<Rightarrow> socket_stream \<Rightarrow> nat \<Rightarrow> int \<Rightarrow> byte list \<Rightarrow> byte list \<Rightarrow> 'w
   \<Rightarrow> ((byte list \<times> byte list) option \<times> socket_stream \<times> 'w) result option" where
  "chunk_data k st bsz content_len body data w =
     (if content_len + 2 \<ge> 2 ^ 31 then Some (Inl Signed_overflow)
      else if content_len + 2 \<le> int (length data) then
        if content_len < 0 then Some (Inl Bad_alloc)
        else Some (Inr (Some (body @ take (nat content_len) data, drop (nat content_len + 2) data), st, w))
      else obind (chunk_left k st bsz (content_len - int (length data) + 2) (body @ data) w) (\<lambda>(r, st, w).
        case r of
          None \<Rightarrow> Some (Inr (None, st, w))
        | Some body \<Rightarrow>
            if length body < 2 then Some (Inl Bad_alloc)
            else Some (Inr (Some (take (length body - 2) body, []), st, w))))"

partial_function (option) chunks_loop ::
  "('w, 'p) env \<Rightarrow> socket_stream \<Rightarrow> nat \<Rightarrow> 'p response_parser \<Rightarrow> byte list \<Rightarrow> byte list \<Rightarrow> 'w
   \<Rightarrow> (('p response_parser \<times> byte list) option \<times> socket_stream \<times> 'w) result option" where
  "chunks_loop E st bsz p data body w =
     (case chunk_head E st bsz True p data w of
        None \<Rightarrow> None
      | Some (Inl e) \<Rightarrow> Some (Inl e)
      | Some (Inr (None, st, w)) \<Rightarrow> Some (Inr (None, st, w))
      | Some (Inr (Some (p, data), st, w)) \<Rightarrow>
          (case chunk_data (e_sys E) st bsz (ci_content_len (e_chunks E) (r_parser p)) body data w of
             None \<Rightarrow> None
           | Some (Inl e) \<Rightarrow> Some (Inl e)
           | Some (Inr (None, st, w)) \<Rightarrow> Some (Inr (None, st, w))
           | Some (Inr (Some (body, data), st, w)) \<Rightarrow>
               if ci_chunks_done (e_chunks E) (r_parser p) then Some (Inr (Some (p, body), st, w))
               else chunks_loop E st bsz p data body w))"

definition recvResponse ::
  "('w, 'p) env \<Rightarrow> socket_stream \<Rightarrow> 'w \<Rightarrow> (http_response option \<times> socket_stream \<times> 'w) result option" where
  "recvResponse E st w =
     (let bsz = unat (response_buffer_size (e_sizes E)) in
      obind (recv_rsp_head E st bsz (HttpResponseParser_new (e_machine E)) [] w) (\<lambda>(r, st, w).
        case r of
          None \<Rightarrow> Some (Inr (None, st, w))
        | Some (p, rest) \<Rightarrow>
            if ci_chunked (e_chunks E) (r_parser p) then
              obind (chunks_loop E st bsz p rest [] w) (\<lambda>(r, st, w).
                Some (Inr (case r of None \<Rightarrow> None | Some (p, body) \<Rightarrow> Some ((r_data p)\<lparr>p_body := to_string body\<rparr>), st, w)))
            else
              (let len = response_getContentLength (e_cast E) p in
               if len > 0 then
                 obind (recv_body (e_sys E) (e_limit E) st len rest w) (\<lambda>(r, st, w).
                   Some (Inr (case r of None \<Rightarrow> None | Some body \<Rightarrow> Some ((r_data p)\<lparr>p_body := to_string body\<rparr>), st, w)))
               else Some (Inr (Some (r_data p), st, w)))))"

definition sendRequest :: "'w sysapi \<Rightarrow> socket_stream \<Rightarrow> http_request \<Rightarrow> 'w \<Rightarrow> (i32 \<times> 'w) result option" where
  "sendRequest k st req w =
     (let data = to_bytes (request_dump req) in writeFixedSize (write_from k st data) w (of_nat (length data)))"

section \<open>Requests\<close>

text \<open>The loop over the given headers; \<open>m\<close> is a \<open>std::map\<close>, in the order of its keys.\<close>

fun add_headers :: "(string \<times> string) list \<Rightarrow> http_request \<Rightarrow> bool \<Rightarrow> http_request \<times> bool" where
  "add_headers [] req has_host = (req, has_host)"
| "add_headers ((k, v) # m) req has_host =
     (if strcasecmp k ''connection'' = 0 then
        add_headers m (if strcasecmp v ''keep-alive'' = 0 then req\<lparr>q_close := False\<rparr> else req) has_host
      else
        let has_host = (if \<not> has_host \<and> strcasecmp k ''host'' = 0 then v \<noteq> [] else has_host) in
        add_headers m (setHeader req k v) has_host)"

text \<open>\<open>getRemoteAddress()->toString()\<close> of the socket of a connection.\<close>

definition remote_text :: "('w, 'p) env \<Rightarrow> socket_stream \<Rightarrow> 'w \<Rightarrow> (string \<times> socket_stream) result" where
  "remote_text E st w =
     (case m_socket st of
        None \<Rightarrow> Inl Null_deref
      | Some s \<Rightarrow>
          rbind (getRemoteAddress (e_host E) (e_sys E) s w) (\<lambda>(a, s).
          rbind (toString (e_host E) a) (\<lambda>t. Inr (t, st\<lparr>m_socket := Some s\<rparr>))))"

text \<open>Receiving the response, when the request is out.\<close>

definition await_response ::
  "('w, 'p) env \<Rightarrow> socket_stream \<Rightarrow> u64 \<Rightarrow> 'w \<Rightarrow> (http_result \<times> socket_stream \<times> 'w) result option" where
  "await_response E st timeout_ms w =
     obind (recvResponse E st w) (\<lambda>(rsp, st, w).
       case rsp of
         None \<Rightarrow>
           Some (rbind (remote_text E st w) (\<lambda>(t, st).
             Inr (HttpResult_new TIMEOUT None
               (''Recv response timeout: '' @ t @ '', timeout_ms= '' @ digits (unat timeout_ms)), st, w)))
       | Some p \<Rightarrow> Some (Inr (HttpResult_new OK (Some p) ''OK'', st, w)))"

text \<open>
  What the two functions for a built request share: sending, receiving, and the results. They differ in
  the address that the message for a closed connection shows, \<open>shown\<close>.
\<close>

definition talk ::
  "('w, 'p) env \<Rightarrow> (socket_stream \<Rightarrow> 'w \<Rightarrow> (string \<times> socket_stream) result) \<Rightarrow> socket_stream \<Rightarrow> http_request \<Rightarrow> u64 \<Rightarrow> 'w
   \<Rightarrow> (http_result \<times> socket_stream \<times> 'w) result option" where
  "talk E shown st req timeout_ms w =
     obind (sendRequest (e_sys E) st req w) (\<lambda>(ret, w).
       if sint ret = 0 then
         Some (rbind (shown st w) (\<lambda>(t, st).
           Inr (HttpResult_new CLOSED_BY_PEER None (''Request closed by peer: '' @ t), st, w)))
       else if sint ret < 0 then
         Some (Inr (HttpResult_new SEND_SOCKET_ERROR None
           (''Send socket error, errno= '' @ int_digits (y_errno (e_sys E) w) @ '', errstr= '' @ e_strerror E (y_errno (e_sys E) w)), st, w))
       else await_response E st timeout_ms w)"

definition lift_result :: "'a result \<Rightarrow> 'a result option" where
  "lift_result r = Some r"

definition doRequest_req ::
  "('w, 'p) env \<Rightarrow> http_request \<Rightarrow> uri \<Rightarrow> u64 \<Rightarrow> 'w \<Rightarrow> (http_result \<times> 'w) result option" where
  "doRequest_req E req u timeout_ms w =
     obind (lift_result (getAddrFromUri (e_host E) (e_gai E) u)) (\<lambda>addr.
       case addr of
         None \<Rightarrow> Some (Inr (HttpResult_new INVALID_HOST None (''Invalid host: '' @ u_host u), w))
       | Some addr \<Rightarrow>
           obind (lift_result (Socket_connect (e_host E) (e_sys E) (createTCP addr) addr (- 1) w)) (\<lambda>(ok, s, w).
             if \<not> ok then
               obind (lift_result (toString (e_host E) addr)) (\<lambda>t.
                 Some (Inr (HttpResult_new CONNECT_FAILED None (''Connect failed: '' @ t), w)))
             else
               let w = setRecvTimeout (e_sys E) s timeout_ms w in
               obind (talk E (\<lambda>st w. rbind (toString (e_host E) addr) (\<lambda>t. Inr (t, st)))
                 (SocketStream_new (Some s) True) req timeout_ms w) (\<lambda>(r, st, w).
                 Some (Inr (r, snd (SocketStream_destroy (e_sys E) st w))))))"

definition doRequest_uri ::
  "('w, 'p) env \<Rightarrow> http_method \<Rightarrow> uri \<Rightarrow> u64 \<Rightarrow> (string \<times> string) list \<Rightarrow> string \<Rightarrow> 'w \<Rightarrow> (http_result \<times> 'w) result option" where
  "doRequest_uri E meth u timeout_ms headers body w =
     (let req = (HttpRequest_new 0x11 True)\<lparr>q_method := meth, q_path := Uri_getPath u, q_query := u_query u,
            q_fragment := u_fragment u, q_body := body\<rparr>;
          (req, has_host) = add_headers headers req False;
          req = (if \<not> has_host then setHeader req ''Host'' (u_host u) else req)
      in doRequest_req E req u timeout_ms w)"

definition doRequest ::
  "('w, 'p) env \<Rightarrow> http_method \<Rightarrow> string \<Rightarrow> u64 \<Rightarrow> (string \<times> string) list \<Rightarrow> string \<Rightarrow> 'w \<Rightarrow> (http_result \<times> 'w) result option" where
  "doRequest E meth url timeout_ms headers body w =
     (case e_uri E url of
        None \<Rightarrow> Some (Inr (HttpResult_new INVALID_URL None (''invalid url: '' @ url), w))
      | Some u \<Rightarrow> doRequest_uri E meth u timeout_ms headers body w)"

definition doGet_uri ::
  "('w, 'p) env \<Rightarrow> uri \<Rightarrow> u64 \<Rightarrow> (string \<times> string) list \<Rightarrow> string \<Rightarrow> 'w \<Rightarrow> (http_result \<times> 'w) result option" where
  "doGet_uri E u timeout_ms headers body w = doRequest_uri E GET u timeout_ms headers body w"

definition doGet ::
  "('w, 'p) env \<Rightarrow> string \<Rightarrow> u64 \<Rightarrow> (string \<times> string) list \<Rightarrow> string \<Rightarrow> 'w \<Rightarrow> (http_result \<times> 'w) result option" where
  "doGet E url timeout_ms headers body w =
     (case e_uri E url of
        None \<Rightarrow> Some (Inr (HttpResult_new INVALID_URL None (''invalid url: '' @ url), w))
      | Some u \<Rightarrow> doGet_uri E u timeout_ms headers body w)"

definition doPost_uri ::
  "('w, 'p) env \<Rightarrow> uri \<Rightarrow> u64 \<Rightarrow> (string \<times> string) list \<Rightarrow> string \<Rightarrow> 'w \<Rightarrow> (http_result \<times> 'w) result option" where
  "doPost_uri E u timeout_ms headers body w = doRequest_uri E POST u timeout_ms headers body w"

definition doPost ::
  "('w, 'p) env \<Rightarrow> string \<Rightarrow> u64 \<Rightarrow> (string \<times> string) list \<Rightarrow> string \<Rightarrow> 'w \<Rightarrow> (http_result \<times> 'w) result option" where
  "doPost E url timeout_ms headers body w =
     (case e_uri E url of
        None \<Rightarrow> Some (Inr (HttpResult_new INVALID_URL None (''invalid url: '' @ url), w))
      | Some u \<Rightarrow> doPost_uri E u timeout_ms headers body w)"

section \<open>The pool of connections\<close>

record conn =
  c_stream :: socket_stream
  m_createTime :: u64
  m_request :: u64

record conn_pool =
  m_host :: string
  m_vhost :: string
  m_port :: u32
  m_maxSize :: u32
  m_maxAliveTime :: u32
  m_maxRequest :: u32
  m_conns :: "conn list"
  m_total :: i32

definition HttpConnection_new :: "sock \<Rightarrow> bool \<Rightarrow> conn" where
  "HttpConnection_new s owner = \<lparr>c_stream = SocketStream_new (Some s) owner, m_createTime = 0, m_request = 0\<rparr>"

definition HttpConnectionPool_new :: "string \<Rightarrow> string \<Rightarrow> u32 \<Rightarrow> u32 \<Rightarrow> u32 \<Rightarrow> u32 \<Rightarrow> conn_pool" where
  "HttpConnectionPool_new host vhost port maxSize maxAliveTime maxRequest =
     \<lparr>m_host = host, m_vhost = vhost, m_port = port, m_maxSize = maxSize, m_maxAliveTime = maxAliveTime,
      m_maxRequest = maxRequest, m_conns = [], m_total = 0\<rparr>"

definition too_old :: "conn_pool \<Rightarrow> u64 \<Rightarrow> conn \<Rightarrow> bool" where
  "too_old p now_ms c \<longleftrightarrow> m_createTime c + ucast (m_maxAliveTime p) < now_ms"

text \<open>The loop under the lock: the connection found, the ones to be deleted, and what stays.\<close>

fun pick_conn :: "conn_pool \<Rightarrow> u64 \<Rightarrow> conn list \<Rightarrow> conn list \<Rightarrow> (conn option \<times> conn list \<times> conn list) result" where
  "pick_conn p now_ms [] invalid = Inr (None, invalid, [])"
| "pick_conn p now_ms (c # cs) invalid =
     rbind (stream_isConnected (c_stream c)) (\<lambda>ok.
       if \<not> ok then pick_conn p now_ms cs (invalid @ [c])
       else if too_old p now_ms c then pick_conn p now_ms cs (invalid @ [c])
       else Inr (Some c, invalid, cs))"

definition delete_conn :: "'w sysapi \<Rightarrow> conn \<Rightarrow> 'w \<Rightarrow> 'w" where
  "delete_conn k c w = snd (SocketStream_destroy k (c_stream c) w)"

text \<open>A new connection, when the pool has none: \<open>None\<close> is the early \<open>return nullptr\<close>.\<close>

definition create_conn :: "('w, 'p) env \<Rightarrow> conn_pool \<Rightarrow> 'w \<Rightarrow> (conn option \<times> 'w) result" where
  "create_conn E p w =
     rbind (getAnyIPAddrFromHost (e_host E) (e_gai E) (m_host p) AF_INET 0 0) (\<lambda>addr.
       case addr of
         None \<Rightarrow> Inr (None, w)
       | Some addr \<Rightarrow>
           let addr = set_port (e_host E) (ucast (m_port p)) addr in
           rbind (Socket_connect (e_host E) (e_sys E) (createTCP addr) addr (- 1) w) (\<lambda>(ok, s, w).
             Inr (if ok then Some ((HttpConnection_new s True)\<lparr>m_createTime := e_now E w\<rparr>) else None, w)))"

definition getConnection :: "('w, 'p) env \<Rightarrow> conn_pool \<Rightarrow> 'w \<Rightarrow> (conn option \<times> conn_pool \<times> 'w) result" where
  "getConnection E p w =
     rbind (pick_conn p (e_now E w) (m_conns p) []) (\<lambda>(ptr, invalid, rest).
       let w = fold (delete_conn (e_sys E)) invalid w;
           p = p\<lparr>m_conns := rest, m_total := m_total p - of_nat (length invalid)\<rparr> in
       case ptr of
         Some c \<Rightarrow> Inr (Some c, p, w)
       | None \<Rightarrow>
           rbind (create_conn E p w) (\<lambda>(c, w).
             Inr (c, if c = None then p else p\<lparr>m_total := m_total p + 1\<rparr>, w)))"

definition releasePtr :: "('w, 'p) env \<Rightarrow> conn \<Rightarrow> conn_pool \<Rightarrow> 'w \<Rightarrow> (conn_pool \<times> 'w) result" where
  "releasePtr E c p w =
     (let c = c\<lparr>m_request := m_request c + 1\<rparr> in
      rbind (stream_isConnected (c_stream c)) (\<lambda>ok.
        if \<not> ok \<or> too_old p (e_now E w) c \<or> m_request c > ucast (m_maxRequest p)
        then Inr (p\<lparr>m_total := m_total p - 1\<rparr>, delete_conn (e_sys E) c w)
        else Inr (p\<lparr>m_conns := m_conns p @ [c]\<rparr>, w)))"

text \<open>
  \<open>HttpConnection::ptr\<close> gives the connection back when the function returns: \<open>releasePtr\<close> comes last.
\<close>

definition pool_doRequest_req ::
  "('w, 'p) env \<Rightarrow> conn_pool \<Rightarrow> http_request \<Rightarrow> u64 \<Rightarrow> 'w \<Rightarrow> (http_result \<times> conn_pool \<times> 'w) result option" where
  "pool_doRequest_req E p req timeout_ms w =
     obind (lift_result (getConnection E p w)) (\<lambda>(c, p, w).
       case c of
         None \<Rightarrow>
           Some (Inr (HttpResult_new POOL_GET_CONN_FAILED None
             (''Pool host: '' @ m_host p @ '' port: '' @ digits (unat (m_port p))), p, w))
       | Some c \<Rightarrow>
           (case m_socket (c_stream c) of
              None \<Rightarrow>
                obind (lift_result (releasePtr E c p w)) (\<lambda>(p, w).
                  Some (Inr (HttpResult_new POOL_INVALID_CONN None
                    (''Pool host: '' @ m_host p @ '' port: '' @ digits (unat (m_port p))), p, w)))
            | Some s \<Rightarrow>
                let w = setRecvTimeout (e_sys E) s timeout_ms w in
                obind (talk E (remote_text E) (c_stream c) req timeout_ms w) (\<lambda>(r, st, w).
                obind (lift_result (releasePtr E (c\<lparr>c_stream := st\<rparr>) p w)) (\<lambda>(p, w). Some (Inr (r, p, w))))))"

definition pool_doRequest ::
  "('w, 'p) env \<Rightarrow> conn_pool \<Rightarrow> http_method \<Rightarrow> string \<Rightarrow> u64 \<Rightarrow> (string \<times> string) list \<Rightarrow> string \<Rightarrow> 'w
   \<Rightarrow> (http_result \<times> conn_pool \<times> 'w) result option" where
  "pool_doRequest E p meth url timeout_ms headers body w =
     (let req = (HttpRequest_new 0x11 True)\<lparr>q_method := meth, q_path := url, q_close := False\<rparr>;
          (req, has_host) = add_headers headers req False;
          req = (if \<not> has_host then setHeader req ''Host'' (if m_vhost p = [] then m_host p else m_vhost p) else req)
      in pool_doRequest_req E p (req\<lparr>q_body := body\<rparr>) timeout_ms w)"

definition uri_text :: "uri \<Rightarrow> string" where
  "uri_text u =
     Uri_getPath u @ (if u_query u = [] then [] else ''?'') @ u_query u
     @ (if u_fragment u = [] then [] else ''#'') @ u_fragment u"

definition pool_doRequest_uri ::
  "('w, 'p) env \<Rightarrow> conn_pool \<Rightarrow> http_method \<Rightarrow> uri \<Rightarrow> u64 \<Rightarrow> (string \<times> string) list \<Rightarrow> string \<Rightarrow> 'w
   \<Rightarrow> (http_result \<times> conn_pool \<times> 'w) result option" where
  "pool_doRequest_uri E p meth u timeout_ms headers body w = pool_doRequest E p meth (uri_text u) timeout_ms headers body w"

definition pool_doGet ::
  "('w, 'p) env \<Rightarrow> conn_pool \<Rightarrow> string \<Rightarrow> u64 \<Rightarrow> (string \<times> string) list \<Rightarrow> string \<Rightarrow> 'w
   \<Rightarrow> (http_result \<times> conn_pool \<times> 'w) result option" where
  "pool_doGet E p url timeout_ms headers body w = pool_doRequest E p GET url timeout_ms headers body w"

definition pool_doGet_uri ::
  "('w, 'p) env \<Rightarrow> conn_pool \<Rightarrow> uri \<Rightarrow> u64 \<Rightarrow> (string \<times> string) list \<Rightarrow> string \<Rightarrow> 'w
   \<Rightarrow> (http_result \<times> conn_pool \<times> 'w) result option" where
  "pool_doGet_uri E p u timeout_ms headers body w = pool_doGet E p (uri_text u) timeout_ms headers body w"

definition pool_doPost ::
  "('w, 'p) env \<Rightarrow> conn_pool \<Rightarrow> string \<Rightarrow> u64 \<Rightarrow> (string \<times> string) list \<Rightarrow> string \<Rightarrow> 'w
   \<Rightarrow> (http_result \<times> conn_pool \<times> 'w) result option" where
  "pool_doPost E p url timeout_ms headers body w = pool_doRequest E p POST url timeout_ms headers body w"

definition pool_doPost_uri ::
  "('w, 'p) env \<Rightarrow> conn_pool \<Rightarrow> uri \<Rightarrow> u64 \<Rightarrow> (string \<times> string) list \<Rightarrow> string \<Rightarrow> 'w
   \<Rightarrow> (http_result \<times> conn_pool \<times> 'w) result option" where
  "pool_doPost_uri E p u timeout_ms headers body w = pool_doPost E p (uri_text u) timeout_ms headers body w"

section \<open>Chunks\<close>

lemma chunk_left_exact:
  assumes "live st" "0 < bsz"
  shows "n \<le> length src \<Longrightarrow>
    chunk_left (peer_sys ch) st bsz (int n) body (src, out) = Some (Inr (Some (body @ take n src), st, (drop n src, out)))"
proof (induction n arbitrary: body src rule: less_induct)
  case (less n)
  show ?case
  proof (cases "n = 0")
    case True
    then show ?thesis by (subst chunk_left.simps) simp
  next
    case False
    define want where "want = nat (if int n > int bsz then int bsz else int n)"
    define m where "m = min (chunk ch (length src) want) (length src)"
    have m: "0 < m" "m \<le> n" "m \<le> length src"
      using False less.prems assms(2) by (auto simp: m_def want_def chunk_def)
    have "stream_read (peer_sys ch) st want (src, out) = Inr (int m, take m src, (drop m src, out))"
      by (simp add: stream_read_peer [OF assms(1)] peer_recv_def Let_def m_def)
    then have "chunk_left (peer_sys ch) st bsz (int n) body (src, out) =
        chunk_left (peer_sys ch) st bsz (int (n - m)) (body @ take m src) (drop m src, out)"
      using False m by (subst chunk_left.simps) (auto simp: want_def split: if_splits)
    also have "\<dots> = Some (Inr (Some ((body @ take m src) @ take (n - m) (drop m src)), st, (drop (n - m) (drop m src), out)))"
      using m less.prems by (intro less.IH) simp_all
    also have "\<dots> = Some (Inr (Some (body @ take n src), st, (drop n src, out)))"
      using m(2) take_add [of m "n - m" src] by simp
    finally show ?thesis .
  qed
qed

text \<open>Chunks: what a sender writes for a list of pieces, and the machine that reads a head.\<close>

definition crlf :: string where "crlf = [CHR 0x0D, CHR 0x0A]"

definition chunk_text :: "byte list \<Rightarrow> byte list" where
  "chunk_text d = to_bytes (hex_digits (length d) @ crlf) @ d @ to_bytes crlf"

definition chunked_text :: "byte list list \<Rightarrow> byte list" where
  "chunked_text ds = concat (map chunk_text ds) @ chunk_text []"

definition reads_chunk_heads :: "('w, 'p) env \<Rightarrow> bool" where
  "reads_chunk_heads E \<longleftrightarrow> (\<forall>n rest. n < 2 ^ 31 \<longrightarrow>
     (\<exists>evs m. mc_execute (e_machine E) (mc_init (e_machine E)) (hex_digits n @ crlf @ rest) = (length (hex_digits n @ crlf), evs, m)
       \<and> (\<forall>e \<in> set evs. e = Rv_last_chunk \<or> e = Rv_header_done \<or> (\<exists>t. e = Rv_chunk_size t))
       \<and> mc_finished (e_machine E) m \<and> \<not> mc_error (e_machine E) m
       \<and> ci_content_len (e_chunks E) m = int n \<and> (ci_chunks_done (e_chunks E) m \<longleftrightarrow> n = 0)))"

lemma fold_chunk_events:
  "\<forall>e \<in> set evs. e = Rv_last_chunk \<or> e = Rv_header_done \<or> (\<exists>t. e = Rv_chunk_size t) \<Longrightarrow>
     fold response_callback evs p = p"
  by (induction evs arbitrary: p)
    (auto simp: on_response_last_chunk_def on_response_header_done_def on_response_chunk_size_def)

lemma chunk_head_whole:
  assumes "reads_chunk_heads E" "n < 2 ^ 31" "data = to_bytes (hex_digits n @ crlf) @ rest" "length data < bsz" "r_error p = 0"
  shows "\<exists>m. chunk_head E st bsz True p data w = Some (Inr (Some (p\<lparr>r_parser := m\<rparr>, rest), st, w))
    \<and> ci_content_len (e_chunks E) m = int n \<and> (ci_chunks_done (e_chunks E) m \<longleftrightarrow> n = 0)"
proof -
  obtain evs m where m: "mc_execute (e_machine E) (mc_init (e_machine E)) (hex_digits n @ crlf @ to_string rest) = (length (hex_digits n @ crlf), evs, m)"
      "\<forall>e \<in> set evs. e = Rv_last_chunk \<or> e = Rv_header_done \<or> (\<exists>t. e = Rv_chunk_size t)"
      "mc_finished (e_machine E) m" "\<not> mc_error (e_machine E) m"
      "ci_content_len (e_chunks E) m = int n" "ci_chunks_done (e_chunks E) m \<longleftrightarrow> n = 0"
    using assms(1,2) unfolding reads_chunk_heads_def by blast
  have "response_execute (e_machine E) p (to_string data) True = (length (hex_digits n @ crlf), p\<lparr>r_parser := m\<rparr>, to_string rest)"
    using m(1) fold_chunk_events [OF m(2), of p] by (simp add: response_execute_def assms(3))
  moreover have "length data \<noteq> 0" "length rest \<noteq> bsz" using assms(3,4) by (auto simp: crlf_def)
  ultimately have "chunk_head E st bsz True p data w = Some (Inr (Some (p\<lparr>r_parser := m\<rparr>, rest), st, w))"
    using assms(4,5) m(3,4) by (subst chunk_head.simps) (simp add: response_hasError_def response_isFinished_def)
  with m(5,6) show ?thesis by blast
qed

lemma chunks_loop_buffered:
  assumes "reads_chunk_heads E"
  shows "list_all (\<lambda>d. d \<noteq> [] \<and> length d + 2 < 2 ^ 31) ds \<Longrightarrow> length (chunked_text ds @ rest) < bsz \<Longrightarrow> r_error p = 0 \<Longrightarrow>
    \<exists>m. chunks_loop E st bsz p (chunked_text ds @ rest) body w = Some (Inr (Some (p\<lparr>r_parser := m\<rparr>, body @ concat ds), st, w))"
proof (induction ds arbitrary: p body)
  case Nil
  obtain m where "chunk_head E st bsz True p (chunked_text [] @ rest) w = Some (Inr (Some (p\<lparr>r_parser := m\<rparr>, to_bytes crlf @ rest), st, w))"
      "ci_content_len (e_chunks E) m = int 0" "ci_chunks_done (e_chunks E) m"
    using chunk_head_whole [OF assms, of 0 "chunked_text [] @ rest" "to_bytes crlf @ rest" bsz p st w] Nil.prems
    by (auto simp: chunked_text_def chunk_text_def)
  then have "chunks_loop E st bsz p (chunked_text [] @ rest) body w = Some (Inr (Some (p\<lparr>r_parser := m\<rparr>, body @ concat []), st, w))"
    by (subst chunks_loop.simps) (simp add: chunk_data_def crlf_def)
  then show ?case by blast
next
  case (Cons d ds)
  let ?rest = "d @ to_bytes crlf @ chunked_text ds @ rest"
  have eq: "chunked_text (d # ds) @ rest = to_bytes (hex_digits (length d) @ crlf) @ ?rest" by (simp add: chunked_text_def chunk_text_def)
  obtain m where m: "chunk_head E st bsz True p (chunked_text (d # ds) @ rest) w = Some (Inr (Some (p\<lparr>r_parser := m\<rparr>, ?rest), st, w))"
      "ci_content_len (e_chunks E) m = int (length d)" "\<not> ci_chunks_done (e_chunks E) m"
    using chunk_head_whole [OF assms _ eq, of bsz p st w] Cons.prems by auto
  have "chunk_data (e_sys E) st bsz (int (length d)) body ?rest w = Some (Inr (Some (body @ d, chunked_text ds @ rest), st, w))"
    using Cons.prems(1) by (simp add: chunk_data_def crlf_def)
  with m have step: "chunks_loop E st bsz p (chunked_text (d # ds) @ rest) body w =
      chunks_loop E st bsz (p\<lparr>r_parser := m\<rparr>) (chunked_text ds @ rest) (body @ d) w"
    by (subst chunks_loop.simps) simp
  have "length (chunked_text ds @ rest) < bsz" using Cons.prems(2) unfolding eq by simp
  from Cons.IH [OF _ this, of "p\<lparr>r_parser := m\<rparr>" "body @ d"] Cons.prems show ?case unfolding step by auto
qed

definition hex_value :: "char \<Rightarrow> nat" where
  "hex_value c = (if (of_char c :: nat) < 58 then of_char c - 48 else of_char c - 87)"

definition hex_read :: "string \<Rightarrow> nat" where
  "hex_read s = foldl (\<lambda>n c. 16 * n + hex_value c) 0 s"

lemma hex_value_digit: "d < 16 \<Longrightarrow> hex_value (Strings.hex_digit d) = d"
  by (simp add: hex_value_def Strings.hex_digit_def)

lemma hex_read_digits: "hex_read (hex_digits n) = n"
proof (induction n rule: hex_digits.induct)
  case (1 n)
  show ?case
  proof (cases "n < 16")
    case True
    then show ?thesis by (subst hex_digits.simps) (simp add: hex_read_def hex_value_digit)
  next
    case False
    then have "hex_read (hex_digits n) = 16 * hex_read (hex_digits (n div 16)) + hex_value (Strings.hex_digit (n mod 16))"
      by (subst hex_digits.simps) (simp add: hex_read_def)
    with 1 [OF False] show ?thesis by (simp add: hex_value_digit)
  qed
qed

lemma hex_no_cr: "CHR 0x0D \<notin> set (hex_digits n)"
proof (induction n rule: hex_digits.induct)
  case (1 n)
  have "Strings.hex_digit d \<noteq> CHR 0x0D" if "d < 16" for d
  proof
    assume "Strings.hex_digit d = CHR 0x0D"
    then have "(of_char (Strings.hex_digit d) :: nat) = 13" by simp
    then show False using that by (simp add: Strings.hex_digit_def split: if_splits)
  qed
  with 1 show ?case by (subst hex_digits.simps) (auto dest!: sym [of "CHR 0x0D"])
qed

lemma takeWhile_hex: "takeWhile (\<lambda>c. c \<noteq> CHR 0x0D) (hex_digits n @ crlf @ rest) = hex_digits n"
  using hex_no_cr [of n] by (subst takeWhile_append2) (auto simp: crlf_def)

definition head_machine :: "(nat option, response_event) machine" where
  "head_machine = \<lparr>mc_init = None,
     mc_execute = (\<lambda>_ s. let h = takeWhile (\<lambda>c. c \<noteq> CHR 0x0D) s in (length h + 2, [Rv_chunk_size h], Some (hex_read h))),
     mc_finished = (\<lambda>m. m \<noteq> None), mc_error = (\<lambda>_. False)\<rparr>"

definition demo_env :: "(peer, nat option) env" where
  "demo_env = \<lparr>e_host = WINDGENT_LITTLE_ENDIAN, e_sys = peer_sys (\<lambda>_. 0), e_gai = (\<lambda>_ _ _. Some [getAddr WINDGENT_LITTLE_ENDIAN (IPv4Address (IPv4Address_new WINDGENT_LITTLE_ENDIAN 0x7F000001 80))]), e_machine = head_machine,
     e_chunks = \<lparr>ci_chunked = (\<lambda>_. True), ci_content_len = (\<lambda>m. int (the m)), ci_chunks_done = (\<lambda>m. m = Some 0)\<rparr>,
     e_cast = (\<lambda>_. None), e_limit = 100, e_sizes = RequestSizeIniter, e_uri = (\<lambda>_. None), e_strerror = (\<lambda>_. []), e_now = (\<lambda>_. 0)\<rparr>"

lemma demo_reads: "reads_chunk_heads demo_env"
proof -
  have "mc_execute head_machine None (hex_digits n @ crlf @ rest) = (length (hex_digits n @ crlf), [Rv_chunk_size (hex_digits n)], Some n)"
    for n rest by (simp add: head_machine_def takeWhile_hex hex_read_digits Let_def) (simp add: crlf_def)
  moreover have "mc_init head_machine = None" "mc_finished head_machine (Some n)" "\<not> mc_error head_machine (Some n)" for n
    by (simp_all add: head_machine_def)
  ultimately show ?thesis by (simp add: reads_chunk_heads_def demo_env_def)
qed

lemma sendRequest_values:
  assumes "sendRequest k st req w = Some (Inr (ret, w'))" "length (request_dump req) < 2 ^ 31"
  shows "sint ret = 0 \<or> sint ret = int (length (request_dump req))"
proof -
  have "ret = 0 \<or> ret = of_nat (length (request_dump req))"
    using fixed_result_values [OF assms(1) [unfolded sendRequest_def Let_def writeFixedSize_def]] by simp
  then show ?thesis using assms(2) by (auto simp: signed_of_nat signed_take_bit_int_eq_self)
qed

lemma HttpResult_sel [simp]: "res_result (HttpResult_new a b c) = a" "res_response (HttpResult_new a b c) = b"
  by (simp_all add: HttpResult_new_def)

definition plain_result :: "http_result \<Rightarrow> bool" where
  "plain_result r \<longleftrightarrow> (case res_result r of
     OK \<Rightarrow> res_response r \<noteq> None | CLOSED_BY_PEER \<Rightarrow> res_response r = None | TIMEOUT \<Rightarrow> res_response r = None | _ \<Rightarrow> False)"

lemma plain_result_new:
  "plain_result (HttpResult_new OK (Some p) e)" "plain_result (HttpResult_new CLOSED_BY_PEER None e)"
  "plain_result (HttpResult_new TIMEOUT None e)"
  by (simp_all add: plain_result_def)

lemma await_plain: "await_response E st t w = Some (Inr (r, st', w')) \<Longrightarrow> plain_result r"
  unfolding await_response_def obind_eq_Some
  by (elim exE conjE) (auto simp: rbind_eq_Inr plain_result_new simp del: append.simps split: option.splits)

lemma talk_plain:
  assumes "length (request_dump req) < 2 ^ 31" "talk E shown st req t w = Some (Inr (r, st', w'))"
  shows "plain_result r"
proof -
  from assms(2) obtain ret w1 where s: "sendRequest (e_sys E) st req w = Some (Inr (ret, w1))"
    unfolding talk_def obind_eq_Some by auto
  have n: "\<not> sint ret < 0" using sendRequest_values [OF s assms(1)] by auto
  show ?thesis
  proof (cases "sint ret = 0")
    case True
    with assms(2) show ?thesis
      by (auto simp: talk_def s returns plain_result_new simp del: append.simps)
  next
    case False
    with n assms(2) have "await_response E st t w1 = Some (Inr (r, st', w'))" by (simp add: talk_def s)
    then show ?thesis by (rule await_plain)
  qed
qed

section \<open>Runs of the pool\<close>

text \<open>What threads do with a pool; \<open>lent\<close> are the connections they hold, whose streams they use.\<close>

inductive pool_run :: "('w, 'p) env \<Rightarrow> conn_pool \<Rightarrow> conn list \<Rightarrow> bool" for E where
  run_new: "pool_run E (HttpConnectionPool_new host vhost port maxSize maxAliveTime maxRequest) []"
| run_get: "pool_run E p lent \<Longrightarrow> getConnection E p w = Inr (Some c, p', w') \<Longrightarrow> pool_run E p' (c # lent)"
| run_fail: "pool_run E p lent \<Longrightarrow> getConnection E p w = Inr (None, p', w') \<Longrightarrow> pool_run E p' lent"
| run_release: "pool_run E p (xs @ c # ys) \<Longrightarrow> releasePtr E (c\<lparr>c_stream := st\<rparr>) p w = Inr (p', w') \<Longrightarrow> pool_run E p' (xs @ ys)"

definition idle_ok :: "conn_pool \<Rightarrow> bool" where
  "idle_ok p \<longleftrightarrow> list_all (\<lambda>c. live (c_stream c) \<and> m_request c \<le> ucast (m_maxRequest p)) (m_conns p)"

lemma isConnected_live: "stream_isConnected st = Inr ok \<Longrightarrow> ok = live st"
  by (auto simp: stream_isConnected_def live_def split: option.splits)

lemma live_isConnected: "live st \<Longrightarrow> stream_isConnected st = Inr True"
  by (auto simp: stream_isConnected_def live_def split: option.splits)

lemma pick_conn_live:
  assumes "list_all (\<lambda>c. live (c_stream c)) cs"
  shows "pick_conn p now cs acc =
    (case dropWhile (too_old p now) cs of
       [] \<Rightarrow> Inr (None, acc @ cs, [])
     | c # rest \<Rightarrow> Inr (Some c, acc @ takeWhile (too_old p now) cs, rest))"
  using assms by (induction cs arbitrary: acc) (auto simp: live_isConnected simp del: dropWhile_eq_Nil_conv split: list.splits)

definition fresh_conn :: "conn \<Rightarrow> bool" where
  "fresh_conn c \<longleftrightarrow> live (c_stream c) \<and> m_request c = 0"

lemma create_fresh: "create_conn E p w = Inr (Some c, w') \<Longrightarrow> fresh_conn c"
  unfolding create_conn_def rbind_eq_Inr
  by (elim exE conjE)
    (auto simp: returns Let_def fresh_conn_def live_def HttpConnection_new_def SocketStream_new_def
      split: option.splits if_splits dest!: connect_outcome)

text \<open>Everything \<open>getConnection\<close> does to the pool.\<close>

lemma getConnection_eq:
  assumes "idle_ok p"
  shows "getConnection E p w =
    (let old = takeWhile (too_old p (e_now E w)) (m_conns p); w' = fold (delete_conn (e_sys E)) old w;
         q = (\<lambda>cs n. p\<lparr>m_conns := cs, m_total := m_total p - of_nat (length old) + n\<rparr>) in
     case dropWhile (too_old p (e_now E w)) (m_conns p) of
       c # cs \<Rightarrow> Inr (Some c, q cs 0, w')
     | [] \<Rightarrow> rbind (create_conn E (q [] 0) w') (\<lambda>(c, w). Inr (c, q [] (if c = None then 0 else 1), w)))"
proof -
  have l: "list_all (\<lambda>c. live (c_stream c)) (m_conns p)" using assms by (auto simp: idle_ok_def list_all_iff)
  show ?thesis
  proof (cases "dropWhile (too_old p (e_now E w)) (m_conns p)")
    case (Cons c cs)
    then show ?thesis by (simp add: getConnection_def pick_conn_live [OF l] Let_def)
  next
    case Nil
    then have "takeWhile (too_old p (e_now E w)) (m_conns p) = m_conns p" by (metis append_Nil2 takeWhile_dropWhile_id)
    with Nil show ?thesis
      by (simp add: getConnection_def pick_conn_live [OF l] Let_def if_distrib del: dropWhile_eq_Nil_conv takeWhile_eq_all_conv cong: if_cong)
  qed
qed

lemma getConnection_counts:
  assumes "getConnection E p w = Inr (r, p', w')" "idle_ok p" "m_total p = of_nat (length (m_conns p) + n)"
  shows "idle_ok p' \<and> m_total p' = of_nat (length (m_conns p') + n + (if r = None then 0 else 1))"
proof -
  let ?f = "too_old p (e_now E w)"
  have len: "length (m_conns p) = length (takeWhile ?f (m_conns p)) + length (dropWhile ?f (m_conns p))"
    by (metis length_append takeWhile_dropWhile_id)
  note o = assms(1) [unfolded getConnection_eq [OF assms(2)]]
  show ?thesis
  proof (cases "dropWhile ?f (m_conns p)")
    case Nil
    with o len assms(3) show ?thesis
      by (auto simp: Let_def idle_ok_def returns simp del: dropWhile_eq_Nil_conv)
  next
    case (Cons c cs)
    have "set cs \<subseteq> set (m_conns p)" using Cons by (metis set_dropWhileD list.set_intros(2) subsetI)
    with Cons o len assms(2,3) show ?thesis by (auto simp: Let_def idle_ok_def list_all_iff)
  qed
qed

lemma pool_run_inv:
  "pool_run E p lent \<Longrightarrow> idle_ok p \<and> m_total p = of_nat (length (m_conns p) + length lent)"
proof (induction rule: pool_run.induct)
  case run_new
  then show ?case by (simp add: HttpConnectionPool_new_def idle_ok_def)
next
  case (run_get p lent w c p' w')
  with getConnection_counts [OF run_get.hyps(2)] show ?case by auto
next
  case (run_fail p lent w p' w')
  with getConnection_counts [OF run_fail.hyps(2)] show ?case by auto
next
  case (run_release p xs c ys st w p' w')
  then show ?case
    by (auto simp: releasePtr_def Let_def returns idle_ok_def list_all_iff dest!: isConnected_live split: if_splits)
qed

lemma pick_conn_maxSize: "pick_conn (p\<lparr>m_maxSize := n\<rparr>) now cs acc = pick_conn p now cs acc"
  by (induction cs arbitrary: acc) (simp_all add: too_old_def cong: if_cong)

lemma create_conn_pool:
  "create_conn E (p\<lparr>m_maxSize := n\<rparr>) w = create_conn E p w" "create_conn E (p\<lparr>m_conns := cs\<rparr>) w = create_conn E p w"
  "create_conn E (p\<lparr>m_total := i\<rparr>) w = create_conn E p w"
  by (simp_all add: create_conn_def cong: option.case_cong)

lemma getConnection_maxSize:
  "getConnection E (p\<lparr>m_maxSize := n\<rparr>) w = rbind (getConnection E p w) (\<lambda>(c, p', w'). Inr (c, p'\<lparr>m_maxSize := n\<rparr>, w'))"
  unfolding getConnection_def
  by (simp add: pick_conn_maxSize create_conn_pool rbind_def Let_def split: sum.split option.split)

definition demo_pool :: conn_pool where
  "demo_pool = HttpConnectionPool_new ''127.0.0.1'' [] 80 1 1000 10"

section \<open>Properties\<close>

text \<open>
  \<^bold>\<open>C29\<close>. The pool. After any sequence of \<open>getConnection\<close> and of returned connections, in whatever state their
  streams are, \<open>m_total\<close> counts the idle and the lent connections; every idle connection is connected and
  below its limit of requests. \<open>getConnection\<close> takes the first idle connection that is young enough and
  closes exactly the ones before it; otherwise it gives a new one or none. It does all this whatever
  \<open>m_maxSize\<close> is: the maximal size of the pool bounds nothing.
\<close>

theorem pool_accounting:
  assumes "pool_run E p lent"
  shows "m_total p = of_nat (length (m_conns p) + length lent)
    \<and> list_all (\<lambda>c. live (c_stream c) \<and> m_request c \<le> ucast (m_maxRequest p)) (m_conns p)
    \<and> (case dropWhile (too_old p (e_now E w)) (m_conns p) of
        c # cs \<Rightarrow> getConnection E p w =
          Inr (Some c, p\<lparr>m_conns := cs, m_total := of_nat (Suc (length cs + length lent))\<rparr>,
               fold (delete_conn (e_sys E)) (takeWhile (too_old p (e_now E w)) (m_conns p)) w)
      | [] \<Rightarrow> \<forall>c p' w'. getConnection E p w = Inr (Some c, p', w') \<longrightarrow>
          live (c_stream c) \<and> m_request c = 0 \<and> m_conns p' = [] \<and> m_total p' = of_nat (Suc (length lent)))
    \<and> getConnection E (p\<lparr>m_maxSize := n\<rparr>) w = rbind (getConnection E p w) (\<lambda>(c, p', w'). Inr (c, p'\<lparr>m_maxSize := n\<rparr>, w'))"
proof (intro conjI)
  let ?f = "too_old p (e_now E w)"
  have len: "length (m_conns p) = length (takeWhile ?f (m_conns p)) + length (dropWhile ?f (m_conns p))"
    by (metis length_append takeWhile_dropWhile_id)
  from pool_run_inv [OF assms] have ok: "idle_ok p" and total: "m_total p = of_nat (length (m_conns p) + length lent)" by auto
  show "m_total p = of_nat (length (m_conns p) + length lent)" by fact
  show l: "list_all (\<lambda>c. live (c_stream c) \<and> m_request c \<le> ucast (m_maxRequest p)) (m_conns p)"
    using ok by (simp add: idle_ok_def)
  show "case dropWhile ?f (m_conns p) of
        c # cs \<Rightarrow> getConnection E p w =
          Inr (Some c, p\<lparr>m_conns := cs, m_total := of_nat (Suc (length cs + length lent))\<rparr>, fold (delete_conn (e_sys E)) (takeWhile ?f (m_conns p)) w)
      | [] \<Rightarrow> \<forall>c p' w'. getConnection E p w = Inr (Some c, p', w') \<longrightarrow>
          live (c_stream c) \<and> m_request c = 0 \<and> m_conns p' = [] \<and> m_total p' = of_nat (Suc (length lent))"
  proof (cases "dropWhile ?f (m_conns p)")
    case (Cons c cs)
    with len total show ?thesis by (simp add: getConnection_eq [OF ok] Let_def)
  next
    case Nil
    have "live (c_stream c) \<and> m_request c = 0 \<and> m_conns p' = [] \<and> m_total p' = of_nat (Suc (length lent))"
      if g: "getConnection E p w = Inr (Some c, p', w')" for c p' w'
    proof -
      from g Nil obtain q v v' where "create_conn E q v = Inr (Some c, v')" and e: "m_conns p' = []"
        by (auto simp: getConnection_eq [OF ok] Let_def returns simp del: dropWhile_eq_Nil_conv)
      then have "fresh_conn c" by (blast intro: create_fresh)
      then show ?thesis using getConnection_counts [OF g ok total] e by (simp add: fresh_conn_def)
    qed
    then show ?thesis unfolding Nil list.case by blast
  qed
  show "getConnection E (p\<lparr>m_maxSize := n\<rparr>) w = rbind (getConnection E p w) (\<lambda>(c, p', w'). Inr (c, p'\<lparr>m_maxSize := n\<rparr>, w'))"
    by (rule getConnection_maxSize)
qed

theorem pool_accounting_witness:
  "m_total demo_pool = 0 \<and> getConnection demo_env (demo_pool\<lparr>m_maxSize := 0\<rparr>) ([], []) =
     rbind (getConnection demo_env demo_pool ([], [])) (\<lambda>(c, p', w'). Inr (c, p'\<lparr>m_maxSize := 0\<rparr>, w'))"
proof -
  have "pool_run demo_env demo_pool []" unfolding demo_pool_def by (rule run_new)
  from pool_accounting [OF this, of "([], [])" 0] show ?thesis by (simp add: demo_pool_def HttpConnectionPool_new_def)
qed



text \<open>
  The data of one chunk, wherever it is split between the buffer and the pieces the peer sends: exactly
  \<open>n\<close> bytes are appended to the body, the two bytes of the line end are dropped, and everything behind
  them stays in the buffer or with the peer.
\<close>

lemma chunk_data_exact:
  assumes "live st" "0 < bsz" "n + 2 \<le> length data + length src" "n + 2 < 2 ^ 31"
  shows "chunk_data (peer_sys ch) st bsz (int n) body data (src, out) =
    Some (Inr (Some (body @ take n (data @ src), drop (n + 2) data), st, (drop (n + 2 - length data) src, out)))"
proof (cases "n + 2 \<le> length data")
  case True
  then show ?thesis using assms(4) by (simp add: chunk_data_def nat_add_distrib)
next
  case False
  define k where "k = n + 2 - length data"
  have "chunk_left (peer_sys ch) st bsz (int n - int (length data) + 2) (body @ data) (src, out) =
      Some (Inr (Some ((body @ data) @ take k src), st, (drop k src, out)))"
    using chunk_left_exact [OF assms(1,2), of k src ch "body @ data" out] False assms(3)
    by (simp add: k_def algebra_simps)
  moreover have "length ((body @ data) @ take k src) = length body + (n + 2)"
    using False assms(3) by (simp add: k_def)
  moreover have "take (length body + n) ((body @ data) @ take k src) = body @ take n (data @ src)"
    by (simp add: k_def min_def)
  ultimately show ?thesis using False assms(4)
    by (simp add: chunk_data_def k_def [simplified, symmetric])
qed



end
