(* ===== verification/Log_Format.thy ===== *)
theory Log_Format
  imports Strings
begin

text \<open>
  windgent/log.h and windgent/log.cc, first part: levels, events, and the formatter, whose constructor
  parses a pattern such as \<open>%d{%H:%M}%T[%p] %m%n\<close> into items. The parser walks over indices of the pattern as
  the source does. \<open>localtime_r\<close> and \<open>strftime\<close> are one parameter, the expansion of a format at a time; an
  expansion that does not fit into the 32 bytes of \<open>buf\<close> leaves \<open>buf\<close> indeterminate.
\<close>

section \<open>Levels\<close>

datatype log_level = UNKNOWN | DEBUG | INFO | WARN | ERROR | FATAL

fun level_num :: "log_level \<Rightarrow> nat" where
  "level_num UNKNOWN = 0"
| "level_num DEBUG = 1"
| "level_num INFO = 2"
| "level_num WARN = 3"
| "level_num ERROR = 4"
| "level_num FATAL = 5"

lemma level_num_inject: "level_num a = level_num b \<longleftrightarrow> a = b"
  by (cases a; cases b) simp_all

instantiation log_level :: linorder
begin

definition less_eq_log_level :: "log_level \<Rightarrow> log_level \<Rightarrow> bool" where
  "less_eq_log_level a b \<longleftrightarrow> level_num a \<le> level_num b"

definition less_log_level :: "log_level \<Rightarrow> log_level \<Rightarrow> bool" where
  "less_log_level a b \<longleftrightarrow> level_num a < level_num b"

instance
  by standard (auto simp: less_eq_log_level_def less_log_level_def level_num_inject)

end

fun level_ToString :: "log_level \<Rightarrow> string" where
  "level_ToString DEBUG = ''DEBUG''"
| "level_ToString INFO = ''INFO''"
| "level_ToString WARN = ''WARN''"
| "level_ToString ERROR = ''ERROR''"
| "level_ToString FATAL = ''FATAL''"
| "level_ToString UNKNOWN = ''UNKNOWN''"

definition level_FromString :: "string \<Rightarrow> log_level" where
  "level_FromString str =
     (if str = ''debug'' then DEBUG else if str = ''info'' then INFO else if str = ''warn'' then WARN
      else if str = ''error'' then ERROR else if str = ''fatal'' then FATAL
      else if str = ''DEBUG'' then DEBUG else if str = ''INFO'' then INFO else if str = ''WARN'' then WARN
      else if str = ''ERROR'' then ERROR else if str = ''FATAL'' then FATAL else UNKNOWN)"

section \<open>Events\<close>

text \<open>\<open>le_logger\<close> is the logger object an event was made for, an address in the heap of the loggers.\<close>

record log_event =
  le_file :: string
  le_line :: i32
  le_elapse :: u32
  le_threadId :: u32
  le_fiberId :: u32
  le_time :: u64
  le_ss :: string
  le_threadName :: string
  le_logger :: nat
  le_level :: log_level

definition LogEvent_new ::
  "nat \<Rightarrow> log_level \<Rightarrow> string \<Rightarrow> i32 \<Rightarrow> u32 \<Rightarrow> u32 \<Rightarrow> u32 \<Rightarrow> u64 \<Rightarrow> string \<Rightarrow> log_event" where
  "LogEvent_new logger level file line elapse threadId fiberID time threadName =
     \<lparr>le_file = file, le_line = line, le_elapse = elapse, le_threadId = threadId, le_fiberId = fiberID, le_time = time,
      le_ss = [], le_threadName = threadName, le_logger = logger, le_level = level\<rparr>"

text \<open>\<open>getSS() << s\<close>, and \<open>format\<close> for the text that \<open>vasprintf\<close> made, or \<open>None\<close> when it failed.\<close>

definition event_append :: "log_event \<Rightarrow> string \<Rightarrow> log_event" where
  "event_append e s = e\<lparr>le_ss := le_ss e @ s\<rparr>"

definition event_format :: "log_event \<Rightarrow> string option \<Rightarrow> log_event" where
  "event_format e buf = (case buf of Some s \<Rightarrow> event_append e s | None \<Rightarrow> e)"

section \<open>Items\<close>

datatype format_item =
    MessageFormatItem
  | LevelFormatItem
  | ElapseFormatItem
  | NameFormatItem
  | ThreadIdFormatItem
  | ThreadNameFormatItem
  | FiberIdFormatItem
  | DateTimeFormatItem string
  | FileNameFormatItem
  | LineFormatItem
  | NewLineFormatItem
  | StringFormatItem string
  | TabFormatItem

text \<open>
  \<open>strftime\<close> is the parameter \<open>tmf\<close>; \<open>name\<close> is the name of the logger of the event, \<open>None\<close> when the pointer
  is null.
\<close>

fun item_format :: "(string \<Rightarrow> u64 \<Rightarrow> string) \<Rightarrow> string option \<Rightarrow> log_level \<Rightarrow> log_event \<Rightarrow> format_item \<Rightarrow> string result" where
  "item_format tmf name level e MessageFormatItem = Inr (le_ss e)"
| "item_format tmf name level e LevelFormatItem = Inr (level_ToString level)"
| "item_format tmf name level e ElapseFormatItem = Inr (digits (unat (le_elapse e)))"
| "item_format tmf name level e NameFormatItem = (case name of Some n \<Rightarrow> Inr n | None \<Rightarrow> Inl Null_deref)"
| "item_format tmf name level e ThreadIdFormatItem = Inr (digits (unat (le_threadId e)))"
| "item_format tmf name level e ThreadNameFormatItem = Inr (le_threadName e)"
| "item_format tmf name level e FiberIdFormatItem = Inr (digits (unat (le_fiberId e)))"
| "item_format tmf name level e (DateTimeFormatItem format) =
     (let s = tmf (c_str format) (le_time e) in if length s < 32 then Inr s else Inl Out_of_bounds)"
| "item_format tmf name level e FileNameFormatItem = Inr (le_file e)"
| "item_format tmf name level e LineFormatItem = Inr (int_digits (sint (le_line e)))"
| "item_format tmf name level e NewLineFormatItem = Inr [CHR 0x0A]"
| "item_format tmf name level e (StringFormatItem str) = Inr str"
| "item_format tmf name level e TabFormatItem = Inr [CHR 0x09]"

definition DateTimeFormatItem_new :: "string \<Rightarrow> format_item" where
  "DateTimeFormatItem_new format =
     DateTimeFormatItem (if format = [] then ''%Y-%m-%d %H:%M:%S'' else format)"

text \<open>\<open>s_format_items\<close>: the classes by their letters.\<close>

definition s_format_items :: "(string \<times> (string \<Rightarrow> format_item)) list" where
  "s_format_items =
     [(''m'', \<lambda>_. MessageFormatItem), (''p'', \<lambda>_. LevelFormatItem), (''r'', \<lambda>_. ElapseFormatItem),
      (''c'', \<lambda>_. NameFormatItem), (''t'', \<lambda>_. ThreadIdFormatItem), (''n'', \<lambda>_. NewLineFormatItem),
      (''d'', DateTimeFormatItem_new), (''f'', \<lambda>_. FileNameFormatItem), (''l'', \<lambda>_. LineFormatItem),
      (''T'', \<lambda>_. TabFormatItem), (''F'', \<lambda>_. FiberIdFormatItem), (''N'', \<lambda>_. ThreadNameFormatItem)]"

section \<open>The pattern\<close>

definition isalpha :: "char \<Rightarrow> bool" where
  "isalpha c \<longleftrightarrow> (let n = of_char c :: nat in 65 \<le> n \<and> n \<le> 90 \<or> 97 \<le> n \<and> n \<le> 122)"

definition substr :: "string \<Rightarrow> nat \<Rightarrow> nat \<Rightarrow> string" where
  "substr s pos n = take n (drop pos s)"

text \<open>
  The inner loop: \<open>i\<close> is the index of the percent sign, \<open>n\<close> the index read next, \<open>fmt_status\<close> whether a brace
  is open, \<open>fmt_begin\<close> its index. The result is \<open>str\<close>, \<open>fmt\<close>, the final status and the final \<open>n\<close>.
\<close>

function item_scan :: "string \<Rightarrow> nat \<Rightarrow> nat \<Rightarrow> bool \<Rightarrow> nat \<Rightarrow> string \<Rightarrow> string \<times> string \<times> bool \<times> nat" where
  "item_scan pat i n fmt_status fmt_begin str =
     (if n < length pat then
        if \<not> fmt_status \<and> \<not> isalpha (pat ! n) \<and> pat ! n \<noteq> CHR ''{'' \<and> pat ! n \<noteq> CHR ''}''
        then (substr pat (i + 1) (n - i - 1), [], fmt_status, n)
        else if \<not> fmt_status \<and> pat ! n = CHR ''{'' then item_scan pat i (n + 1) True n (substr pat (i + 1) (n - i - 1))
        else if fmt_status \<and> pat ! n = CHR ''}'' then (str, substr pat (fmt_begin + 1) (n - fmt_begin - 1), False, n + 1)
        else item_scan pat i (n + 1) fmt_status fmt_begin
          (if n + 1 = length pat \<and> str = [] then drop (i + 1) pat else str)
      else (str, [], fmt_status, n))"
  by pat_completeness auto

termination
  by (relation "measure (\<lambda>(pat, i, n, fmt_status, fmt_begin, str). length pat - n)") auto

declare item_scan.simps [simp del]

lemma item_scan_ge: "item_scan pat i n fmt_status fmt_begin str = (s, f, st, m) \<Longrightarrow> n \<le> m"
proof (induction pat i n fmt_status fmt_begin str arbitrary: s f st m rule: item_scan.induct)
  case (1 pat i n fmt_status fmt_begin str)
  note unf [simp] = item_scan.simps [of pat i n fmt_status] item_scan.simps [of pat i n True] item_scan.simps [of pat i n False]
  consider "\<not> n < length pat" | "n < length pat" "\<not> fmt_status" "pat ! n = CHR ''{''" | "n < length pat" "fmt_status" "pat ! n = CHR ''}''"
    | "n < length pat" "\<not> fmt_status" "\<not> isalpha (pat ! n)" "pat ! n \<noteq> CHR ''{''" "pat ! n \<noteq> CHR ''}''"
    | "n < length pat" "\<not> fmt_status" "isalpha (pat ! n) \<or> pat ! n = CHR ''}''" "pat ! n \<noteq> CHR ''{''"
    | "n < length pat" "fmt_status" "pat ! n \<noteq> CHR ''}''"
    by blast
  then show ?case
  proof cases
    case 2
    then show ?thesis using 1(1) [of s f st m] 1(3) by simp
  next
    case 5
    then show ?thesis using 1(2) [of s f st m] 1(3) by auto
  next
    case 6
    then show ?thesis using 1(2) [of s f st m] 1(3) by simp
  qed (use 1(3) in auto)
qed

text \<open>
  The outer loop: \<open>nstr\<close> is the literal text collected, \<open>vec\<close> the entries, with \<open>True\<close> for the type 1 of the
  source. The second percent sign of \<open>%%\<close> is looked at again.
\<close>

function pattern_scan ::
  "string \<Rightarrow> nat \<Rightarrow> string \<Rightarrow> (string \<times> string \<times> bool) list \<Rightarrow> bool \<Rightarrow> (string \<times> string \<times> bool) list \<times> string \<times> bool" where
  "pattern_scan pat i nstr vec err =
     (if i < length pat then
        if pat ! i \<noteq> CHR ''%'' then pattern_scan pat (i + 1) (nstr @ [pat ! i]) vec err
        else if i + 1 < length pat \<and> pat ! (i + 1) = CHR ''%'' then pattern_scan pat (i + 1) (nstr @ ''%'') vec err
        else
          (case item_scan pat i (i + 1) False 0 [] of
             (str, fmt, fmt_status, n) \<Rightarrow>
               if \<not> fmt_status
               then pattern_scan pat n [] (vec @ (if nstr \<noteq> [] then [(nstr, [], False)] else []) @ [(str, fmt, True)]) err
               else pattern_scan pat (i + 1) nstr (vec @ [(''pattern_error'', fmt, False)]) True)
      else (vec, nstr, err))"
  by pat_completeness auto

termination
  by (relation "measure (\<lambda>(pat, i, nstr, vec, err). length pat - i)") (auto dest!: item_scan_ge [OF sym])

declare pattern_scan.simps [simp del]

record formatter =
  f_pattern :: string
  f_items :: "format_item list"
  f_error :: bool

text \<open>The items of the entries, and whether one is unknown.\<close>

fun make_item :: "string \<times> string \<times> bool \<Rightarrow> format_item \<times> bool" where
  "make_item (str, fmt, type) =
     (if \<not> type then (StringFormatItem str, False)
      else case map_of s_format_items str of
        None \<Rightarrow> (StringFormatItem (''<<error_format %'' @ str @ ''>>''), True)
      | Some C \<Rightarrow> (C fmt, False))"

definition LogFormatter_new :: "string \<Rightarrow> formatter" where
  "LogFormatter_new pat =
     (let (vec, nstr, err) = pattern_scan pat 0 [] [] False;
          vec = (if nstr \<noteq> [] then vec @ [(nstr, [], False)] else vec);
          items = map make_item vec in
      \<lparr>f_pattern = pat, f_items = map fst items, f_error = (err \<or> list_ex snd items)\<rparr>)"

text \<open>\<open>LogFormatter::format\<close>.\<close>

fun format_items :: "(string \<Rightarrow> u64 \<Rightarrow> string) \<Rightarrow> string option \<Rightarrow> log_level \<Rightarrow> log_event \<Rightarrow> format_item list \<Rightarrow> string result" where
  "format_items tmf name level e [] = Inr []"
| "format_items tmf name level e (i # is) =
     rbind (item_format tmf name level e i) (\<lambda>s. rbind (format_items tmf name level e is) (\<lambda>t. Inr (s @ t)))"

section \<open>Printed patterns\<close>

datatype pat_elem = Lit string | Item char "string option"

fun show_elem :: "pat_elem \<Rightarrow> string" where
  "show_elem (Lit s) = s"
| "show_elem (Item k None) = [CHR ''%'', k]"
| "show_elem (Item k (Some f)) = CHR ''%'' # k # CHR ''{'' # f @ ''}''"

text \<open>What may follow an item without braces: not a letter and not a brace.\<close>

definition ends_item :: "string \<Rightarrow> bool" where
  "ends_item s \<longleftrightarrow> (case s of [] \<Rightarrow> True | c # _ \<Rightarrow> \<not> isalpha c \<and> c \<noteq> CHR ''{'' \<and> c \<noteq> CHR ''}'')"

fun good_pattern :: "pat_elem list \<Rightarrow> bool" where
  "good_pattern [] = True"
| "good_pattern (Lit s # es) =
     (s \<noteq> [] \<and> CHR ''%'' \<notin> set s \<and> (case es of Lit _ # _ \<Rightarrow> False | _ \<Rightarrow> True) \<and> good_pattern es)"
| "good_pattern (Item k f # es) =
     (map_of s_format_items [k] \<noteq> None
      \<and> (case f of None \<Rightarrow> ends_item (concat (map show_elem es)) | Some s \<Rightarrow> CHR ''}'' \<notin> set s) \<and> good_pattern es)"

fun entry :: "pat_elem \<Rightarrow> string \<times> string \<times> bool" where
  "entry (Lit s) = (s, [], False)"
| "entry (Item k f) = ([k], case f of None \<Rightarrow> [] | Some s \<Rightarrow> s, True)"

definition finish :: "(string \<times> string \<times> bool) list \<times> string \<times> bool \<Rightarrow> (string \<times> string \<times> bool) list \<times> bool" where
  "finish r = (case r of (vec, nstr, err) \<Rightarrow> (vec @ (if nstr \<noteq> [] then [(nstr, [], False)] else []), err))"

lemma level_roundtrip: "level_FromString (level_ToString l) = l"
  by (cases l) (simp_all add: level_FromString_def)

lemma letters: "map_of s_format_items [k] \<noteq> None \<Longrightarrow> isalpha k"
  by (auto simp: s_format_items_def isalpha_def split: if_splits)

lemma scan_brace:
  assumes "CHR ''}'' \<notin> set f" "str \<noteq> []"
  shows "pat = pre @ f @ CHR ''}'' # rest \<Longrightarrow>
    item_scan pat i (length pre) True b str = (str, substr pat (b + 1) (length pre + length f - b - 1), False, length pre + length f + 1)"
  using assms
proof (induction f arbitrary: pre)
  case Nil
  then show ?case by (subst item_scan.simps) simp
next
  case (Cons c f)
  then have "item_scan pat i (length pre) True b str = item_scan pat i (length pre + 1) True b str"
    by (subst item_scan.simps) auto
  with Cons.IH [of "pre @ [c]"] Cons.prems show ?case by simp
qed

lemma scan_item:
  assumes "isalpha k" "pat = pre @ CHR ''%'' # k # rest"
  shows "ends_item rest \<Longrightarrow> item_scan pat (length pre) (length pre + 1) False 0 [] = ([k], [], False, length pre + 2)"
    and "rest = CHR ''{'' # f @ CHR ''}'' # r \<Longrightarrow> CHR ''}'' \<notin> set f \<Longrightarrow>
      item_scan pat (length pre) (length pre + 1) False 0 [] = ([k], f, False, length pre + length f + 4)"
proof -
  have k: "k \<noteq> CHR ''{''" "k \<noteq> CHR ''}''" using assms(1) by (auto simp: isalpha_def)
  have nk: "pat ! Suc (length pre) = k" "length pat = length pre + 2 + length rest" by (simp_all add: assms(2) nth_append)
  have step: "item_scan pat (length pre) (length pre + 1) False 0 [] =
    item_scan pat (length pre) (length pre + 2) False 0 (if rest = [] then [k] else [])"
    using assms k nk by (subst item_scan.simps) (auto simp: numeral_2_eq_2)
  show "item_scan pat (length pre) (length pre + 1) False 0 [] = ([k], [], False, length pre + 2)" if "ends_item rest"
  proof (cases rest)
    case Nil
    then show ?thesis unfolding step using nk by (subst item_scan.simps) simp
  next
    case (Cons c r)
    have "pat ! (length pre + 2) = c" by (simp add: assms(2) Cons nth_append)
    with that Cons nk show ?thesis unfolding step
      by (subst item_scan.simps) (simp add: ends_item_def substr_def assms(2))
  qed
  assume r: "rest = CHR ''{'' # f @ CHR ''}'' # r" and f: "CHR ''}'' \<notin> set f"
  have c: "pat ! (length pre + 2) = CHR ''{''" by (simp add: assms(2) r nth_append)
  have "item_scan pat (length pre) (length pre + 2) False 0 [] = item_scan pat (length pre) (length pre + 3) True (length pre + 2) [k]"
    using c nk r by (subst item_scan.simps) (simp add: substr_def assms(2) numeral_3_eq_3)
  also have "\<dots> = ([k], f, False, length pre + length f + 4)"
    using scan_brace [OF f, of "[k]" pat "pre @ [CHR ''%'', k, CHR ''{'']" r "length pre" "length pre + 2"]
    by (simp add: assms(2) r substr_def eval_nat_numeral)
  finally show "item_scan pat (length pre) (length pre + 1) False 0 [] = ([k], f, False, length pre + length f + 4)"
    unfolding step by (simp add: r)
qed

lemma scan_literal:
  assumes "CHR ''%'' \<notin> set s"
  shows "pat = pre @ s @ rest \<Longrightarrow>
    pattern_scan pat (length pre) nstr vec err = pattern_scan pat (length pre + length s) (nstr @ s) vec err"
  using assms
proof (induction s arbitrary: pre nstr)
  case (Cons c s)
  then have "pat ! length pre = c" "c \<noteq> CHR ''%''" "length pre < length pat" by auto
  then have "pattern_scan pat (length pre) nstr vec err = pattern_scan pat (length pre + 1) (nstr @ [c]) vec err"
    by (subst pattern_scan.simps) simp
  with Cons.IH [of "pre @ [c]" "nstr @ [c]"] Cons.prems show ?case by simp
qed simp

lemma scan_pattern:
  "good_pattern es \<Longrightarrow> nstr = [] \<or> (case es of Lit _ # _ \<Rightarrow> False | _ \<Rightarrow> True) \<Longrightarrow> pat = pre @ concat (map show_elem es) \<Longrightarrow>
   finish (pattern_scan pat (length pre) nstr vec err) = (fst (finish (vec, nstr, err)) @ map entry es, err)"
proof (induction es arbitrary: pre nstr vec)
  case Nil
  then show ?case by (subst pattern_scan.simps) (simp add: finish_def)
next
  case (Cons e es)
  show ?case
  proof (cases e)
    case (Lit s)
    have "pattern_scan pat (length pre) [] vec err = pattern_scan pat (length (pre @ s)) s vec err"
      using scan_literal [of s pat pre "concat (map show_elem es)" "[]" vec err] Cons.prems Lit by simp
    with Cons.IH [of s "pre @ s" vec] Cons.prems Lit show ?thesis by (auto simp: finish_def split: list.splits)
  next
    case (Item k f)
    define m where "m = length (show_elem e)"
    have k: "isalpha k" using Cons.prems(1) Item letters by simp
    have "item_scan pat (length pre) (length pre + 1) False 0 [] = ([k], case f of None \<Rightarrow> [] | Some s \<Rightarrow> s, False, length pre + m)"
    proof (cases f)
      case None
      then show ?thesis
        using scan_item(1) [OF k, of pat pre "concat (map show_elem es)"] Cons.prems Item by (simp add: m_def)
    next
      case (Some s)
      then show ?thesis
        using scan_item(2) [OF k, of pat pre _ s "concat (map show_elem es)"] Cons.prems Item by (simp add: m_def)
    qed
    moreover have "pat ! length pre = CHR ''%''" "length pre < length pat"
      using Cons.prems(3) Item by (cases f; simp add: nth_append)+
    moreover have "pat ! Suc (length pre) \<noteq> CHR ''%''"
      using Cons.prems(3) Item k by (cases f) (auto simp: nth_append isalpha_def)
    ultimately have "pattern_scan pat (length pre) nstr vec err =
      pattern_scan pat (length (pre @ show_elem e)) [] (vec @ (if nstr \<noteq> [] then [(nstr, [], False)] else []) @ [entry e]) err"
      by (subst pattern_scan.simps) (simp add: Item m_def)
    with Cons.IH [of "[]" "pre @ show_elem e"] Cons.prems Item show ?thesis by (simp add: finish_def)
  qed
qed


fun item_of :: "pat_elem \<Rightarrow> format_item" where
  "item_of (Lit s) = StringFormatItem s"
| "item_of (Item k f) = the (map_of s_format_items [k]) (case f of None \<Rightarrow> [] | Some s \<Rightarrow> s)"

lemma make_entry: "good_pattern es \<Longrightarrow> map make_item (map entry es) = map (\<lambda>e. (item_of e, False)) es"
  by (induction es rule: good_pattern.induct) (auto simp: comp_def)

lemma LogFormatter_finish:
  "LogFormatter_new pat = (case finish (pattern_scan pat 0 [] [] False) of (vec, err) \<Rightarrow>
     \<lparr>f_pattern = pat, f_items = map (fst \<circ> make_item) vec, f_error = (err \<or> list_ex (snd \<circ> make_item) vec)\<rparr>)"
  by (auto simp: LogFormatter_new_def finish_def Let_def list_ex_iff split: prod.split)

section \<open>Properties\<close>

text \<open>
  \<^bold>\<open>C19\<close>. The pattern parser inverts printing: the text of any sequence of literals and items of the table,
  with or without a format in braces, is parsed into exactly these items, without an error, as long as
  what follows an item without braces is no letter or brace. The documented escape for a percent sign is
  no escape: the second sign is looked at again, so that a pattern that ends in it is an error.
\<close>

theorem pattern_roundtrip:
  assumes "good_pattern es" "CHR ''%'' \<notin> set s"
  shows "LogFormatter_new (concat (map show_elem es)) =
      \<lparr>f_pattern = concat (map show_elem es), f_items = map item_of es, f_error = False\<rparr>
    \<and> LogFormatter_new (s @ ''%%'') =
      \<lparr>f_pattern = s @ ''%%'', f_items = [StringFormatItem (s @ ''%''), StringFormatItem ''<<error_format %>>''], f_error = True\<rparr>"
proof
  let ?pat = "concat (map show_elem es)"
  have "finish (pattern_scan ?pat 0 [] [] False) = (map entry es, False)"
    using scan_pattern [OF assms(1), of "[]" ?pat "[]" "[]" False] by (simp add: finish_def)
  then show "LogFormatter_new ?pat = \<lparr>f_pattern = ?pat, f_items = map item_of es, f_error = False\<rparr>"
    using make_entry [OF assms(1)] by (auto simp: LogFormatter_finish list_ex_iff)
next
  let ?pat = "s @ ''%%''"
  have "pattern_scan ?pat (length s) s [] False = pattern_scan ?pat (Suc (length s)) (s @ ''%'') [] False"
    by (subst pattern_scan.simps) (simp add: nth_append)
  also have "\<dots> = pattern_scan ?pat (Suc (Suc (length s))) [] [(s @ ''%'', [], False), ([], [], True)] False"
    by (subst pattern_scan.simps) (simp add: nth_append item_scan.simps [of ?pat "Suc (length s)" "Suc (Suc (length s))"])
  also have "\<dots> = ([(s @ ''%'', [], False), ([], [], True)], [], False)" by (subst pattern_scan.simps) simp
  finally have "pattern_scan ?pat 0 [] [] False = ([(s @ ''%'', [], False), ([], [], True)], [], False)"
    using scan_literal [OF assms(2), of ?pat "[]" "''%%''" "[]" "[]" False] by simp
  then show "LogFormatter_new ?pat =
      \<lparr>f_pattern = ?pat, f_items = [StringFormatItem (s @ ''%''), StringFormatItem ''<<error_format %>>''], f_error = True\<rparr>"
    by (simp add: LogFormatter_finish finish_def s_format_items_def)
qed

text \<open>The pattern that \<open>Logger::Logger\<close> uses.\<close>

definition default_pattern :: "pat_elem list" where
  "default_pattern =
     [Item (CHR ''d'') (Some ''%Y-%m-%d %H:%M:%S''), Item (CHR ''T'') None, Item (CHR ''t'') None, Item (CHR ''T'') None,
      Item (CHR ''N'') None, Item (CHR ''T'') None, Item (CHR ''F'') None, Item (CHR ''T'') None, Lit ''['', Item (CHR ''p'') None,
      Lit '']'', Item (CHR ''T'') None, Lit ''['', Item (CHR ''c'') None, Lit '']'', Item (CHR ''T'') None, Item (CHR ''f'') None, Lit '':'',
      Item (CHR ''l'') None, Item (CHR ''T'') None, Item (CHR ''m'') None, Item (CHR ''n'') None]"

theorem pattern_roundtrip_witness:
  "LogFormatter_new ''%d{%Y-%m-%d %H:%M:%S}%T%t%T%N%T%F%T[%p]%T[%c]%T%f:%l%T%m%n'' =
     \<lparr>f_pattern = ''%d{%Y-%m-%d %H:%M:%S}%T%t%T%N%T%F%T[%p]%T[%c]%T%f:%l%T%m%n'', f_items = map item_of default_pattern, f_error = False\<rparr>"
proof -
  have "good_pattern default_pattern" by code_simp
  moreover have "concat (map show_elem default_pattern) = ''%d{%Y-%m-%d %H:%M:%S}%T%t%T%N%T%F%T[%p]%T[%c]%T%f:%l%T%m%n''"
    by (simp add: default_pattern_def)
  ultimately show ?thesis using pattern_roundtrip [of default_pattern "[]"] by simp
qed

end
