(* ===== verification/Logging.thy ===== *)
theory Logging
  imports Log_Format Ordered
begin

text \<open>
  windgent/log.h and windgent/log.cc, second part: appenders, loggers, the manager and the listener that
  rebuilds the loggers when their configuration changes. Loggers and appenders are shared by pointers, so
  they live in a heap. What is written through an open file is kept with its appender. The messages the
  module writes about itself are left out; a lock is always released by the function that takes it, and
  no function here takes a lock it holds.
\<close>

section \<open>State\<close>

datatype appender_kind = StdoutLogAppender | FileLogAppender string "string option"

record appender =
  ap_level :: log_level
  m_hasFormatter :: bool
  ap_formatter :: "formatter option"
  ap_kind :: appender_kind

record logger =
  lg_name :: string
  lg_level :: log_level
  lg_appenders :: "nat list"
  lg_formatter :: "formatter option"
  lg_root :: "nat option"

text \<open>The two heaps, the text on standard output, and the \<open>LoggerManager\<close>.\<close>

record log_state =
  ls_loggers :: "nat \<rightharpoonup> logger"
  ls_appenders :: "nat \<rightharpoonup> appender"
  ls_next :: nat
  ls_stdout :: string
  ls_root :: nat
  ls_table :: "(string \<times> nat) list"

definition get_logger :: "log_state \<Rightarrow> nat \<Rightarrow> logger result" where
  "get_logger S l = (case ls_loggers S l of Some g \<Rightarrow> Inr g | None \<Rightarrow> Inl Null_deref)"

definition get_appender :: "log_state \<Rightarrow> nat \<Rightarrow> appender result" where
  "get_appender S a = (case ls_appenders S a of Some p \<Rightarrow> Inr p | None \<Rightarrow> Inl Null_deref)"

definition put_logger :: "log_state \<Rightarrow> nat \<Rightarrow> logger \<Rightarrow> log_state" where
  "put_logger S l g = S\<lparr>ls_loggers := (ls_loggers S)(l \<mapsto> g)\<rparr>"

definition put_appender :: "log_state \<Rightarrow> nat \<Rightarrow> appender \<Rightarrow> log_state" where
  "put_appender S a p = S\<lparr>ls_appenders := (ls_appenders S)(a \<mapsto> p)\<rparr>"

text \<open>\<open>new\<close>.\<close>

definition alloc_logger :: "log_state \<Rightarrow> logger \<Rightarrow> nat \<times> log_state" where
  "alloc_logger S g = (ls_next S, (put_logger S (ls_next S) g)\<lparr>ls_next := ls_next S + 1\<rparr>)"

definition alloc_appender :: "log_state \<Rightarrow> appender \<Rightarrow> nat \<times> log_state" where
  "alloc_appender S p = (ls_next S, (put_appender S (ls_next S) p)\<lparr>ls_next := ls_next S + 1\<rparr>)"

section \<open>Appenders\<close>

definition LogAppender_new :: "appender_kind \<Rightarrow> appender" where
  "LogAppender_new kind = \<lparr>ap_level = DEBUG, m_hasFormatter = False, ap_formatter = None, ap_kind = kind\<rparr>"

text \<open>\<open>ok\<close>: whether the file can be opened for writing; opening truncates it.\<close>

fun reopen :: "bool \<Rightarrow> appender_kind \<Rightarrow> bool \<times> appender_kind" where
  "reopen ok (FileLogAppender filename (Some t)) = (True, FileLogAppender filename (Some t))"
| "reopen ok (FileLogAppender filename None) = (ok, FileLogAppender filename (if ok then Some [] else None))"
| "reopen ok StdoutLogAppender = (True, StdoutLogAppender)"

definition FileLogAppender_new :: "bool \<Rightarrow> string \<Rightarrow> appender" where
  "FileLogAppender_new ok filename = LogAppender_new (snd (reopen ok (FileLogAppender filename None)))"

definition appender_setFormatter :: "log_state \<Rightarrow> nat \<Rightarrow> formatter option \<Rightarrow> log_state result" where
  "appender_setFormatter S a f =
     rbind (get_appender S a) (\<lambda>p. Inr (put_appender S a (p\<lparr>ap_formatter := f, m_hasFormatter := (f \<noteq> None)\<rparr>)))"

definition appender_setLevel :: "log_state \<Rightarrow> nat \<Rightarrow> log_level \<Rightarrow> log_state result" where
  "appender_setLevel S a level = rbind (get_appender S a) (\<lambda>p. Inr (put_appender S a (p\<lparr>ap_level := level\<rparr>)))"

text \<open>\<open><<\<close> to standard output or to the file; on a stream that is not open it does nothing.\<close>

definition emit :: "log_state \<Rightarrow> nat \<Rightarrow> appender \<Rightarrow> string \<Rightarrow> log_state" where
  "emit S a p s =
     (case ap_kind p of
        StdoutLogAppender \<Rightarrow> S\<lparr>ls_stdout := ls_stdout S @ s\<rparr>
      | FileLogAppender filename t \<Rightarrow> put_appender S a (p\<lparr>ap_kind := FileLogAppender filename (map_option (\<lambda>t. t @ s) t)\<rparr>))"

definition appender_log ::
  "(string \<Rightarrow> u64 \<Rightarrow> string) \<Rightarrow> log_level \<Rightarrow> log_event \<Rightarrow> nat \<Rightarrow> log_state \<Rightarrow> log_state result" where
  "appender_log tmf level e a S =
     rbind (get_appender S a) (\<lambda>p.
       if level \<ge> ap_level p then
         case ap_formatter p of
           None \<Rightarrow> Inl Null_deref
         | Some f \<Rightarrow>
             rbind (format_items tmf (map_option lg_name (ls_loggers S (le_logger e))) level e (f_items f)) (\<lambda>s. Inr (emit S a p s))
       else Inr S)"

section \<open>Loggers\<close>

definition default_format :: string where
  "default_format = ''%d{%Y-%m-%d %H:%M:%S}%T%t%T%N%T%F%T[%p]%T[%c]%T%f:%l%T%m%n''"

definition Logger_new :: "string \<Rightarrow> logger" where
  "Logger_new name =
     \<lparr>lg_name = name, lg_level = DEBUG, lg_appenders = [], lg_formatter = Some (LogFormatter_new default_format), lg_root = None\<rparr>"

definition addAppenders :: "log_state \<Rightarrow> nat \<Rightarrow> nat \<Rightarrow> log_state result" where
  "addAppenders S l a =
     rbind (get_logger S l) (\<lambda>g.
     rbind (get_appender S a) (\<lambda>p.
       let S = (if ap_formatter p = None then put_appender S a (p\<lparr>ap_formatter := lg_formatter g\<rparr>) else S) in
       Inr (put_logger S l (g\<lparr>lg_appenders := lg_appenders g @ [a]\<rparr>))))"

definition delAppenders :: "log_state \<Rightarrow> nat \<Rightarrow> nat \<Rightarrow> log_state result" where
  "delAppenders S l a =
     rbind (get_logger S l) (\<lambda>g. Inr (put_logger S l (g\<lparr>lg_appenders := remove1 a (lg_appenders g)\<rparr>)))"

definition clearAppenders :: "log_state \<Rightarrow> nat \<Rightarrow> log_state result" where
  "clearAppenders S l = rbind (get_logger S l) (\<lambda>g. Inr (put_logger S l (g\<lparr>lg_appenders := []\<rparr>)))"

definition logger_setLevel :: "log_state \<Rightarrow> nat \<Rightarrow> log_level \<Rightarrow> log_state result" where
  "logger_setLevel S l level = rbind (get_logger S l) (\<lambda>g. Inr (put_logger S l (g\<lparr>lg_level := level\<rparr>)))"

fun pass_formatter :: "formatter option \<Rightarrow> nat list \<Rightarrow> log_state \<Rightarrow> log_state result" where
  "pass_formatter f [] S = Inr S"
| "pass_formatter f (a # as) S =
     rbind (get_appender S a) (\<lambda>p.
       pass_formatter f as (if \<not> m_hasFormatter p then put_appender S a (p\<lparr>ap_formatter := f\<rparr>) else S))"

definition setFormatter :: "log_state \<Rightarrow> nat \<Rightarrow> formatter option \<Rightarrow> log_state result" where
  "setFormatter S l f =
     rbind (get_logger S l) (\<lambda>g. pass_formatter f (lg_appenders g) (put_logger S l (g\<lparr>lg_formatter := f\<rparr>)))"

definition setFormatter_str :: "log_state \<Rightarrow> nat \<Rightarrow> string \<Rightarrow> log_state result" where
  "setFormatter_str S l val =
     (let f = LogFormatter_new val in if f_error f then Inr S else setFormatter S l (Some f))"

fun each_appender ::
  "(string \<Rightarrow> u64 \<Rightarrow> string) \<Rightarrow> log_level \<Rightarrow> log_event \<Rightarrow> nat list \<Rightarrow> log_state \<Rightarrow> log_state result" where
  "each_appender tmf level e [] S = Inr S"
| "each_appender tmf level e (a # as) S = rbind (appender_log tmf level e a S) (each_appender tmf level e as)"

text \<open>\<open>m_root->log\<close> is a recursive call: the recursion follows the pointers to the root logger.\<close>

partial_function (option) Logger_log ::
  "(string \<Rightarrow> u64 \<Rightarrow> string) \<Rightarrow> log_state \<Rightarrow> nat \<Rightarrow> log_level \<Rightarrow> log_event \<Rightarrow> log_state result option" where
  "Logger_log tmf S l level e =
     (case get_logger S l of
        Inl x \<Rightarrow> Some (Inl x)
      | Inr g \<Rightarrow>
          if level \<ge> lg_level g then
            if lg_appenders g \<noteq> [] then Some (each_appender tmf level e (lg_appenders g) S)
            else case lg_root g of Some r \<Rightarrow> Logger_log tmf S r level e | None \<Rightarrow> Some (Inr S)
          else Some (Inr S))"

definition Logger_debug where "Logger_debug tmf S l e = Logger_log tmf S l DEBUG e"
definition Logger_info where "Logger_info tmf S l e = Logger_log tmf S l INFO e"
definition Logger_warn where "Logger_warn tmf S l e = Logger_log tmf S l WARN e"
definition Logger_error where "Logger_error tmf S l e = Logger_log tmf S l ERROR e"
definition Logger_fatal where "Logger_fatal tmf S l e = Logger_log tmf S l FATAL e"

definition LogEventWarp_destroy :: "(string \<Rightarrow> u64 \<Rightarrow> string) \<Rightarrow> log_state \<Rightarrow> log_event \<Rightarrow> log_state result option" where
  "LogEventWarp_destroy tmf S e = Logger_log tmf S (le_logger e) (le_level e) e"

text \<open>
  The macros: \<open>LOG_LEVEL(logger, level) << text\<close>. The arguments behind the text are the file, the line, the
  thread, the fiber, the time and the name of the thread.
\<close>

definition LOG_LEVEL ::
  "(string \<Rightarrow> u64 \<Rightarrow> string) \<Rightarrow> log_state \<Rightarrow> nat \<Rightarrow> log_level \<Rightarrow> string \<Rightarrow> string \<Rightarrow> i32 \<Rightarrow> u32 \<Rightarrow> u32 \<Rightarrow> u64 \<Rightarrow> string
   \<Rightarrow> log_state result option" where
  "LOG_LEVEL tmf S l level text file line tid fid time tname =
     (case get_logger S l of
        Inl x \<Rightarrow> Some (Inl x)
      | Inr g \<Rightarrow>
          if lg_level g \<le> level
          then LogEventWarp_destroy tmf S (event_append (LogEvent_new l level file line 0 tid fid time tname) text)
          else Some (Inr S))"

section \<open>The manager\<close>

definition LoggerManager_new :: log_state where
  "LoggerManager_new =
     \<lparr>ls_loggers = [0 \<mapsto> (Logger_new ''root'')\<lparr>lg_appenders := [1]\<rparr>],
      ls_appenders = [1 \<mapsto> (LogAppender_new StdoutLogAppender)\<lparr>ap_formatter := Some (LogFormatter_new default_format)\<rparr>],
      ls_next = 2, ls_stdout = [], ls_root = 0, ls_table = [(''root'', 0)]\<rparr>"

definition getLogger :: "log_state \<Rightarrow> string \<Rightarrow> nat \<times> log_state" where
  "getLogger S name =
     (case map_find str_less name (ls_table S) of
        Some l \<Rightarrow> (l, S)
      | None \<Rightarrow>
          let (l, S) = alloc_logger S ((Logger_new name)\<lparr>lg_root := Some (ls_root S)\<rparr>) in
          (l, S\<lparr>ls_table := map_put str_less name l (ls_table S)\<rparr>))"

section \<open>Configuration\<close>

record appender_define =
  ad_type :: int
  ad_level :: log_level
  ad_formatter :: string
  ad_file :: string

record log_define =
  ld_name :: string
  ld_level :: log_level
  ld_formatter :: string
  ld_appenders :: "appender_define list"

definition define_less :: "log_define \<Rightarrow> log_define \<Rightarrow> bool" where
  "define_less a b \<longleftrightarrow> str_less (ld_name a) (ld_name b)"

text \<open>\<open>openable\<close> tells which files can be opened.\<close>

definition add_defined :: "(string \<Rightarrow> bool) \<Rightarrow> nat \<Rightarrow> appender_define \<Rightarrow> log_state \<Rightarrow> log_state result" where
  "add_defined openable l d S =
     (if ad_type d = 1 \<or> ad_type d = 2 then
        let (a, S) = alloc_appender S
              (if ad_type d = 1 then FileLogAppender_new (openable (ad_file d)) (ad_file d) else LogAppender_new StdoutLogAppender) in
        rbind (appender_setLevel S a (ad_level d)) (\<lambda>S.
        rbind (if ad_formatter d \<noteq> [] \<and> \<not> f_error (LogFormatter_new (ad_formatter d))
               then appender_setFormatter S a (Some (LogFormatter_new (ad_formatter d))) else Inr S) (\<lambda>S.
          addAppenders S l a))
      else Inl Null_deref)"

fun add_all_defined :: "(string \<Rightarrow> bool) \<Rightarrow> nat \<Rightarrow> appender_define list \<Rightarrow> log_state \<Rightarrow> log_state result" where
  "add_all_defined openable l [] S = Inr S"
| "add_all_defined openable l (d # ds) S = rbind (add_defined openable l d S) (add_all_defined openable l ds)"

definition configure :: "(string \<Rightarrow> bool) \<Rightarrow> log_define \<Rightarrow> log_state \<Rightarrow> log_state result" where
  "configure openable i S =
     (let (l, S) = getLogger S (ld_name i) in
      rbind (logger_setLevel S l (ld_level i)) (\<lambda>S.
      rbind (if ld_formatter i \<noteq> [] then setFormatter_str S l (ld_formatter i) else Inr S) (\<lambda>S.
      rbind (clearAppenders S l) (add_all_defined openable l (ld_appenders i)))))"

fun configure_changed :: "(string \<Rightarrow> bool) \<Rightarrow> log_define list \<Rightarrow> log_define list \<Rightarrow> log_state \<Rightarrow> log_state result" where
  "configure_changed openable old_val [] S = Inr S"
| "configure_changed openable old_val (i # new_val) S =
     (let j = set_find define_less i old_val in
      if j < length old_val \<and> old_val ! j = i then configure_changed openable old_val new_val S
      else rbind (configure openable i S) (configure_changed openable old_val new_val))"

definition remove_logger :: "string \<Rightarrow> log_state \<Rightarrow> log_state result" where
  "remove_logger name S =
     (let (l, S) = getLogger S name in rbind (logger_setLevel S l UNKNOWN) (\<lambda>S. clearAppenders S l))"

fun remove_missing :: "log_define list \<Rightarrow> log_define list \<Rightarrow> log_state \<Rightarrow> log_state result" where
  "remove_missing new_val [] S = Inr S"
| "remove_missing new_val (i # old_val) S =
     (if set_find define_less i new_val = length new_val
      then rbind (remove_logger (ld_name i) S) (remove_missing new_val old_val)
      else remove_missing new_val old_val S)"

definition on_logger_conf_changed ::
  "(string \<Rightarrow> bool) \<Rightarrow> log_define list \<Rightarrow> log_define list \<Rightarrow> log_state \<Rightarrow> log_state result" where
  "on_logger_conf_changed openable old_val new_val S =
     rbind (configure_changed openable old_val new_val S) (remove_missing new_val old_val)"

section \<open>Well-formed states\<close>

definition has_fmt :: "log_state \<Rightarrow> nat \<Rightarrow> bool" where
  "has_fmt S a \<longleftrightarrow> (\<exists>p. ls_appenders S a = Some p \<and> ap_formatter p \<noteq> None)"

definition logger_ok :: "log_state \<Rightarrow> logger \<Rightarrow> bool" where
  "logger_ok S g \<longleftrightarrow> lg_formatter g \<noteq> None \<and> (\<forall>a \<in> set (lg_appenders g). has_fmt S a)
     \<and> (lg_root g = None \<or> lg_root g = Some (ls_root S))"

definition log_ok :: "log_state \<Rightarrow> bool" where
  "log_ok S \<longleftrightarrow> (\<forall>a \<ge> ls_next S. ls_loggers S a = None \<and> ls_appenders S a = None)
     \<and> (\<forall>l g. ls_loggers S l = Some g \<longrightarrow> logger_ok S g)
     \<and> (\<exists>g. ls_loggers S (ls_root S) = Some g \<and> lg_root g = None)
     \<and> sl.ordered_map (ls_table S) \<and> (\<forall>(n, l) \<in> set (ls_table S). \<exists>g. ls_loggers S l = Some g \<and> lg_name g = n)"

lemma put_logger_ok:
  assumes "log_ok S" "ls_loggers S l = Some g" "logger_ok S g'" "lg_root g' = lg_root g" "lg_name g' = lg_name g"
  shows "log_ok (put_logger S l g')"
  using assms by (fastforce simp: has_fmt_def logger_ok_def log_ok_def put_logger_def)

lemma logger_ok_mono:
  "logger_ok S g \<Longrightarrow> (\<And>a. has_fmt S a \<Longrightarrow> has_fmt S' a) \<Longrightarrow> ls_root S' = ls_root S \<Longrightarrow> logger_ok S' g"
  by (auto simp: logger_ok_def)

lemma put_appender_ok:
  assumes "log_ok S" "ls_appenders S a = Some p" "ap_formatter p \<noteq> None \<Longrightarrow> ap_formatter p' \<noteq> None"
  shows "log_ok (put_appender S a p')"
proof -
  have "has_fmt S x \<Longrightarrow> has_fmt (put_appender S a p') x" for x using assms(2,3) by (auto simp: has_fmt_def put_appender_def)
  then have "logger_ok S g \<Longrightarrow> logger_ok (put_appender S a p') g" for g by (rule logger_ok_mono [rotated]) (simp_all add: put_appender_def)
  with assms(1,2) show ?thesis by (auto simp: log_ok_def put_appender_def)
qed

lemma get_logger_eq [returns]: "get_logger S l = Inr g \<longleftrightarrow> ls_loggers S l = Some g"
  by (auto simp: get_logger_def split: option.splits)

lemma get_appender_eq [returns]: "get_appender S a = Inr p \<longleftrightarrow> ls_appenders S a = Some p"
  by (auto simp: get_appender_def split: option.splits)

lemma log_ok_logger: "log_ok S \<Longrightarrow> ls_loggers S l = Some g \<Longrightarrow> logger_ok S g"
  by (simp add: log_ok_def)

lemma alloc_appender_ok:
  assumes "log_ok S" "alloc_appender S p = (a, S')"
  shows "log_ok S' \<and> ls_appenders S' a = Some p \<and> ls_loggers S' = ls_loggers S \<and> ls_table S' = ls_table S"
proof -
  have S': "S' = S\<lparr>ls_appenders := (ls_appenders S)(ls_next S \<mapsto> p), ls_next := Suc (ls_next S)\<rparr>" "a = ls_next S"
    using assms(2) by (auto simp: alloc_appender_def put_appender_def)
  have "ls_appenders S (ls_next S) = None" using assms(1) by (simp add: log_ok_def)
  then have "has_fmt S x \<Longrightarrow> has_fmt S' x" for x by (auto simp: has_fmt_def S')
  then have "logger_ok S g \<Longrightarrow> logger_ok S' g" for g by (rule logger_ok_mono [rotated]) (simp_all add: S')
  with assms(1) show ?thesis by (auto simp: log_ok_def S')
qed

lemma str_eqI: "\<not> str_less a k \<Longrightarrow> \<not> str_less k a \<Longrightarrow> a = k"
  using sl.total by blast

lemma map_find_str: "map_find str_less k m = Some v \<Longrightarrow> (k, v) \<in> set m"
  by (induction m) (auto split: if_splits dest: str_eqI)

lemma set_map_put: "e \<in> set (map_put str_less k v m) \<Longrightarrow> e \<in> set m \<or> e = (k, v)"
  by (induction m) (auto split: if_splits dest: str_eqI)

lemma getLogger_ok:
  assumes "log_ok S" "getLogger S name = (l, S')"
  shows "log_ok S' \<and> (\<exists>g. ls_loggers S' l = Some g) \<and> map_find str_less name (ls_table S') = Some l"
proof (cases "map_find str_less name (ls_table S)")
  case (Some k)
  then show ?thesis using assms map_find_str [OF Some] by (fastforce simp: getLogger_def log_ok_def)
next
  case None
  let ?g = "(Logger_new name)\<lparr>lg_root := Some (ls_root S)\<rparr>"
  have S': "S' = S\<lparr>ls_loggers := (ls_loggers S)(ls_next S \<mapsto> ?g), ls_next := Suc (ls_next S),
      ls_table := map_put str_less name (ls_next S) (ls_table S)\<rparr>" "l = ls_next S"
    using assms(2) None by (auto simp: getLogger_def alloc_logger_def put_logger_def)
  have "logger_ok S g \<Longrightarrow> logger_ok S' g" for g by (erule logger_ok_mono) (simp_all add: S' has_fmt_def)
  moreover have "logger_ok S' ?g" by (simp add: logger_ok_def Logger_new_def S')
  moreover have "ls_loggers S (ls_next S) = None" using assms(1) by (simp add: log_ok_def)
  moreover have "\<forall>(n, l) \<in> set (ls_table S'). \<exists>g. ls_loggers S' l = Some g \<and> lg_name g = n"
    using assms(1) by (fastforce simp: S' log_ok_def Logger_new_def dest!: set_map_put)
  ultimately have "log_ok S'" using assms(1) by (auto simp: log_ok_def S' intro!: sl.ordered_map_put)
  then show ?thesis using assms(1) by (simp add: S' sl.map_find_put log_ok_def)
qed

lemma pass_formatter_ok:
  "log_ok S \<Longrightarrow> pass_formatter (Some f) as S = Inr S' \<Longrightarrow> log_ok S'"
proof (induction "as" arbitrary: S)
  case (Cons a as')
  then obtain p where p: "ls_appenders S a = Some p"
    and r: "pass_formatter (Some f) as' (if \<not> m_hasFormatter p then put_appender S a (p\<lparr>ap_formatter := Some f\<rparr>) else S) = Inr S'"
    by (auto simp: returns)
  show ?case using Cons.prems put_appender_ok [OF _ p] by (intro Cons.IH [OF _ r]) simp
qed simp

lemma setFormatter_ok:
  assumes "log_ok S" "setFormatter S l (Some f) = Inr S'"
  shows "log_ok S'"
proof -
  from assms(2) obtain g where g: "ls_loggers S l = Some g"
    and p: "pass_formatter (Some f) (lg_appenders g) (put_logger S l (g\<lparr>lg_formatter := Some f\<rparr>)) = Inr S'"
    by (auto simp: setFormatter_def returns)
  have "log_ok (put_logger S l (g\<lparr>lg_formatter := Some f\<rparr>))"
    using log_ok_logger [OF assms(1) g] by (intro put_logger_ok [OF assms(1) g]) (simp_all add: logger_ok_def)
  then show ?thesis using pass_formatter_ok p by blast
qed

lemma setFormatter_str_ok: "log_ok S \<Longrightarrow> setFormatter_str S l val = Inr S' \<Longrightarrow> log_ok S'"
  by (auto simp: setFormatter_str_def Let_def intro: setFormatter_ok split: if_splits)

lemma addAppenders_ok:
  assumes "log_ok S" "addAppenders S l a = Inr S'"
  shows "log_ok S'"
proof -
  from assms(2) obtain g p where g: "ls_loggers S l = Some g" and p: "ls_appenders S a = Some p"
    by (auto simp: addAppenders_def returns)
  define T where "T = (if ap_formatter p = None then put_appender S a (p\<lparr>ap_formatter := lg_formatter g\<rparr>) else S)"
  have lg: "logger_ok S g" using log_ok_logger [OF assms(1) g] .
  have T: "log_ok T" using put_appender_ok [OF assms(1) p] lg assms(1) by (auto simp: T_def logger_ok_def)
  have gT: "ls_loggers T l = Some g" by (simp add: T_def put_appender_def g)
  have f: "has_fmt T a" using lg p by (auto simp: T_def has_fmt_def put_appender_def logger_ok_def)
  have "log_ok (put_logger T l (g\<lparr>lg_appenders := lg_appenders g @ [a]\<rparr>))"
    using log_ok_logger [OF T gT] f by (intro put_logger_ok [OF T gT]) (auto simp: logger_ok_def)
  then show ?thesis using assms(2) g p by (simp add: addAppenders_def get_logger_def get_appender_def T_def Let_def)
qed

lemma logger_update_ok:
  assumes "log_ok S"
  shows "delAppenders S l a = Inr S' \<Longrightarrow> log_ok S'" "clearAppenders S l = Inr S' \<Longrightarrow> log_ok S'" "logger_setLevel S l v = Inr S' \<Longrightarrow> log_ok S'"
proof -
  have u: "log_ok (put_logger S l g')" if "ls_loggers S l = Some g" "lg_formatter g' = lg_formatter g"
      "set (lg_appenders g') \<subseteq> set (lg_appenders g)" "lg_root g' = lg_root g" "lg_name g' = lg_name g" for g g'
    using log_ok_logger [OF assms that(1)] that by (intro put_logger_ok [OF assms that(1)]) (auto simp: logger_ok_def)
  show "delAppenders S l a = Inr S' \<Longrightarrow> log_ok S'" "clearAppenders S l = Inr S' \<Longrightarrow> log_ok S'" "logger_setLevel S l v = Inr S' \<Longrightarrow> log_ok S'"
    by (auto simp: delAppenders_def clearAppenders_def logger_setLevel_def returns intro!: u dest: subsetD [OF set_remove1_subset])
qed

lemma appender_update_ok:
  assumes "log_ok S"
  shows "appender_setLevel S a v = Inr S' \<Longrightarrow> log_ok S'" "appender_setFormatter S a (Some f) = Inr S' \<Longrightarrow> log_ok S'"
  using put_appender_ok [OF assms]
  by (auto simp: appender_setLevel_def appender_setFormatter_def returns)

text \<open>Functions that keep a state well formed, and their composition.\<close>

definition keeps :: "(log_state \<Rightarrow> log_state result) \<Rightarrow> bool" where
  "keeps f \<longleftrightarrow> (\<forall>S S'. log_ok S \<longrightarrow> f S = Inr S' \<longrightarrow> log_ok S')"

lemma keepsD: "keeps f \<Longrightarrow> log_ok S \<Longrightarrow> f S = Inr S' \<Longrightarrow> log_ok S'"
  unfolding keeps_def by blast

lemma keepsI: "(\<And>S S'. log_ok S \<Longrightarrow> f S = Inr S' \<Longrightarrow> log_ok S') \<Longrightarrow> keeps f"
  unfolding keeps_def by blast

lemma keeps_bind: "keeps f \<Longrightarrow> keeps g \<Longrightarrow> keeps (\<lambda>S. rbind (f S) g)"
  unfolding keeps_def rbind_eq_Inr by blast

lemma keeps_if: "keeps f \<Longrightarrow> keeps g \<Longrightarrow> keeps (\<lambda>S. if c then f S else g S)"
  by (cases c) simp_all

lemma keeps_Inr: "keeps Inr" and keeps_Inl: "keeps (\<lambda>S. Inl e)"
  by (rule keepsI, simp)+

lemmas keeps_basic = keeps_Inr keeps_Inl setFormatter_str_ok [THEN keepsI] addAppenders_ok [THEN keepsI]
  logger_update_ok [THEN keepsI] appender_update_ok [THEN keepsI]

lemma keeps_add_defined: "keeps (add_defined openable l d)"
proof (rule keepsI)
  fix S S' assume ok: "log_ok S" and r: "add_defined openable l d S = Inr S'"
  let ?p = "if ad_type d = 1 then FileLogAppender_new (openable (ad_file d)) (ad_file d) else LogAppender_new StdoutLogAppender"
  obtain a T where T: "alloc_appender S ?p = (a, T)" by (rule prod.exhaust)
  define k where "k = (\<lambda>S. rbind (appender_setLevel S a (ad_level d)) (\<lambda>S.
        rbind (if ad_formatter d \<noteq> [] \<and> \<not> f_error (LogFormatter_new (ad_formatter d))
               then appender_setFormatter S a (Some (LogFormatter_new (ad_formatter d))) else Inr S) (\<lambda>S. addAppenders S l a)))"
  have "keeps k" unfolding k_def by (intro keeps_bind keeps_if keeps_basic)
  moreover have "k T = Inr S'" using r by (simp add: add_defined_def T k_def split: if_splits)
  ultimately show "log_ok S'" using alloc_appender_ok [OF ok T] keepsD by blast
qed

lemma keeps_add_all: "keeps (add_all_defined openable l ds)"
proof (induction ds)
  case Nil
  then show ?case using keeps_Inr by (simp add: keeps_def [abs_def])
next
  case (Cons d ds)
  have "add_all_defined openable l (d # ds) = (\<lambda>S. rbind (add_defined openable l d S) (add_all_defined openable l ds))" by (rule ext) simp
  then show ?case using keeps_bind [OF keeps_add_defined Cons] by simp
qed

lemma keeps_named:
  assumes "\<And>l. keeps (f l)"
  shows "keeps (\<lambda>S. let (l, S) = getLogger S name in f l S)"
proof (rule keepsI)
  fix S S' assume ok: "log_ok S" and r: "(let (l, S) = getLogger S name in f l S) = Inr S'"
  obtain l T where T: "getLogger S name = (l, T)" by (rule prod.exhaust)
  show "log_ok S'" using keepsD [OF assms] getLogger_ok [OF ok T] r unfolding T by auto
qed

lemma keeps_configure: "keeps (configure openable i)"
  unfolding configure_def by (intro keeps_named keeps_bind keeps_if keeps_basic keeps_add_all)

lemma keeps_remove: "keeps (remove_logger name)"
  unfolding remove_logger_def by (intro keeps_named keeps_bind keeps_basic)

lemma keeps_changed: "keeps (configure_changed openable old new)"
proof (induction new)
  case Nil
  then show ?case using keeps_Inr by (simp add: keeps_def [abs_def])
next
  case (Cons i new)
  have "configure_changed openable old (i # new) =
      (\<lambda>S. if set_find define_less i old < length old \<and> old ! set_find define_less i old = i then configure_changed openable old new S
        else rbind (configure openable i S) (configure_changed openable old new))" by (rule ext) (simp add: Let_def)
  then show ?case using keeps_if [OF Cons keeps_bind [OF keeps_configure Cons]] by simp
qed

lemma keeps_missing: "keeps (remove_missing new old)"
proof (induction old)
  case Nil
  then show ?case using keeps_Inr by (simp add: keeps_def [abs_def])
next
  case (Cons i old)
  have "remove_missing new (i # old) =
      (\<lambda>S. if set_find define_less i new = length new then rbind (remove_logger (ld_name i) S) (remove_missing new old)
        else remove_missing new old S)" by (rule ext) simp
  then show ?case using keeps_if [OF keeps_bind [OF keeps_remove Cons] Cons] by simp
qed

lemma keeps_conf: "keeps (on_logger_conf_changed openable old new)"
  unfolding on_logger_conf_changed_def by (intro keeps_bind keeps_changed keeps_missing)

section \<open>Who gets a message\<close>

definition accepts :: "log_state \<Rightarrow> log_level \<Rightarrow> nat \<Rightarrow> bool" where
  "accepts S level a \<longleftrightarrow> (case ls_appenders S a of Some p \<Rightarrow> (ap_level p \<le> level) | None \<Rightarrow> False)"

definition receivers :: "log_state \<Rightarrow> nat \<Rightarrow> log_level \<Rightarrow> nat list" where
  "receivers S l level =
     (case ls_loggers S l of
        None \<Rightarrow> []
      | Some g \<Rightarrow>
          if level < lg_level g then []
          else if lg_appenders g \<noteq> [] then filter (accepts S level) (lg_appenders g)
          else (case Option.bind (lg_root g) (ls_loggers S) of
            None \<Rightarrow> []
          | Some r \<Rightarrow> if level < lg_level r then [] else filter (accepts S level) (lg_appenders r)))"

definition line_of :: "(string \<Rightarrow> u64 \<Rightarrow> string) \<Rightarrow> string option \<Rightarrow> log_level \<Rightarrow> log_event \<Rightarrow> formatter \<Rightarrow> string" where
  "line_of tmf name level e f = concat (map (\<lambda>i. projr (item_format tmf name level e i)) (f_items f))"

definition deliver :: "(string \<Rightarrow> u64 \<Rightarrow> string) \<Rightarrow> log_level \<Rightarrow> log_event \<Rightarrow> nat \<Rightarrow> log_state \<Rightarrow> log_state" where
  "deliver tmf level e a S =
     (case ls_appenders S a of
        Some p \<Rightarrow> emit S a p (line_of tmf (map_option lg_name (ls_loggers S (le_logger e))) level e (the (ap_formatter p)))
      | None \<Rightarrow> S)"

lemma item_total:
  assumes "name \<noteq> None" "\<And>f t. length (tmf f t) < 32"
  shows "item_format tmf name level e i = Inr (projr (item_format tmf name level e i))"
  using assms by (cases i) (auto simp: Let_def)

lemma format_total:
  assumes "name \<noteq> None" "\<And>f t. length (tmf f t) < 32"
  shows "format_items tmf name level e (f_items f) = Inr (line_of tmf name level e f)"
proof -
  have "format_items tmf name level e is0 = Inr (concat (map (\<lambda>i. projr (item_format tmf name level e i)) is0))" for is0
  proof (induction is0)
    case (Cons i is0)
    obtain s where "item_format tmf name level e i = Inr s" using item_total [OF assms, where level = level and e = e and i = i] ..
    with Cons show ?case by simp
  qed simp
  then show ?thesis by (simp add: line_of_def)
qed

text \<open>All that delivering changes is text.\<close>

definition config_of :: "log_state \<Rightarrow> nat \<Rightarrow> (log_level \<times> formatter option) option" where
  "config_of S a = map_option (\<lambda>p. (ap_level p, ap_formatter p)) (ls_appenders S a)"

lemma config_views:
  "has_fmt S a \<longleftrightarrow> (case config_of S a of Some (v, f) \<Rightarrow> f \<noteq> None | None \<Rightarrow> False)"
  "accepts S level a \<longleftrightarrow> (case config_of S a of Some (v, f) \<Rightarrow> v \<le> level | None \<Rightarrow> False)"
  "ls_appenders S a = None \<longleftrightarrow> config_of S a = None"
  by (simp_all add: has_fmt_def accepts_def config_of_def split: option.split)

definition same_config :: "log_state \<Rightarrow> log_state \<Rightarrow> bool" where
  "same_config S T \<longleftrightarrow> ls_loggers T = ls_loggers S \<and> ls_root T = ls_root S \<and> ls_table T = ls_table S \<and> ls_next T = ls_next S
     \<and> config_of T = config_of S"

lemma same_config_refl: "same_config S S" and same_config_trans: "same_config S T \<Longrightarrow> same_config T U \<Longrightarrow> same_config S U"
  by (simp_all add: same_config_def)

lemma deliver_same: "same_config S (deliver tmf level e a S)"
  by (auto simp: deliver_def emit_def put_appender_def same_config_def config_of_def fun_eq_iff split: option.split appender_kind.split)

lemma same_views:
  assumes "same_config S T"
  shows "has_fmt T = has_fmt S" "accepts T level = accepts S level" "ls_appenders T a = None \<longleftrightarrow> ls_appenders S a = None"
  using assms by (simp_all add: fun_eq_iff config_views same_config_def)

lemma same_ok: "log_ok S \<Longrightarrow> same_config S T \<Longrightarrow> log_ok T"
  using same_views [of S T] by (simp add: log_ok_def logger_ok_def same_config_def)

lemma each_appender_delivers:
  assumes "ls_loggers S (le_logger e) \<noteq> None" "\<And>f t. length (tmf f t) < 32" "\<And>a. a \<in> set as \<Longrightarrow> has_fmt S a"
  shows "each_appender tmf level e as S = Inr (fold (deliver tmf level e) (filter (accepts S level) as) S)"
  using assms
proof (induction "as" arbitrary: S)
  case (Cons a as')
  obtain p f where p: "ls_appenders S a = Some p" "ap_formatter p = Some f" using Cons.prems(3) [of a] by (auto simp: has_fmt_def)
  define T where "T = (if accepts S level a then deliver tmf level e a S else S)"
  have "appender_log tmf level e a S = Inr T"
    using format_total [OF _ Cons.prems(2)] Cons.prems(1) p
    by (simp add: appender_log_def get_appender_def T_def accepts_def deliver_def)
  moreover have s: "same_config S T" by (simp add: T_def deliver_same same_config_refl)
  then have "ls_loggers T = ls_loggers S" by (simp add: same_config_def)
  then have "each_appender tmf level e as' T = Inr (fold (deliver tmf level e) (filter (accepts S level) as') T)"
    using Cons.IH [of T] Cons.prems same_views [OF s] by simp
  ultimately show ?case by (simp add: T_def)
qed simp

lemma fold_same: "same_config S (fold (deliver tmf level e) as S)"
  by (induction "as" arbitrary: S) (auto intro: same_config_refl same_config_trans deliver_same)

lemma Logger_log_delivers:
  assumes "log_ok S" "ls_loggers S l = Some g" "ls_loggers S (le_logger e) \<noteq> None" "\<And>f t. length (tmf f t) < 32"
  shows "Logger_log tmf S l level e = Some (Inr (fold (deliver tmf level e) (receivers S l level) S))"
proof -
  have own: "each_appender tmf level e (lg_appenders h) S = Inr (fold (deliver tmf level e) (filter (accepts S level) (lg_appenders h)) S)"
    if "ls_loggers S k = Some h" for k h
    using log_ok_logger [OF assms(1) that] by (intro each_appender_delivers [OF assms(3,4)]) (simp add: logger_ok_def)
  consider "level < lg_level g" | "\<not> level < lg_level g" "lg_appenders g \<noteq> [] \<or> lg_root g = None"
    | "\<not> level < lg_level g" "lg_appenders g = []" "lg_root g = Some (ls_root S)"
    using log_ok_logger [OF assms(1,2)] by (auto simp: logger_ok_def)
  then show ?thesis
  proof cases
    case 3
    obtain r where r: "ls_loggers S (ls_root S) = Some r" "lg_root r = None" using assms(1) by (auto simp: log_ok_def)
    have "Logger_log tmf S l level e = Logger_log tmf S (ls_root S) level e"
      using 3 assms(2) by (subst Logger_log.simps) (simp add: get_logger_def not_less)
    also have "\<dots> = Some (Inr (fold (deliver tmf level e) (receivers S l level) S))"
      using 3 r own [OF r(1)] assms(2) by (subst Logger_log.simps) (auto simp: get_logger_def receivers_def not_less)
    finally show ?thesis .
  qed (use assms(2) own [OF assms(2)] in \<open>subst Logger_log.simps; auto simp: get_logger_def receivers_def not_less\<close>)+
qed

section \<open>Runs\<close>

text \<open>
  What threads do with the log module, one call after the other, on loggers and appenders that exist. A
  null formatter is never given to an appender or a logger.
\<close>

inductive log_run :: "(string \<Rightarrow> u64 \<Rightarrow> string) \<Rightarrow> log_state \<Rightarrow> bool" for tmf where
  run_start: "log_run tmf LoggerManager_new"
| run_get: "log_run tmf S \<Longrightarrow> log_run tmf (snd (getLogger S name))"
| run_new_appender: "log_run tmf S \<Longrightarrow> log_run tmf (snd (alloc_appender S p))"
| run_add: "log_run tmf S \<Longrightarrow> addAppenders S l a = Inr S' \<Longrightarrow> log_run tmf S'"
| run_del: "log_run tmf S \<Longrightarrow> delAppenders S l a = Inr S' \<Longrightarrow> log_run tmf S'"
| run_clear: "log_run tmf S \<Longrightarrow> clearAppenders S l = Inr S' \<Longrightarrow> log_run tmf S'"
| run_level: "log_run tmf S \<Longrightarrow> logger_setLevel S l v = Inr S' \<Longrightarrow> log_run tmf S'"
| run_formatter: "log_run tmf S \<Longrightarrow> setFormatter S l (Some f) = Inr S' \<Longrightarrow> log_run tmf S'"
| run_formatter_str: "log_run tmf S \<Longrightarrow> setFormatter_str S l val = Inr S' \<Longrightarrow> log_run tmf S'"
| run_ap_level: "log_run tmf S \<Longrightarrow> appender_setLevel S a v = Inr S' \<Longrightarrow> log_run tmf S'"
| run_ap_formatter: "log_run tmf S \<Longrightarrow> appender_setFormatter S a (Some f) = Inr S' \<Longrightarrow> log_run tmf S'"
| run_conf: "log_run tmf S \<Longrightarrow> on_logger_conf_changed openable old new S = Inr S' \<Longrightarrow> log_run tmf S'"
| run_log: "log_run tmf S \<Longrightarrow> Logger_log tmf S l level e = Some (Inr S') \<Longrightarrow> ls_loggers S (le_logger e) \<noteq> None \<Longrightarrow> log_run tmf S'"

lemma start_ok: "log_ok LoggerManager_new"
  by (auto simp: LoggerManager_new_def log_ok_def logger_ok_def has_fmt_def Logger_new_def LogAppender_new_def)

lemma log_run_ok:
  assumes "\<And>f t. length (tmf f t) < 32"
  shows "log_run tmf S \<Longrightarrow> log_ok S"
proof (induction rule: log_run.induct)
  case (run_get S name)
  then show ?case using getLogger_ok by (metis prod.collapse)
next
  case (run_new_appender S p)
  then show ?case using alloc_appender_ok by (metis prod.collapse)
next
  case (run_log S l level e S')
  obtain g where "ls_loggers S l = Some g" using run_log.hyps(2)
    by (subst (asm) Logger_log.simps) (auto simp: get_logger_def split: option.splits)
  from Logger_log_delivers [OF run_log.IH this run_log.hyps(3) assms] run_log.hyps(2)
  have "S' = fold (deliver tmf level e) (receivers S l level) S" by simp
  then show ?case using same_ok [OF run_log.IH fold_same] by simp
qed (blast intro: start_ok addAppenders_ok logger_update_ok setFormatter_ok setFormatter_str_ok appender_update_ok keepsD [OF keeps_conf])+

section \<open>Configured loggers\<close>

definition defined_appender :: "(string \<Rightarrow> bool) \<Rightarrow> formatter option \<Rightarrow> appender_define \<Rightarrow> appender" where
  "defined_appender openable f d =
     (let own = ad_formatter d \<noteq> [] \<and> \<not> f_error (LogFormatter_new (ad_formatter d)) in
      \<lparr>ap_level = ad_level d, m_hasFormatter = own, ap_formatter = (if own then Some (LogFormatter_new (ad_formatter d)) else f),
       ap_kind = (if ad_type d = 1 then FileLogAppender (ad_file d) (if openable (ad_file d) then Some [] else None) else StdoutLogAppender)\<rparr>)"

lemma add_defined_eq:
  assumes "ls_loggers S l = Some g" "ad_type d = 1 \<or> ad_type d = 2"
  shows "add_defined openable l d S = Inr (S\<lparr>ls_loggers := (ls_loggers S)(l \<mapsto> g\<lparr>lg_appenders := lg_appenders g @ [ls_next S]\<rparr>),
      ls_appenders := (ls_appenders S)(ls_next S \<mapsto> defined_appender openable (lg_formatter g) d), ls_next := Suc (ls_next S)\<rparr>)"
  using assms
  by (auto simp: add_defined_def alloc_appender_def put_appender_def put_logger_def appender_setLevel_def appender_setFormatter_def
      addAppenders_def get_appender_def get_logger_def FileLogAppender_new_def LogAppender_new_def defined_appender_def Let_def)

lemma add_all_defined_eq:
  assumes "list_all (\<lambda>d. ad_type d = 1 \<or> ad_type d = 2) ds"
  shows "ls_loggers S l = Some g \<Longrightarrow> \<exists>S'. add_all_defined openable l ds S = Inr S'
    \<and> ls_loggers S' = (ls_loggers S)(l \<mapsto> g\<lparr>lg_appenders := lg_appenders g @ [ls_next S ..< ls_next S + length ds]\<rparr>)
    \<and> (\<forall>j < length ds. ls_appenders S' (ls_next S + j) = Some (defined_appender openable (lg_formatter g) (ds ! j)))
    \<and> (\<forall>a < ls_next S. ls_appenders S' a = ls_appenders S a) \<and> ls_table S' = ls_table S \<and> ls_next S' = ls_next S + length ds"
  using assms
proof (induction ds arbitrary: S g)
  case Nil
  then show ?case by (auto simp: fun_upd_idem)
next
  case (Cons d ds)
  let ?g = "g\<lparr>lg_appenders := lg_appenders g @ [ls_next S]\<rparr>"
  define T where "T = S\<lparr>ls_loggers := (ls_loggers S)(l \<mapsto> ?g),
      ls_appenders := (ls_appenders S)(ls_next S \<mapsto> defined_appender openable (lg_formatter g) d), ls_next := Suc (ls_next S)\<rparr>"
  have T: "ls_loggers T = (ls_loggers S)(l \<mapsto> ?g)" "ls_next T = Suc (ls_next S)" "ls_table T = ls_table S"
      "ls_appenders T = (ls_appenders S)(ls_next S \<mapsto> defined_appender openable (lg_formatter g) d)" by (simp_all add: T_def)
  have eq: "add_defined openable l d S = Inr T" unfolding T_def using Cons.prems by (intro add_defined_eq) auto
  have "ls_loggers T l = Some ?g" "list_all (\<lambda>d. ad_type d = 1 \<or> ad_type d = 2) ds" using Cons.prems(2) by (simp_all add: T)
  from Cons.IH [OF this] obtain S' where S': "add_all_defined openable l ds T = Inr S'"
      "ls_loggers S' = (ls_loggers T)(l \<mapsto> ?g\<lparr>lg_appenders := lg_appenders ?g @ [ls_next T ..< ls_next T + length ds]\<rparr>)"
      "\<forall>j < length ds. ls_appenders S' (ls_next T + j) = Some (defined_appender openable (lg_formatter ?g) (ds ! j))"
      "\<forall>a < ls_next T. ls_appenders S' a = ls_appenders T a" "ls_table S' = ls_table T" "ls_next S' = ls_next T + length ds"
    by blast
  have "ls_appenders S' (ls_next S + j) = Some (defined_appender openable (lg_formatter g) ((d # ds) ! j))" if "j < length (d # ds)" for j
    using that S'(3,4) by (cases j) (auto simp: T)
  note heap = this
  have "[ls_next S] @ [Suc (ls_next S) ..< Suc (ls_next S) + length ds] = [ls_next S ..< ls_next S + length (d # ds)]"
    using upt_conv_Cons [of "ls_next S" "ls_next S + length (d # ds)"] by simp
  note upt = this
  have "ls_loggers S' = (ls_loggers S)(l \<mapsto> g\<lparr>lg_appenders := lg_appenders g @ ([ls_next S] @ [Suc (ls_next S) ..< Suc (ls_next S) + length ds])\<rparr>)"
    unfolding S'(2) T by simp
  note loggers = this [unfolded upt]
  have "\<forall>a < ls_next S. ls_appenders S' a = ls_appenders S a" "ls_table S' = ls_table S"
    "ls_next S' = ls_next S + length (d # ds)" using S'(4-6) by (auto simp: T)
  moreover have "add_all_defined openable l (d # ds) S = Inr S'" by (simp add: eq S'(1))
  ultimately show ?case using heap loggers by blast
qed

lemma pass_total:
  "(\<And>a. a \<in> set as \<Longrightarrow> ls_appenders T a \<noteq> None) \<Longrightarrow>
   \<exists>S'. pass_formatter (Some f) as T = Inr S' \<and> ls_loggers S' = ls_loggers T \<and> ls_table S' = ls_table T
     \<and> ls_next S' = ls_next T \<and> (\<forall>a. a \<notin> set as \<longrightarrow> ls_appenders S' a = ls_appenders T a)"
proof (induction "as" arbitrary: T)
  case (Cons a as')
  obtain p where p: "ls_appenders T a = Some p" using Cons.prems [of a] by auto
  define U where "U = (if \<not> m_hasFormatter p then put_appender T a (p\<lparr>ap_formatter := Some f\<rparr>) else T)"
  have U: "ls_loggers U = ls_loggers T" "ls_table U = ls_table T" "ls_next U = ls_next T" "\<And>x. x \<noteq> a \<Longrightarrow> ls_appenders U x = ls_appenders T x"
    by (simp_all add: U_def put_appender_def)
  have "ls_appenders U x \<noteq> None" if "x \<in> set as'" for x using Cons.prems [of x] that by (auto simp: U_def put_appender_def)
  from Cons.IH [OF this] obtain S' where "pass_formatter (Some f) as' U = Inr S'" "ls_loggers S' = ls_loggers U" "ls_table S' = ls_table U"
      "ls_next S' = ls_next U" "\<forall>x. x \<notin> set as' \<longrightarrow> ls_appenders S' x = ls_appenders U x" by blast
  with U show ?case by (simp add: get_appender_def p U_def [symmetric])
qed simp

lemma setFormatter_str_total:
  assumes "log_ok S" "ls_loggers S l = Some g"
  shows "\<exists>S' g'. setFormatter_str S l val = Inr S' \<and> ls_loggers S' = (ls_loggers S)(l \<mapsto> g') \<and> lg_level g' = lg_level g
    \<and> lg_formatter g' = (if f_error (LogFormatter_new val) then lg_formatter g else Some (LogFormatter_new val))
    \<and> ls_table S' = ls_table S \<and> ls_next S' = ls_next S
    \<and> (\<forall>a. a \<notin> set (lg_appenders g) \<longrightarrow> ls_appenders S' a = ls_appenders S a)"
proof (cases "f_error (LogFormatter_new val)")
  case True
  moreover have "ls_loggers S = (ls_loggers S)(l \<mapsto> g)" using assms(2) by (simp add: fun_upd_idem)
  ultimately show ?thesis using assms(2) by (auto simp: setFormatter_str_def)
next
  case False
  define T where "T = put_logger S l (g\<lparr>lg_formatter := Some (LogFormatter_new val)\<rparr>)"
  have T: "ls_table T = ls_table S" "ls_loggers T = (ls_loggers S)(l \<mapsto> g\<lparr>lg_formatter := Some (LogFormatter_new val)\<rparr>)"
    "ls_appenders T = ls_appenders S" "ls_next T = ls_next S" by (simp_all add: T_def put_logger_def)
  have "ls_appenders T a \<noteq> None" if "a \<in> set (lg_appenders g)" for a
    using log_ok_logger [OF assms] that by (auto simp: logger_ok_def has_fmt_def T)
  from pass_total [OF this, where f = "LogFormatter_new val"] obtain S' where
    "pass_formatter (Some (LogFormatter_new val)) (lg_appenders g) T = Inr S'" "ls_loggers S' = ls_loggers T" "ls_table S' = ls_table T"
    "ls_next S' = ls_next T" "\<forall>a. a \<notin> set (lg_appenders g) \<longrightarrow> ls_appenders S' a = ls_appenders T a"
    by blast
  then show ?thesis using False by (auto simp: setFormatter_str_def setFormatter_def get_logger_def assms(2) T_def [symmetric] T)
qed

text \<open>What an operation on the logger \<open>l\<close> of a name leaves alone, given the appenders the logger had.\<close>

definition owned :: "log_state \<Rightarrow> nat \<Rightarrow> nat set" where
  "owned S l = (case ls_loggers S l of None \<Rightarrow> {} | Some g \<Rightarrow> set (lg_appenders g))"

definition framed :: "log_state \<Rightarrow> string \<Rightarrow> nat \<Rightarrow> log_state \<Rightarrow> bool" where
  "framed S name l S' \<longleftrightarrow> (\<forall>k. k \<noteq> l \<longrightarrow> ls_loggers S' k = ls_loggers S k)
     \<and> (\<forall>n. n \<noteq> name \<longrightarrow> map_find str_less n (ls_table S') = map_find str_less n (ls_table S))
     \<and> (\<forall>a < ls_next S. a \<notin> owned S l \<longrightarrow> ls_appenders S' a = ls_appenders S a) \<and> ls_next S \<le> ls_next S'"

lemma getLogger_frame:
  assumes "log_ok S" "getLogger S name = (l, T)"
  shows "framed S name l T \<and> ls_appenders T = ls_appenders S \<and> owned T l = owned S l"
proof -
  have "sl.ordered_map (ls_table S)" "ls_loggers S (ls_next S) = None" using assms(1) by (simp_all add: log_ok_def)
  then show ?thesis using assms(2)
    by (auto simp: getLogger_def framed_def owned_def alloc_logger_def put_logger_def Logger_new_def sl.map_find_put split: option.splits)
qed

lemma configure_total:
  assumes "log_ok S" "list_all (\<lambda>d. ad_type d = 1 \<or> ad_type d = 2) (ld_appenders i)"
  shows "\<exists>S' l g. configure openable i S = Inr S' \<and> map_find str_less (ld_name i) (ls_table S') = Some l
      \<and> ls_loggers S' l = Some g \<and> lg_level g = ld_level i
      \<and> (ld_formatter i \<noteq> [] \<longrightarrow> \<not> f_error (LogFormatter_new (ld_formatter i)) \<longrightarrow> lg_formatter g = Some (LogFormatter_new (ld_formatter i)))
      \<and> map (ls_appenders S') (lg_appenders g) = map (\<lambda>d. Some (defined_appender openable (lg_formatter g) d)) (ld_appenders i)
      \<and> (\<forall>a \<in> set (lg_appenders g). ls_next S \<le> a) \<and> framed S (ld_name i) l S'"
proof -
  obtain l T where T: "getLogger S (ld_name i) = (l, T)" by (rule prod.exhaust)
  from getLogger_ok [OF assms(1) T] obtain g where ok: "log_ok T" and g: "ls_loggers T l = Some g"
    and f: "map_find str_less (ld_name i) (ls_table T) = Some l" by blast
  from getLogger_frame [OF assms(1) T] g have fT: "framed S (ld_name i) l T" "ls_appenders T = ls_appenders S"
    and own: "set (lg_appenders g) = owned S l" by (simp_all add: owned_def)
  define U where "U = put_logger T l (g\<lparr>lg_level := ld_level i\<rparr>)"
  have level: "logger_setLevel T l (ld_level i) = Inr U" by (simp add: logger_setLevel_def get_logger_def g U_def)
  then have okU: "log_ok U" using logger_update_ok(3) [OF ok] by blast
  have gU: "ls_loggers U = (ls_loggers T)(l \<mapsto> g\<lparr>lg_level := ld_level i\<rparr>)" "ls_table U = ls_table T" "ls_appenders U = ls_appenders T"
    "ls_next U = ls_next T" by (simp_all add: U_def put_logger_def)
  obtain V h where V: "(if ld_formatter i \<noteq> [] then setFormatter_str U l (ld_formatter i) else Inr U) = Inr V"
      "ls_loggers V = (ls_loggers T)(l \<mapsto> h)" "lg_level h = ld_level i" "ls_table V = ls_table T" "ls_next V = ls_next T"
      "\<forall>a. a \<notin> owned S l \<longrightarrow> ls_appenders V a = ls_appenders S a"
      "ld_formatter i \<noteq> [] \<longrightarrow> \<not> f_error (LogFormatter_new (ld_formatter i)) \<longrightarrow> lg_formatter h = Some (LogFormatter_new (ld_formatter i))"
    using setFormatter_str_total [OF okU, of l "g\<lparr>lg_level := ld_level i\<rparr>" "ld_formatter i"] gU fT(2) own by (cases "ld_formatter i = []") auto
  define W where "W = put_logger V l (h\<lparr>lg_appenders := []\<rparr>)"
  have clear: "clearAppenders V l = Inr W" by (simp add: clearAppenders_def get_logger_def V(2) W_def)
  have W: "ls_loggers W = (ls_loggers T)(l \<mapsto> h\<lparr>lg_appenders := []\<rparr>)" "ls_table W = ls_table T" "ls_next W = ls_next T" "ls_appenders W = ls_appenders V"
    by (simp_all add: W_def put_logger_def V)
  from add_all_defined_eq [OF assms(2), of W l _ openable] W(1) obtain S' where S': "add_all_defined openable l (ld_appenders i) W = Inr S'"
    "ls_loggers S' = (ls_loggers W)(l \<mapsto> h\<lparr>lg_appenders := [ls_next W ..< ls_next W + length (ld_appenders i)]\<rparr>)"
    "\<forall>j < length (ld_appenders i). ls_appenders S' (ls_next W + j) = Some (defined_appender openable (lg_formatter h) (ld_appenders i ! j))"
    "\<forall>a < ls_next W. ls_appenders S' a = ls_appenders W a" "ls_table S' = ls_table W" "ls_next W \<le> ls_next S'"
    by auto
  have "configure openable i S = Inr S'" by (simp add: configure_def T level V(1) clear S'(1))
  moreover have "map (ls_appenders S') [ls_next W ..< ls_next W + length (ld_appenders i)]
      = map (\<lambda>d. Some (defined_appender openable (lg_formatter h) d)) (ld_appenders i)"
    using S'(3) by (intro nth_equalityI) auto
  moreover have "framed S (ld_name i) l S'" "ls_next S \<le> ls_next W" using fT(1) S'(2,4-6) V(6) W by (auto simp: framed_def)
  ultimately show ?thesis using S'(2,5) f V(3,7) W by auto
qed

lemma remove_total:
  assumes "log_ok S"
  shows "\<exists>S' l g. remove_logger name S = Inr S' \<and> map_find str_less name (ls_table S') = Some l
      \<and> ls_loggers S' l = Some g \<and> lg_level g = UNKNOWN \<and> lg_appenders g = [] \<and> framed S name l S'"
proof -
  obtain l T where T: "getLogger S name = (l, T)" by (rule prod.exhaust)
  from getLogger_ok [OF assms(1) T] obtain g where "ls_loggers T l = Some g" "map_find str_less name (ls_table T) = Some l" by blast
  then show ?thesis using getLogger_frame [OF assms(1) T]
    by (auto simp: remove_logger_def T logger_setLevel_def clearAppenders_def get_logger_def put_logger_def framed_def)
qed

lemma unknown_is_least: "\<not> level < UNKNOWN"
  by (simp add: less_log_level_def)

lemma removed_receivers:
  assumes "log_ok S" "ls_loggers S l = Some g" "lg_level g = UNKNOWN" "lg_appenders g = []" "lg_root g \<noteq> None"
  shows "receivers S l level = receivers S (ls_root S) level"
proof -
  have "lg_root g = Some (ls_root S)" using log_ok_logger [OF assms(1,2)] assms(5) by (auto simp: logger_ok_def)
  moreover obtain r where "ls_loggers S (ls_root S) = Some r" "lg_root r = None" using assms(1) by (auto simp: log_ok_def)
  ultimately show ?thesis using assms(2-4) unknown_is_least by (auto simp: receivers_def)
qed

lemma changed_total:
  "log_ok T \<Longrightarrow> list_all (\<lambda>i. list_all (\<lambda>d. ad_type d = 1 \<or> ad_type d = 2) (ld_appenders i)) new \<Longrightarrow>
   \<exists>T'. configure_changed openable old new T = Inr T'"
proof (induction new arbitrary: T)
  case (Cons i new)
  obtain U where "configure openable i T = Inr U" using configure_total [OF Cons.prems(1), of i openable] Cons.prems(2) by auto
  moreover have "log_ok U" using keepsD [OF keeps_configure Cons.prems(1) calculation] .
  ultimately show ?case using Cons by (simp add: Let_def)
qed simp

lemma missing_total: "log_ok T \<Longrightarrow> \<exists>T'. remove_missing new old T = Inr T'"
proof (induction old arbitrary: T)
  case (Cons i old)
  obtain U where "remove_logger (ld_name i) T = Inr U" using remove_total [OF Cons.prems] by blast
  moreover have "log_ok U" using keepsD [OF keeps_remove Cons.prems calculation] .
  ultimately show ?case using Cons by simp
qed simp

lemma conf_total:
  assumes "log_ok S" "list_all (\<lambda>i. list_all (\<lambda>d. ad_type d = 1 \<or> ad_type d = 2) (ld_appenders i)) new"
  shows "\<exists>S'. on_logger_conf_changed openable old new S = Inr S'"
proof -
  obtain T where T: "configure_changed openable old new S = Inr T" using changed_total [OF assms] by blast
  then show ?thesis using missing_total [OF keepsD [OF keeps_changed assms(1) T]] by (simp add: on_logger_conf_changed_def)
qed

section \<open>Properties\<close>


text \<open>
  A changed entry of the configuration leaves its logger with exactly the configured level and
  appenders, each with its own valid format or else the format of the logger. An entry that was removed
  leaves a logger with level 0 and no appender: instead of falling silent it passes messages of every
  level to the root logger.
\<close>

lemma logger_reconfigured:
  assumes "log_run tmf S" "\<And>f t. length (tmf f t) < 32" "list_all (\<lambda>d. ad_type d = 1 \<or> ad_type d = 2) (ld_appenders i)"
  shows "(\<exists>S' l g. configure openable i S = Inr S' \<and> map_find str_less (ld_name i) (ls_table S') = Some l
      \<and> ls_loggers S' l = Some g \<and> lg_level g = ld_level i
      \<and> map (ls_appenders S') (lg_appenders g) = map (\<lambda>d. Some (defined_appender openable (lg_formatter g) d)) (ld_appenders i))
    \<and> (\<exists>S' l g. remove_logger name S = Inr S' \<and> map_find str_less name (ls_table S') = Some l
      \<and> ls_loggers S' l = Some g \<and> lg_appenders g = []
      \<and> (lg_root g \<noteq> None \<longrightarrow> (\<forall>level. receivers S' l level = receivers S' (ls_root S') level)))"
proof
  have ok: "log_ok S" using log_run_ok [OF assms(2,1)] .
  show "\<exists>S' l g. configure openable i S = Inr S' \<and> map_find str_less (ld_name i) (ls_table S') = Some l
      \<and> ls_loggers S' l = Some g \<and> lg_level g = ld_level i
      \<and> map (ls_appenders S') (lg_appenders g) = map (\<lambda>d. Some (defined_appender openable (lg_formatter g) d)) (ld_appenders i)"
    using configure_total [OF ok assms(3)] by blast
  obtain S' l g where r: "remove_logger name S = Inr S'" "map_find str_less name (ls_table S') = Some l"
      "ls_loggers S' l = Some g" "lg_level g = UNKNOWN" "lg_appenders g = []"
    using remove_total [OF ok, of name] by blast
  have "log_ok S'" using keepsD [OF keeps_remove ok r(1)] .
  with r show "\<exists>S' l g. remove_logger name S = Inr S' \<and> map_find str_less name (ls_table S') = Some l
      \<and> ls_loggers S' l = Some g \<and> lg_appenders g = []
      \<and> (lg_root g \<noteq> None \<longrightarrow> (\<forall>level. receivers S' l level = receivers S' (ls_root S') level))"
    using removed_receivers by blast
qed


definition demo_event :: log_event where
  "demo_event = event_append (LogEvent_new 0 INFO ''a.cc'' 7 0 1 2 0 ''main'') ''hello''"

lemma demo_root: "ls_loggers LoggerManager_new 0 \<noteq> None" "le_logger demo_event = 0"
  by (simp_all add: LoggerManager_new_def demo_event_def event_append_def LogEvent_new_def)


definition demo_define :: log_define where
  "demo_define = \<lparr>ld_name = ''system'', ld_level = WARN, ld_formatter = [],
     ld_appenders = [\<lparr>ad_type = 1, ad_level = UNKNOWN, ad_formatter = [], ad_file = ''f''\<rparr>]\<rparr>"


end
