(* ===== verification/Config.thy ===== *)
theory Config
  imports Strings Ordered
begin

text \<open>
  windgent/config.h and windgent/config.cc: configuration variables with listeners, the registry, loading from
  YAML, and the casts between containers and YAML text. The tree of a YAML document is the datatype \<open>yaml\<close>;
  parsing and printing it, which yaml-cpp does, and the casts of single values, which boost does, are
  parameters. The template argument of a variable is the text of its type; values of all types are of one
  type \<open>'v\<close>. Variables are created by the registry only and never removed, so that the name of a variable is
  its pointer. A listener gets the old and the new value, changes the world \<open>'w\<close> and may throw.
\<close>

section \<open>YAML\<close>

datatype yaml = YNull | YScalar string | YSeq "yaml list" | YMap "(yaml \<times> yaml) list"

fun y_Scalar :: "yaml \<Rightarrow> string" where
  "y_Scalar (YScalar s) = s"
| "y_Scalar n = []"

fun y_IsScalar :: "yaml \<Rightarrow> bool" where
  "y_IsScalar (YScalar s) = True"
| "y_IsScalar n = False"

fun y_size :: "yaml \<Rightarrow> nat" where
  "y_size (YSeq ns) = length ns"
| "y_size (YMap kvs) = length kvs"
| "y_size n = 0"

fun y_pairs :: "yaml \<Rightarrow> (yaml \<times> yaml) list" where
  "y_pairs (YMap kvs) = kvs"
| "y_pairs n = []"

text \<open>
  \<open>YAML::Load\<close>, \<open>ss << node\<close>, and what \<open>ss << node[i]\<close> writes for a map that is indexed like a sequence.
\<close>

record yaml_api =
  ya_load :: "string \<Rightarrow> yaml result"
  ya_dump :: "yaml \<Rightarrow> string"
  ya_odd :: "yaml \<Rightarrow> nat \<Rightarrow> string"

definition element_text :: "yaml_api \<Rightarrow> yaml \<Rightarrow> nat \<Rightarrow> string" where
  "element_text Y node i = (case node of YSeq ns \<Rightarrow> ya_dump Y (ns ! i) | _ \<Rightarrow> ya_odd Y node i)"

section \<open>Casts of containers\<close>

text \<open>Loops that convert one element after the other and stop at the first exception.\<close>

fun each :: "('a \<Rightarrow> 'b result) \<Rightarrow> 'a list \<Rightarrow> 'b list result" where
  "each f [] = Inr []"
| "each f (x # xs) = rbind (f x) (\<lambda>y. rbind (each f xs) (\<lambda>ys. Inr (y # ys)))"

text \<open>\<open>push_back\<close> turns a null node into a sequence; without a call it stays null.\<close>

definition seq_node :: "yaml list \<Rightarrow> yaml" where
  "seq_node ns = (if ns = [] then YNull else YSeq ns)"

definition map_node :: "(yaml \<times> yaml) list \<Rightarrow> yaml" where
  "map_node kvs = (if kvs = [] then YNull else YMap kvs)"

definition vector_from :: "yaml_api \<Rightarrow> (string \<Rightarrow> 'a result) \<Rightarrow> string \<Rightarrow> 'a list result" where
  "vector_from Y from v = rbind (ya_load Y v) (\<lambda>node. each (\<lambda>i. from (element_text Y node i)) [0 ..< y_size node])"

definition vector_to :: "yaml_api \<Rightarrow> ('a \<Rightarrow> string result) \<Rightarrow> 'a list \<Rightarrow> string result" where
  "vector_to Y to v = rbind (each (\<lambda>i. rbind (to i) (ya_load Y)) v) (\<lambda>ns. Inr (ya_dump Y (seq_node ns)))"

definition list_from :: "yaml_api \<Rightarrow> (string \<Rightarrow> 'a result) \<Rightarrow> string \<Rightarrow> 'a list result" where
  "list_from Y from v = rbind (ya_load Y v) (\<lambda>node. each (\<lambda>i. from (element_text Y node i)) [0 ..< y_size node])"

definition list_to :: "yaml_api \<Rightarrow> ('a \<Rightarrow> string result) \<Rightarrow> 'a list \<Rightarrow> string result" where
  "list_to Y to v = rbind (each (\<lambda>i. rbind (to i) (ya_load Y)) v) (\<lambda>ns. Inr (ya_dump Y (seq_node ns)))"

text \<open>A \<open>std::set\<close> is the list of its elements in the order \<open>lt\<close>; \<open>insert\<close> ignores an equivalent element.\<close>

definition set_from :: "yaml_api \<Rightarrow> ('a \<Rightarrow> 'a \<Rightarrow> bool) \<Rightarrow> (string \<Rightarrow> 'a result) \<Rightarrow> string \<Rightarrow> 'a list result" where
  "set_from Y lt from v =
     rbind (ya_load Y v) (\<lambda>node.
     rbind (each (\<lambda>i. from (element_text Y node i)) [0 ..< y_size node]) (\<lambda>xs.
       Inr (foldl (\<lambda>st x. fst (set_insert lt x st)) [] xs)))"

definition set_to :: "yaml_api \<Rightarrow> ('a \<Rightarrow> string result) \<Rightarrow> 'a list \<Rightarrow> string result" where
  "set_to Y to v = rbind (each (\<lambda>i. rbind (to i) (ya_load Y)) v) (\<lambda>ns. Inr (ya_dump Y (seq_node ns)))"

text \<open>
  The unordered containers: the order of iteration is whatever the container has, here the order of a list
  without repetitions.
\<close>

definition unordered_set_from :: "yaml_api \<Rightarrow> (string \<Rightarrow> 'a result) \<Rightarrow> string \<Rightarrow> 'a set result" where
  "unordered_set_from Y from v =
     rbind (ya_load Y v) (\<lambda>node.
     rbind (each (\<lambda>i. from (element_text Y node i)) [0 ..< y_size node]) (\<lambda>xs. Inr (set xs)))"

definition unordered_set_to :: "yaml_api \<Rightarrow> ('a \<Rightarrow> string result) \<Rightarrow> 'a list \<Rightarrow> string result" where
  "unordered_set_to Y to v = rbind (each (\<lambda>i. rbind (to i) (ya_load Y)) v) (\<lambda>ns. Inr (ya_dump Y (seq_node ns)))"

definition pairs_from :: "yaml_api \<Rightarrow> (string \<Rightarrow> 'a result) \<Rightarrow> yaml \<Rightarrow> (string \<times> 'a) list result" where
  "pairs_from Y from node = each (\<lambda>(k, n). rbind (from (ya_dump Y n)) (\<lambda>x. Inr (y_Scalar k, x))) (y_pairs node)"

definition pairs_to :: "yaml_api \<Rightarrow> ('a \<Rightarrow> string result) \<Rightarrow> (string \<times> 'a) list \<Rightarrow> (yaml \<times> yaml) list result" where
  "pairs_to Y to v = each (\<lambda>(k, x). rbind (rbind (to x) (ya_load Y)) (\<lambda>n. Inr (YScalar k, n))) v"

text \<open>\<open>mp.insert(std::make_pair(...))\<close> keeps the entry that is there.\<close>

definition map_insert :: "('k \<Rightarrow> 'k \<Rightarrow> bool) \<Rightarrow> ('k \<times> 'a) list \<Rightarrow> 'k \<times> 'a \<Rightarrow> ('k \<times> 'a) list" where
  "map_insert lt m e = (case map_find lt (fst e) m of None \<Rightarrow> map_put lt (fst e) (snd e) m | Some _ \<Rightarrow> m)"

definition map_from :: "yaml_api \<Rightarrow> (string \<Rightarrow> 'a result) \<Rightarrow> string \<Rightarrow> (string \<times> 'a) list result" where
  "map_from Y from v =
     rbind (ya_load Y v) (\<lambda>node. rbind (pairs_from Y from node) (\<lambda>es. Inr (foldl (map_insert str_less) [] es)))"

definition map_to :: "yaml_api \<Rightarrow> ('a \<Rightarrow> string result) \<Rightarrow> (string \<times> 'a) list \<Rightarrow> string result" where
  "map_to Y to v = rbind (pairs_to Y to v) (\<lambda>kvs. Inr (ya_dump Y (map_node kvs)))"

definition unordered_map_from :: "yaml_api \<Rightarrow> (string \<Rightarrow> 'a result) \<Rightarrow> string \<Rightarrow> (string \<rightharpoonup> 'a) result" where
  "unordered_map_from Y from v =
     rbind (ya_load Y v) (\<lambda>node. rbind (pairs_from Y from node) (\<lambda>es.
       Inr (foldl (\<lambda>m (k, x). if m k = None then m(k \<mapsto> x) else m) Map.empty es)))"

definition unordered_map_to :: "yaml_api \<Rightarrow> ('a \<Rightarrow> string result) \<Rightarrow> (string \<times> 'a) list \<Rightarrow> string result" where
  "unordered_map_to Y to v = rbind (pairs_to Y to v) (\<lambda>kvs. Inr (ya_dump Y (map_node kvs)))"

section \<open>Variables\<close>

type_synonym ('v, 'w) listener = "'v \<Rightarrow> 'v \<Rightarrow> 'w \<Rightarrow> cpp_error option \<times> 'w"

record ('v, 'w) config_var =
  cv_name :: string
  cv_description :: string
  cv_type :: string
  cv_from :: "string \<Rightarrow> 'v result"
  cv_to :: "'v \<Rightarrow> string result"
  cv_val :: 'v
  cv_cbs :: "(u64 \<times> ('v, 'w) listener) list"

definition lower :: "char \<Rightarrow> char" where
  "lower c = (if 65 \<le> (of_char c :: nat) \<and> (of_char c :: nat) \<le> 90 then char_of ((of_char c :: nat) + 32) else c)"

definition ConfigVar_new ::
  "string \<Rightarrow> string \<Rightarrow> (string \<Rightarrow> 'v result) \<Rightarrow> ('v \<Rightarrow> string result) \<Rightarrow> 'v \<Rightarrow> string \<Rightarrow> ('v, 'w) config_var" where
  "ConfigVar_new type name from to val description =
     \<lparr>cv_name = map lower name, cv_description = description, cv_type = type, cv_from = from, cv_to = to, cv_val = val, cv_cbs = []\<rparr>"

text \<open>What \<open>catch(std::exception& e)\<close> catches.\<close>

fun is_exception :: "cpp_error \<Rightarrow> bool" where
  "is_exception Out_of_range = True"
| "is_exception Invalid_argument = True"
| "is_exception Logic_error = True"
| "is_exception Bad_alloc = True"
| "is_exception Bad_cast = True"
| "is_exception Yaml_error = True"
| "is_exception _ = False"

definition cv_toString :: "('v, 'w) config_var \<Rightarrow> string result" where
  "cv_toString v = (case cv_to v (cv_val v) of Inl e \<Rightarrow> if is_exception e then Inr [] else Inl e | Inr s \<Rightarrow> Inr s)"

fun notify :: "(u64 \<times> ('v, 'w) listener) list \<Rightarrow> 'v \<Rightarrow> 'v \<Rightarrow> 'w \<Rightarrow> cpp_error option \<times> 'w" where
  "notify [] old new w = (None, w)"
| "notify ((i, cb) # cbs) old new w =
     (case cb old new w of (None, w) \<Rightarrow> notify cbs old new w | (Some e, w) \<Rightarrow> (Some e, w))"

definition setVal :: "('v, 'w) config_var \<Rightarrow> 'v \<Rightarrow> 'w \<Rightarrow> cpp_error option \<times> ('v, 'w) config_var \<times> 'w" where
  "setVal v val w =
     (if val = cv_val v then (None, v, w)
      else case notify (cv_cbs v) (cv_val v) val w of
        (Some e, w) \<Rightarrow> (Some e, v, w)
      | (None, w) \<Rightarrow> (None, v\<lparr>cv_val := val\<rparr>, w))"

text \<open>\<open>fromString\<close>, with the returned flag: there is one \<open>return\<close> only.\<close>

definition fromString :: "('v, 'w) config_var \<Rightarrow> string \<Rightarrow> 'w \<Rightarrow> (cpp_error + bool) \<times> ('v, 'w) config_var \<times> 'w" where
  "fromString v val w =
     (case cv_from v val of
        Inl e \<Rightarrow> (if is_exception e then Inr False else Inl e, v, w)
      | Inr x \<Rightarrow>
          (case setVal v x w of
             (Some e, v, w) \<Rightarrow> (if is_exception e then Inr False else Inl e, v, w)
           | (None, v, w) \<Rightarrow> (Inr False, v, w)))"

text \<open>\<open>s_func_id\<close> is one counter for all variables of a type.\<close>

definition addListener :: "u64 \<Rightarrow> ('v, 'w) config_var \<Rightarrow> ('v, 'w) listener \<Rightarrow> u64 \<times> ('v, 'w) config_var" where
  "addListener s_func_id v cb = (s_func_id + 1, v\<lparr>cv_cbs := map_put (<) (s_func_id + 1) cb (cv_cbs v)\<rparr>)"

definition delListener :: "('v, 'w) config_var \<Rightarrow> u64 \<Rightarrow> ('v, 'w) config_var" where
  "delListener v key = v\<lparr>cv_cbs := map_del (<) key (cv_cbs v)\<rparr>"

definition getListener :: "('v, 'w) config_var \<Rightarrow> u64 \<Rightarrow> ('v, 'w) listener option" where
  "getListener v key = map_find (<) key (cv_cbs v)"

definition clearListener :: "('v, 'w) config_var \<Rightarrow> ('v, 'w) config_var" where
  "clearListener v = v\<lparr>cv_cbs := []\<rparr>"

section \<open>The registry\<close>

type_synonym ('v, 'w) registry = "(string \<times> ('v, 'w) config_var) list"

definition name_chars :: string where
  "name_chars = ''abcdefghijklmnopqrstuvwxyz._12345678''"

definition valid_name :: "string \<Rightarrow> bool" where
  "valid_name name \<longleftrightarrow> list_all (\<lambda>c. c \<in> set name_chars) name"

text \<open>\<open>Lookup(name, default_value, description)\<close>: a null pointer is \<open>Inr None\<close>.\<close>

definition Lookup_default ::
  "('v, 'w) registry \<Rightarrow> string \<Rightarrow> (string \<Rightarrow> 'v result) \<Rightarrow> ('v \<Rightarrow> string result) \<Rightarrow> string \<Rightarrow> 'v \<Rightarrow> string
   \<Rightarrow> ('v, 'w) config_var option result \<times> ('v, 'w) registry" where
  "Lookup_default R type from to name default_value description =
     (case map_find str_less name R of
        Some v \<Rightarrow> (Inr (if cv_type v = type then Some v else None), R)
      | None \<Rightarrow>
          if \<not> valid_name name then (Inl Invalid_argument, R)
          else let v = ConfigVar_new type name from to default_value description in (Inr (Some v), map_put str_less name v R))"

definition Lookup :: "('v, 'w) registry \<Rightarrow> string \<Rightarrow> string \<Rightarrow> ('v, 'w) config_var option" where
  "Lookup R type name =
     (case map_find str_less name R of None \<Rightarrow> None | Some v \<Rightarrow> if cv_type v = type then Some v else None)"

definition LookupBase :: "('v, 'w) registry \<Rightarrow> string \<Rightarrow> ('v, 'w) config_var option" where
  "LookupBase R name = map_find str_less name R"

definition child_name :: "string \<Rightarrow> string \<Rightarrow> string" where
  "child_name prefix key = (if prefix = [] then key else prefix @ ''.'' @ key)"

fun ListAllMember :: "string \<Rightarrow> yaml \<Rightarrow> (string \<times> yaml) list \<Rightarrow> (string \<times> yaml) list"
and list_children :: "string \<Rightarrow> (yaml \<times> yaml) list \<Rightarrow> (string \<times> yaml) list \<Rightarrow> (string \<times> yaml) list" where
  "ListAllMember prefix node output =
     (if \<not> valid_name prefix then output
      else
        let output = output @ [(prefix, node)] in
        case node of YMap kvs \<Rightarrow> list_children prefix kvs output | _ \<Rightarrow> output)"
| "list_children prefix [] output = output"
| "list_children prefix ((k, v) # kvs) output =
     list_children prefix kvs (ListAllMember (child_name prefix (y_Scalar k)) v output)"

definition node_text :: "yaml_api \<Rightarrow> yaml \<Rightarrow> string" where
  "node_text Y node = (if y_IsScalar node then y_Scalar node else ya_dump Y node)"

fun load_nodes :: "yaml_api \<Rightarrow> (string \<times> yaml) list \<Rightarrow> ('v, 'w) registry \<Rightarrow> 'w \<Rightarrow> cpp_error option \<times> ('v, 'w) registry \<times> 'w" where
  "load_nodes Y [] R w = (None, R, w)"
| "load_nodes Y ((key, node) # nodes) R w =
     (if key = [] then load_nodes Y nodes R w
      else
        let key = map lower key in
        case LookupBase R key of
          None \<Rightarrow> load_nodes Y nodes R w
        | Some v \<Rightarrow>
            (case fromString v (node_text Y node) w of
               (Inl e, v, w) \<Rightarrow> (Some e, map_put str_less key v R, w)
             | (Inr _, v, w) \<Rightarrow> load_nodes Y nodes (map_put str_less key v R) w))"

definition LoadFromYaml :: "yaml_api \<Rightarrow> yaml \<Rightarrow> ('v, 'w) registry \<Rightarrow> 'w \<Rightarrow> cpp_error option \<times> ('v, 'w) registry \<times> 'w" where
  "LoadFromYaml Y root R w = load_nodes Y (ListAllMember [] root []) R w"

fun Visit :: "(('v, 'w) config_var \<Rightarrow> 'w \<Rightarrow> cpp_error option \<times> 'w) \<Rightarrow> ('v, 'w) registry \<Rightarrow> 'w \<Rightarrow> cpp_error option \<times> 'w" where
  "Visit cb [] w = (None, w)"
| "Visit cb ((name, v) # R) w = (case cb v w of (None, w) \<Rightarrow> Visit cb R w | (Some e, w) \<Rightarrow> (Some e, w))"

section \<open>Listed nodes\<close>

text \<open>The names a document gives to its nodes: a path of keys, cut at the first key with another character.\<close>

inductive listed :: "string \<Rightarrow> yaml \<Rightarrow> string \<Rightarrow> yaml \<Rightarrow> bool" where
  here: "valid_name prefix \<Longrightarrow> listed prefix node prefix node"
| below: "valid_name prefix \<Longrightarrow> (k, v) \<in> set kvs \<Longrightarrow> listed (child_name prefix (y_Scalar k)) v key node \<Longrightarrow>
    listed prefix (YMap kvs) key node"

inductive_simps listed_map: "listed prefix (YMap kvs) key node"
inductive_simps listed_leaf: "listed prefix YNull key node" "listed prefix (YScalar s) key node" "listed prefix (YSeq ns) key node"

lemma listed_valid: "listed prefix n key node \<Longrightarrow> valid_name prefix \<and> valid_name key"
  by (induction rule: listed.induct) auto

lemma ListAllMember_listed:
  "set (ListAllMember prefix node out) = set out \<union> {(k, n). listed prefix node k n}"
  "valid_name prefix \<Longrightarrow> set (list_children prefix kvs out) =
     set out \<union> {(k, n). \<exists>(c, v) \<in> set kvs. listed (child_name prefix (y_Scalar c)) v k n}"
proof (induction prefix node out and prefix kvs out rule: ListAllMember_list_children.induct)
  case (1 prefix node out)
  show ?case
  proof (cases "valid_name prefix")
    case False
    then show ?thesis using listed_valid by auto
  next
    case True
    then show ?thesis using 1 by (cases node) (auto simp: listed_map listed_leaf)
  qed
qed auto

lemma lower_valid: "valid_name key \<Longrightarrow> map lower key = key"
proof -
  have "list_all (\<lambda>c. lower c = c) name_chars" by code_simp
  then show "valid_name key \<Longrightarrow> map lower key = key"
    by (auto simp: valid_name_def list_all_iff intro: map_idI)
qed

section \<open>Registries\<close>

lemma fromString_same: "fromString v s w = (r, v', w') \<Longrightarrow> cv_name v' = cv_name v \<and> cv_type v' = cv_type v \<and> cv_cbs v' = cv_cbs v \<and> cv_from v' = cv_from v \<and> cv_to v' = cv_to v"
  by (auto simp: fromString_def setVal_def split: sum.splits prod.splits option.splits if_splits)

lemma load_step:
  assumes "valid_name key" "key \<noteq> []" "LookupBase R key = Some v" "fromString v (node_text Y node) w = (f, v', u)"
  shows "load_nodes Y ((key, node) # nodes) R w =
    (case f of Inl e \<Rightarrow> (Some e, map_put str_less key v' R, u) | Inr b \<Rightarrow> load_nodes Y nodes (map_put str_less key v' R) u)"
  using assms by (cases f) (simp_all add: lower_valid Let_def)

lemma load_skip:
  assumes "valid_name key" "key = [] \<or> LookupBase R key = None"
  shows "load_nodes Y ((key, node) # nodes) R w = load_nodes Y nodes R w"
  using assms by (auto simp: lower_valid Let_def)

lemma load_other:
  assumes "sl.ordered_map R" "x \<notin> fst ` set nodes" "list_all (\<lambda>e. valid_name (fst e)) nodes" "load_nodes Y nodes R w = (r, R', w')"
  shows "sl.ordered_map R' \<and> map_find str_less x R' = map_find str_less x R"
  using assms
proof (induction nodes arbitrary: R w)
  case (Cons a nodes)
  obtain key node where a: "a = (key, node)" by force
  have valid: "valid_name key" using Cons.prems(3) by (simp add: a)
  show ?case
  proof (cases "key = [] \<or> LookupBase R key = None")
    case True
    with Cons load_skip [OF valid True] show ?thesis by (simp add: a)
  next
    case False
    then obtain v where v: "key \<noteq> []" "LookupBase R key = Some v" by auto
    obtain f v' u where f: "fromString v (node_text Y node) w = (f, v', u)" by (rule prod_cases3)
    have put: "sl.ordered_map (map_put str_less key v' R)" by (rule sl.ordered_map_put [OF Cons.prems(1)])
    have x: "map_find str_less x (map_put str_less key v' R) = map_find str_less x R"
      using sl.map_find_put [OF Cons.prems(1), of x key v'] Cons.prems(2) by (auto simp: a)
    show ?thesis
    proof (cases f)
      case (Inl e)
      then show ?thesis using Cons.prems(4) load_step [OF valid v f] put x by (simp add: a)
    next
      case (Inr b)
      then show ?thesis using Cons.IH [OF put] Cons.prems load_step [OF valid v f] x by (simp add: a)
    qed
  qed
qed simp

lemma load_app:
  assumes "list_all (\<lambda>e. valid_name (fst e)) xs" "load_nodes Y (xs @ ys) R w = (None, R', w')"
  shows "\<exists>R1 w1. load_nodes Y xs R w = (None, R1, w1) \<and> load_nodes Y ys R1 w1 = (None, R', w')"
  using assms
proof (induction xs arbitrary: R w)
  case (Cons a xs)
  obtain key node where a: "a = (key, node)" by force
  have valid: "valid_name key" using Cons.prems(1) by (simp add: a)
  show ?case
  proof (cases "key = [] \<or> LookupBase R key = None")
    case True
    with Cons load_skip [OF valid True] show ?thesis by (simp add: a)
  next
    case False
    then obtain v where v: "key \<noteq> []" "LookupBase R key = Some v" by auto
    obtain f v' u where f: "fromString v (node_text Y node) w = (f, v', u)" by (rule prod_cases3)
    show ?thesis
    proof (cases f)
      case (Inl e)
      then show ?thesis using Cons.prems load_step [OF valid v f] by (simp add: a)
    next
      case (Inr b)
      then show ?thesis using Cons.IH Cons.prems load_step [OF valid v f] by (simp add: a)
    qed
  qed
qed simp

lemma ListAllMember_valid: "list_all (\<lambda>e. valid_name (fst e)) (ListAllMember [] root [])"
  using ListAllMember_listed(1) [of "[]" root "[]"] listed_valid by (auto simp: list_all_iff)

lemma load_one:
  assumes "sl.ordered_map R" "list_all (\<lambda>e. valid_name (fst e)) (xs @ (x, n) # ys)" "x \<notin> fst ` set xs" "x \<notin> fst ` set ys" "x \<noteq> []"
    "map_find str_less x R = Some v" "load_nodes Y (xs @ (x, n) # ys) R w = (None, R', w')"
  shows "\<exists>b u v' u'. fromString v (node_text Y n) u = (Inr b, v', u') \<and> map_find str_less x R' = Some v'"
proof -
  obtain R1 w1 where r1: "load_nodes Y xs R w = (None, R1, w1)" and r2: "load_nodes Y ((x, n) # ys) R1 w1 = (None, R', w')"
    using load_app [of xs Y "(x, n) # ys" R w] assms(2,7) by auto
  have o1: "sl.ordered_map R1" "map_find str_less x R1 = Some v" using load_other [OF assms(1,3) _ r1] assms(2,6) by auto
  obtain f v' u where f: "fromString v (node_text Y n) w1 = (f, v', u)" by (rule prod_cases3)
  have valid: "valid_name x" using assms(2) by simp
  have step: "load_nodes Y ((x, n) # ys) R1 w1 = (case f of Inl e \<Rightarrow> (Some e, map_put str_less x v' R1, u) | Inr b \<Rightarrow> load_nodes Y ys (map_put str_less x v' R1) u)"
    using load_step [OF valid assms(5) _ f] o1(2) by (simp add: LookupBase_def)
  show ?thesis
  proof (cases f)
    case (Inl e)
    then show ?thesis using r2 step by simp
  next
    case (Inr b)
    then have r3: "load_nodes Y ys (map_put str_less x v' R1) u = (None, R', w')" using r2 step by simp
    have "sl.ordered_map (map_put str_less x v' R1)" by (rule sl.ordered_map_put [OF o1(1)])
    from load_other [OF this assms(4) _ r3] assms(2) have "map_find str_less x R' = map_find str_less x (map_put str_less x v' R1)" by simp
    also have "\<dots> = Some v'" using sl.map_find_put [OF o1(1), of x x v'] by simp
    finally have "map_find str_less x R' = Some v'" .
    then show ?thesis using f Inr by blast
  qed
qed

text \<open>
  \<^bold>\<open>C24\<close>. Loading a YAML document: a variable whose name the document does not list keeps its value; a
  variable that is listed exactly once gets the value its own cast reads from the text of the node, provided its
  listeners do not throw, and keeps its value if the cast throws; and every name the document lists has only the
  characters of variable names, so that lowering it changes nothing.
\<close>

theorem yaml_loaded:
  assumes "sl.ordered_map R" "LoadFromYaml Y root R w = (None, R', w')"
  shows "(\<forall>x. (\<nexists>n. listed [] root x n) \<longrightarrow> map_find str_less x R' = map_find str_less x R)
    \<and> (\<forall>xs x n ys v. ListAllMember [] root [] = xs @ (x, n) # ys \<longrightarrow> x \<notin> fst ` set xs \<longrightarrow> x \<notin> fst ` set ys \<longrightarrow> x \<noteq> [] \<longrightarrow>
        map_find str_less x R = Some v \<longrightarrow>
        (case cv_from v (node_text Y n) of
           Inl e \<Rightarrow> map_find str_less x R' = Some v
         | Inr val \<Rightarrow> (\<forall>u. fst (notify (cv_cbs v) (cv_val v) val u) = None) \<longrightarrow> map_find str_less x R' = Some (v\<lparr>cv_val := val\<rparr>)))
    \<and> (\<forall>x n. listed [] root x n \<longrightarrow> valid_name x \<and> map lower x = x)"
proof (intro conjI allI impI)
  fix x assume "\<nexists>n. listed [] root x n"
  then have "x \<notin> fst ` set (ListAllMember [] root [])" using ListAllMember_listed(1) [of "[]" root "[]"] by auto
  then show "map_find str_less x R' = map_find str_less x R"
    using load_other [OF assms(1) _ ListAllMember_valid assms(2) [unfolded LoadFromYaml_def]] by blast
next
  fix xs x n ys v assume a: "ListAllMember [] root [] = xs @ (x, n) # ys" "x \<notin> fst ` set xs" "x \<notin> fst ` set ys" "x \<noteq> []" "map_find str_less x R = Some v"
  note valid = ListAllMember_valid [of root, unfolded a(1)] and r = assms(2) [unfolded LoadFromYaml_def a(1)]
  from load_one [OF assms(1) valid a(2-5) r]
  obtain b u v' u' where f: "fromString v (node_text Y n) u = (Inr b, v', u')" "map_find str_less x R' = Some v'" by blast
  then show "case cv_from v (node_text Y n) of
      Inl e \<Rightarrow> map_find str_less x R' = Some v
    | Inr val \<Rightarrow> (\<forall>u. fst (notify (cv_cbs v) (cv_val v) val u) = None) \<longrightarrow> map_find str_less x R' = Some (v\<lparr>cv_val := val\<rparr>)"
    by (auto simp: fromString_def setVal_def split: sum.splits prod.splits option.splits if_splits) (metis fst_conv option.distinct(1))+
next
  fix x n assume "listed [] root x n"
  then show "valid_name x" "map lower x = x" using listed_valid lower_valid by blast+
qed

interpretation ul: strict_total "(<) :: u64 \<Rightarrow> u64 \<Rightarrow> bool"
  by unfold_locales auto

text \<open>The states the operations on the registry and its variables lead to.\<close>

inductive reg_run :: "('v, 'w) registry \<Rightarrow> bool" where
  reg_empty: "reg_run []"
| reg_lookup: "reg_run R \<Longrightarrow> reg_run (snd (Lookup_default R type from to name default_value description))"
| reg_load: "reg_run R \<Longrightarrow> LoadFromYaml Y root R w = (r, R', w') \<Longrightarrow> reg_run R'"
| reg_set: "reg_run R \<Longrightarrow> LookupBase R name = Some v \<Longrightarrow> setVal v val w = (r, v', w') \<Longrightarrow> reg_run (map_put str_less name v' R)"
| reg_add: "reg_run R \<Longrightarrow> LookupBase R name = Some v \<Longrightarrow> reg_run (map_put str_less name (snd (addListener i v cb)) R)"
| reg_del: "reg_run R \<Longrightarrow> LookupBase R name = Some v \<Longrightarrow> reg_run (map_put str_less name (delListener v key) R)"
| reg_clear: "reg_run R \<Longrightarrow> LookupBase R name = Some v \<Longrightarrow> reg_run (map_put str_less name (clearListener v) R)"

text \<open>A variable is stored under its own name; its listeners are in the order of their ids.\<close>

definition var_ok :: "string \<Rightarrow> ('v, 'w) config_var \<Rightarrow> bool" where
  "var_ok name v \<longleftrightarrow> valid_name name \<and> cv_name v = name \<and> ul.ordered_map (cv_cbs v)"

definition reg_good :: "('v, 'w) registry \<Rightarrow> bool" where
  "reg_good R \<longleftrightarrow> sl.ordered_map R \<and> (\<forall>(name, v) \<in> set R. var_ok name v)"

lemma map_find_mem: "sl.ordered_map R \<Longrightarrow> map_find str_less k R = Some v \<longleftrightarrow> (k, v) \<in> set R"
proof (induction R)
  case (Cons e R)
  obtain k' v' where e: "e = (k', v')" by force
  consider "str_less k' k" | "str_less k k'" | "k = k'" using sl.total by blast
  then show ?case
  proof cases
    case 2
    then have "(k, v) \<notin> set R" using Cons.prems sl.asym unfolding e by fastforce
    then show ?thesis using 2 sl.asym by (auto simp: e)
  next
    case 3
    then have "(k, v) \<notin> set R" using Cons.prems by (auto simp: e)
    then show ?thesis using 3 by (auto simp: e)
  qed (use Cons in \<open>auto simp: e\<close>)
qed simp

lemma reg_good_put:
  assumes "reg_good R" "var_ok name v"
  shows "reg_good (map_put str_less name v R)"
proof -
  have o: "sl.ordered_map R" using assms(1) by (simp add: reg_good_def)
  have p: "sl.ordered_map (map_put str_less name v R)" by (rule sl.ordered_map_put [OF o])
  have "var_ok n x" if "(n, x) \<in> set (map_put str_less name v R)" for n x
  proof -
    have "map_find str_less n (map_put str_less name v R) = Some x" using map_find_mem [OF p] that by simp
    then show ?thesis using sl.map_find_put [OF o, of n name v] map_find_mem [OF o, of n x] assms by (auto simp: reg_good_def split: if_splits)
  qed
  with p show ?thesis by (auto simp: reg_good_def)
qed

lemma reg_good_find: "reg_good R \<Longrightarrow> LookupBase R name = Some v \<Longrightarrow> var_ok name v"
  using map_find_mem [of R name v] by (auto simp: reg_good_def LookupBase_def)

lemma setVal_same: "setVal v val w = (r, v', w') \<Longrightarrow> cv_name v' = cv_name v \<and> cv_cbs v' = cv_cbs v"
  by (auto simp: setVal_def split: prod.splits option.splits if_splits)

lemma load_good:
  assumes "list_all (\<lambda>e. valid_name (fst e)) nodes"
  shows "reg_good R \<Longrightarrow> load_nodes Y nodes R w = (r, R', w') \<Longrightarrow> reg_good R'"
  using assms
proof (induction nodes arbitrary: R w)
  case (Cons a nodes)
  obtain key node where a: "a = (key, node)" by force
  have valid: "valid_name key" using Cons.prems(3) by (simp add: a)
  show ?case
  proof (cases "key = [] \<or> LookupBase R key = None")
    case True
    with Cons load_skip [OF valid True] show ?thesis by (simp add: a)
  next
    case False
    then obtain v where v: "key \<noteq> []" "LookupBase R key = Some v" by auto
    obtain f v' u where f: "fromString v (node_text Y node) w = (f, v', u)" by (rule prod_cases3)
    have "var_ok key v'" using reg_good_find [OF Cons.prems(1) v(2)] fromString_same [OF f] by (simp add: var_ok_def)
    then have good: "reg_good (map_put str_less key v' R)" by (rule reg_good_put [OF Cons.prems(1)])
    show ?thesis
    proof (cases f)
      case (Inl e)
      then show ?thesis using Cons.prems(2) load_step [OF valid v f] good by (simp add: a)
    next
      case (Inr b)
      then show ?thesis using Cons.IH [OF good] Cons.prems(2,3) load_step [OF valid v f] by (simp add: a)
    qed
  qed
qed simp

lemma new_var_ok: "valid_name name \<Longrightarrow> var_ok name (ConfigVar_new type name from to d desc)"
  by (simp add: var_ok_def ConfigVar_new_def lower_valid)

lemma reg_run_good: "reg_run R \<Longrightarrow> reg_good R"
proof (induction rule: reg_run.induct)
  case reg_empty
  then show ?case by (simp add: reg_good_def)
next
  case (reg_lookup R type "from" to name d desc)
  then show ?case
    using reg_good_put [OF reg_lookup.IH new_var_ok] by (simp add: Lookup_default_def Let_def split: option.split)
next
  case (reg_load R Y root w r R' w')
  then show ?case using load_good [OF ListAllMember_valid] by (simp add: LoadFromYaml_def)
next
  case (reg_set R name v val w r v' w')
  then show ?case using reg_good_find setVal_same by (intro reg_good_put) (fastforce simp: var_ok_def)+
next
  case (reg_add R name v i cb)
  show ?case using reg_good_find [OF reg_add.IH reg_add.hyps(2)]
    by (intro reg_good_put [OF reg_add.IH]) (simp add: var_ok_def addListener_def ul.ordered_map_put)
next
  case (reg_del R name v key)
  show ?case using reg_good_find [OF reg_del.IH reg_del.hyps(2)]
    by (intro reg_good_put [OF reg_del.IH]) (simp add: var_ok_def delListener_def ul.ordered_map_del)
next
  case (reg_clear R name v)
  show ?case using reg_good_find [OF reg_clear.IH reg_clear.hyps(2)]
    by (intro reg_good_put [OF reg_clear.IH]) (simp add: var_ok_def clearListener_def)
qed

section \<open>Containers\<close>

text \<open>An element whose text comes back when it is read as YAML and written again.\<close>

definition element_ok :: "yaml_api \<Rightarrow> (string \<Rightarrow> 'a result) \<Rightarrow> ('a \<Rightarrow> string result) \<Rightarrow> ('a \<Rightarrow> yaml) \<Rightarrow> 'a \<Rightarrow> bool" where
  "element_ok Y from to node x \<longleftrightarrow> rbind (to x) (ya_load Y) = Inr (node x) \<and> from (ya_dump Y (node x)) = Inr x"

lemma each_map: "(\<And>x. x \<in> set xs \<Longrightarrow> f x = Inr (g x)) \<Longrightarrow> each f xs = Inr (map g xs)"
  by (induction xs) auto

lemma each_cong: "(\<And>x. x \<in> set xs \<Longrightarrow> f x = g x) \<Longrightarrow> each f xs = each g xs"
  by (induction xs) auto

lemma each_upt: "each (\<lambda>i. f (xs ! i)) [0 ..< length xs] = each f xs"
proof -
  have "each (\<lambda>i. f (h i)) is0 = each f (map h is0)" for h is0 by (induction is0) simp_all
  from this [of "nth xs" "[0 ..< length xs]"] show ?thesis by (simp add: map_nth)
qed

lemma read_nodes:
  assumes "\<And>x. x \<in> set xs \<Longrightarrow> from (ya_dump Y (node x)) = Inr (val x)"
  shows "each (\<lambda>i. from (element_text Y (seq_node (map node xs)) i)) [0 ..< y_size (seq_node (map node xs))] = Inr (map val xs)"
proof (cases xs)
  case Nil
  then show ?thesis by (simp add: seq_node_def)
next
  case (Cons y ys)
  then have s: "seq_node (map node xs) = YSeq (map node xs)" by (simp add: seq_node_def)
  have "each (\<lambda>i. from (ya_dump Y (map node xs ! i))) [0 ..< length (map node xs)] = each (\<lambda>n. from (ya_dump Y n)) (map node xs)"
    by (rule each_upt [where f = "\<lambda>n. from (ya_dump Y n)"])
  also have "\<dots> = each (\<lambda>x. from (ya_dump Y (node x))) xs" by (induction xs) simp_all
  also have "\<dots> = Inr (map val xs)" using assms by (rule each_map)
  finally show ?thesis by (simp add: s element_text_def)
qed

lemma read_seq:
  assumes "\<And>x. x \<in> set xs \<Longrightarrow> element_ok Y from to node x"
  shows "each (\<lambda>i. from (element_text Y (seq_node (map node xs)) i)) [0 ..< y_size (seq_node (map node xs))] = Inr xs"
  using read_nodes [of xs "from" Y node "\<lambda>x. x"] assms by (simp add: element_ok_def)

lemma write_seq:
  assumes "\<And>x. x \<in> set xs \<Longrightarrow> element_ok Y from to node x"
  shows "each (\<lambda>i. rbind (to i) (ya_load Y)) xs = Inr (map node xs)"
  using assms by (intro each_map) (simp add: element_ok_def)

lemma map_find_none: "\<forall>e \<in> set m. lt (fst e) k \<Longrightarrow> map_find lt k m = None"
  by (induction m) auto

lemma insert_pairs: "sl.ordered_map (m @ es) \<Longrightarrow> foldl (map_insert str_less) m es = m @ es"
proof (induction es arbitrary: m)
  case (Cons e es)
  then have l: "\<And>x. x \<in> set m \<Longrightarrow> str_less (fst x) (fst e)" by (simp add: sorted_wrt_append)
  have "map_find str_less (fst e) m = None" using l by (intro map_find_none) blast
  moreover have "map_put str_less (fst e) (snd e) m = m @ [e]" using map_put_last [of m str_less "fst e" "snd e"] l by simp
  ultimately have "map_insert str_less m e = m @ [e]" by (simp add: map_insert_def)
  with Cons show ?case by simp
qed simp

lemma write_pairs:
  assumes "\<And>k x. (k, x) \<in> set m \<Longrightarrow> element_ok Y from to node x"
  shows "pairs_to Y to m = Inr (map (\<lambda>(k, x). (YScalar k, node x)) m)"
  unfolding pairs_to_def using assms by (intro each_map) (auto simp: element_ok_def)

lemma read_pairs:
  assumes "\<And>k x. (k, x) \<in> set m \<Longrightarrow> element_ok Y from to node x"
  shows "pairs_from Y from (map_node (map (\<lambda>(k, x). (YScalar k, node x)) m)) = Inr m"
proof -
  have "y_pairs (map_node kvs) = kvs" for kvs by (simp add: map_node_def)
  then have "pairs_from Y from (map_node (map (\<lambda>(k, x). (YScalar k, node x)) m)) =
      each (\<lambda>(k, n). rbind (from (ya_dump Y n)) (\<lambda>x. Inr (y_Scalar k, x))) (map (\<lambda>(k, x). (YScalar k, node x)) m)"
    by (simp add: pairs_from_def)
  also have "\<dots> = Inr m" using assms
  proof (induction m)
    case (Cons e m)
    obtain k x where e: "e = (k, x)" by force
    have "element_ok Y from to node x" using Cons.prems [of k x] by (simp add: e)
    moreover have "each (\<lambda>(k, n). rbind (from (ya_dump Y n)) (\<lambda>x. Inr (y_Scalar k, x))) (map (\<lambda>(k, x). (YScalar k, node x)) m) = Inr m"
      using Cons.IH Cons.prems by (meson list.set_intros(2))
    ultimately show ?case by (simp add: element_ok_def e)
  qed simp
  finally show ?thesis .
qed

section \<open>Properties\<close>

text \<open>
  Casting a vector, a list, an ordered set, an unordered set or a map to YAML text and back gives
  the container, when the casts of the elements and yaml-cpp restore the elements and the nodes the casts
  build; also for empty containers, whose node is null.
\<close>

lemma containers_roundtrip:
  assumes "\<And>x. x \<in> set xs \<Longrightarrow> element_ok Y from to node x"
    and "ya_load Y (ya_dump Y (seq_node (map node xs))) = Inr (seq_node (map node xs))"
    and "\<And>k x. (k, x) \<in> set m \<Longrightarrow> element_ok Y from to node x" "sl.ordered_map m"
    and "ya_load Y (ya_dump Y (map_node (map (\<lambda>(k, x). (YScalar k, node x)) m))) = Inr (map_node (map (\<lambda>(k, x). (YScalar k, node x)) m))"
  shows "rbind (vector_to Y to xs) (vector_from Y from) = Inr xs \<and> rbind (list_to Y to xs) (list_from Y from) = Inr xs
    \<and> (strict_total lt \<and> sorted_wrt lt xs \<longrightarrow> rbind (set_to Y to xs) (set_from Y lt from) = Inr xs)
    \<and> rbind (unordered_set_to Y to xs) (unordered_set_from Y from) = Inr (set xs)
    \<and> rbind (map_to Y to m) (map_from Y from) = Inr m"
proof (intro conjI impI)
  note seq = write_seq [OF assms(1)] read_seq [OF assms(1)] assms(2)
  show "rbind (vector_to Y to xs) (vector_from Y from) = Inr xs" "rbind (list_to Y to xs) (list_from Y from) = Inr xs"
    "rbind (unordered_set_to Y to xs) (unordered_set_from Y from) = Inr (set xs)"
    by (simp_all add: vector_to_def vector_from_def list_to_def list_from_def unordered_set_to_def unordered_set_from_def seq)
  show "rbind (set_to Y to xs) (set_from Y lt from) = Inr xs" if "strict_total lt \<and> sorted_wrt lt xs"
    using strict_weak.insert_all [of lt "[]" xs] that by (simp add: set_to_def set_from_def seq strict_total_def)
  show "rbind (map_to Y to m) (map_from Y from) = Inr m"
    using insert_pairs [of "[]" m] assms(4) by (simp add: map_to_def map_from_def write_pairs [OF assms(3)] read_pairs [OF assms(3)] assms(5))
qed

lemma no_zero_nine: "CHR ''0'' \<in> set name \<or> CHR ''9'' \<in> set name \<Longrightarrow> \<not> valid_name name"
proof -
  have "CHR ''0'' \<notin> set name_chars" "CHR ''9'' \<notin> set name_chars" by (simp_all add: name_chars_def)
  then show "CHR ''0'' \<in> set name \<or> CHR ''9'' \<in> set name \<Longrightarrow> \<not> valid_name name" by (auto simp: valid_name_def list_all_iff)
qed

lemma notify_app: "notify (xs @ ys) old new w =
    (case notify xs old new w of (None, u) \<Rightarrow> notify ys old new u | (Some e, u) \<Rightarrow> (Some e, u))"
  by (induction xs arbitrary: w) (auto split: prod.splits option.splits)

lemma notify_quiet:
  assumes "\<And>i cb u. (i, cb) \<in> set cbs \<Longrightarrow> fst (cb old new u) = None"
  shows "notify cbs old new w = (None, fold (\<lambda>(j, f) u. snd (f old new u)) cbs w)"
  using assms
proof (induction cbs arbitrary: w)
  case (Cons e cbs)
  obtain i cb where e: "e = (i, cb)" by force
  have "fst (cb old new w) = None" using Cons.prems [of i cb] by (simp add: e)
  then obtain u where u: "cb old new w = (None, u)" by (cases "cb old new w") simp
  have "notify cbs old new u = (None, fold (\<lambda>(j, f) u. snd (f old new u)) cbs u)"
    using Cons.prems by (intro Cons.IH) (meson list.set_intros(2))
  then show ?case by (simp add: e u)
qed simp

lemma map_del_last: "strict_total lt \<Longrightarrow> \<forall>e \<in> set m. lt (fst e) k \<Longrightarrow> map_del lt k (m @ [(k, x)]) = m"
  using strict_weak.irrefl [of lt k] by (auto simp: map_del_def strict_total_def split: prod.splits intro!: filter_True)

text \<open>
  \<^bold>\<open>C38\<close>. The registry, in every state its operations lead to: a variable is stored under its own, valid, name;
  \<open>Lookup\<close> with a default creates the variable once and later calls return it, whatever their default; a
  lookup with another type gives a null pointer and changes nothing; other variables are untouched; and no name
  with the digits 0 or 9 can be registered.
\<close>

theorem registry_laws:
  assumes "reg_run R"
  shows "(\<forall>name v. LookupBase R name = Some v \<longrightarrow> valid_name name \<and> cv_name v = name)
    \<and> (\<forall>type from to name d desc v R'. Lookup_default R type from to name d desc = (Inr (Some v), R') \<longrightarrow>
        cv_type v = type \<and> Lookup R' type name = Some v
        \<and> (LookupBase R name = None \<longrightarrow> cv_val v = d)
        \<and> (\<forall>from' to' d' desc'. Lookup_default R' type from' to' name d' desc' = (Inr (Some v), R'))
        \<and> (\<forall>type' from' to' d' desc'. type' \<noteq> type \<longrightarrow> Lookup_default R' type' from' to' name d' desc' = (Inr None, R'))
        \<and> (\<forall>other. other \<noteq> name \<longrightarrow> LookupBase R' other = LookupBase R other))
    \<and> (\<forall>type from to name d desc. CHR ''0'' \<in> set name \<or> CHR ''9'' \<in> set name \<longrightarrow>
        Lookup_default R type from to name d desc = (Inl Invalid_argument, R))"
proof (intro conjI allI impI)
  have good: "reg_good R" by (rule reg_run_good [OF assms])
  fix name v assume "LookupBase R name = Some v"
  from reg_good_find [OF good this] show "valid_name name" "cv_name v = name" by (simp_all add: var_ok_def)
next
  have o: "sl.ordered_map R" using reg_run_good [OF assms] by (simp add: reg_good_def)
  fix type "from" to name d desc v R' assume l: "Lookup_default R type from to name d desc = (Inr (Some v), R')"
  have t: "cv_type v = type" "map_find str_less name R' = Some v" "LookupBase R name = None \<Longrightarrow> cv_val v = d"
      "\<And>other. other \<noteq> name \<Longrightarrow> LookupBase R' other = LookupBase R other"
    using l sl.map_find_put [OF o] by (auto simp: Lookup_default_def LookupBase_def ConfigVar_new_def Let_def split: option.splits if_splits)
  then show "cv_type v = type" "Lookup R' type name = Some v" "LookupBase R name = None \<Longrightarrow> cv_val v = d"
      "\<And>other. other \<noteq> name \<Longrightarrow> LookupBase R' other = LookupBase R other"
      "\<And>from' to' d' desc'. Lookup_default R' type from' to' name d' desc' = (Inr (Some v), R')"
      "\<And>type' from' to' d' desc'. type' \<noteq> type \<Longrightarrow> Lookup_default R' type' from' to' name d' desc' = (Inr None, R')"
    by (auto simp: Lookup_def Lookup_default_def)
next
  fix type "from" to name d desc assume "CHR ''0'' \<in> set name \<or> CHR ''9'' \<in> set name"
  then have inv: "\<not> valid_name name" by (rule no_zero_nine)
  then have "map_find str_less name R = None"
    using reg_good_find [OF reg_run_good [OF assms], of name] by (cases "map_find str_less name R") (auto simp: LookupBase_def var_ok_def)
  with inv show "Lookup_default R type from to name d desc = (Inl Invalid_argument, R)" by (simp add: Lookup_default_def)
qed

text \<open>
  A listener that is added is found under the id that is returned, other ids are unaffected,
  and a change of the value calls all earlier listeners in the order of their ids and then the new one, with
  the old and the new value; the value changes only if none throws, setting an equal value calls nobody, and
  removing the listener restores the variable.
\<close>

lemma listeners_notified:
  assumes "ul.ordered_map (cv_cbs v)" "\<And>i cb. (i, cb) \<in> set (cv_cbs v) \<Longrightarrow> i \<le> s_func_id" "s_func_id \<noteq> - 1"
    and "\<And>i cb u. (i, cb) \<in> set (cv_cbs v) \<Longrightarrow> fst (cb (cv_val v) val u) = None" "val \<noteq> cv_val v"
    and "addListener s_func_id v cb = (i, v')"
  shows "getListener v' i = Some cb \<and> (\<forall>j. j \<noteq> i \<longrightarrow> getListener v' j = getListener v j)
    \<and> setVal v' val w =
      (let u = fold (\<lambda>(j, f) u. snd (f (cv_val v) val u)) (cv_cbs v) w in
       case cb (cv_val v) val u of (None, u) \<Rightarrow> (None, v'\<lparr>cv_val := val\<rparr>, u) | (Some e, u) \<Rightarrow> (Some e, v', u))
    \<and> setVal v (cv_val v) w = (None, v, w) \<and> delListener v' i = v"
proof -
  have lt: "\<forall>e \<in> set (cv_cbs v). fst e < s_func_id + 1" 
  proof
    fix e assume "e \<in> set (cv_cbs v)"
    then have "fst e \<le> s_func_id" using assms(2) [of "fst e" "snd e"] by simp
    also have "s_func_id < s_func_id + 1"
      using assms(3) unatSuc [of s_func_id] by (auto simp: word_less_nat_alt add.commute add_eq_0_iff)
    finally show "fst e < s_func_id + 1" .
  qed
  note last = map_put_last [where lt = "(<)" and m = "cv_cbs v" and k = "s_func_id + 1", OF lt]
  have i: "i = s_func_id + 1" and v': "v' = v\<lparr>cv_cbs := cv_cbs v @ [(i, cb)]\<rparr>"
    using assms(6) last by (auto simp: addListener_def)
  have q: "notify (cv_cbs v) (cv_val v) val w = (None, fold (\<lambda>(j, f) u. snd (f (cv_val v) val u)) (cv_cbs v) w)"
    using assms(4) by (rule notify_quiet)
  have "delListener v' i = v" using map_del_last [OF ul.strict_total_axioms lt] by (simp add: v' i delListener_def)
  moreover have "getListener v' j = (if j = i then Some cb else getListener v j)" for j
    using ul.map_find_put [OF assms(1), of j i cb] last [of cb] by (simp add: getListener_def v' i ul.equiv_eq)
  moreover have "setVal v' val w =
      (let u = fold (\<lambda>(j, f) u. snd (f (cv_val v) val u)) (cv_cbs v) w in
       case cb (cv_val v) val u of (None, u) \<Rightarrow> (None, v'\<lparr>cv_val := val\<rparr>, u) | (Some e, u) \<Rightarrow> (Some e, v', u))"
    using assms(5) by (simp add: setVal_def v' notify_app q Let_def split: prod.split option.split)
  ultimately show ?thesis by (simp add: setVal_def)
qed

section \<open>Examples\<close>

text \<open>A YAML library that knows two documents and scalars, and a registry with one variable.\<close>

definition digits_yaml :: yaml_api where
  "digits_yaml = \<lparr>ya_load = (\<lambda>s. Inr (if s = ''SEQ'' then YSeq [YScalar ''1'', YScalar ''22''] else if s = ''MAP'' then YMap [(YScalar ''a'', YScalar ''1'')] else YScalar s)),
     ya_dump = (\<lambda>n. case n of YScalar s \<Rightarrow> s | YSeq ns \<Rightarrow> ''SEQ'' | _ \<Rightarrow> ''MAP''), ya_odd = (\<lambda>n i. [])\<rparr>"

definition two_vars :: "(nat, nat) registry" where
  "two_vars = snd (Lookup_default [] ''int'' (\<lambda>s. Inr (length s)) (\<lambda>n. Inr (replicate n CHR ''x'')) ''tcp.a'' 1 ''d'')"

theorem registry_laws_witness: "Lookup two_vars ''int'' ''tcp.a'' \<noteq> None \<and> fst (Lookup_default two_vars ''s'' (\<lambda>s. Inr 0) (\<lambda>n. Inr []) ''tcp.a'' 1 []) = Inr None
   \<and> fst (Lookup_default two_vars ''s'' (\<lambda>s. Inr 0) (\<lambda>n. Inr []) ''tcp.a0'' 1 []) = Inl Invalid_argument"
proof -
  let ?from = "\<lambda>s. Inr (length s)" and ?to = "\<lambda>n. Inr (replicate n CHR ''x'')"
  have run: "reg_run ([] :: (nat, nat) registry)" "reg_run two_vars" unfolding two_vars_def by (intro reg_run.intros)+
  have "valid_name ''tcp.a''" by code_simp
  then have l: "Lookup_default [] ''int'' ?from ?to ''tcp.a'' 1 ''d'' =
      (Inr (Some (ConfigVar_new ''int'' ''tcp.a'' ?from ?to 1 ''d'')), two_vars)"
    by (simp add: two_vars_def Lookup_default_def Let_def)
  note first = registry_laws [OF run(1), THEN conjunct2, THEN conjunct1, rule_format, OF l]
  have "CHR ''0'' \<in> set ''tcp.a0'' \<or> CHR ''9'' \<in> set ''tcp.a0''" by simp
  note bad = registry_laws [OF run(2), THEN conjunct2, THEN conjunct2, rule_format, OF this]
  show ?thesis by (simp only: first bad fst_conv) (simp add: first)
qed

theorem yaml_loaded_witness:
  "map_find str_less ''tcp.a'' (fst (snd (LoadFromYaml digits_yaml (YMap [(YScalar ''tcp'', YMap [(YScalar ''a'', YScalar ''xyz'')])]) two_vars 0))) =
     map_option (\<lambda>v. v\<lparr>cv_val := 3\<rparr>) (map_find str_less ''tcp.a'' two_vars)"
proof -
  let ?root = "YMap [(YScalar ''tcp'', YMap [(YScalar ''a'', YScalar ''xyz'')])]"
  let ?v = "ConfigVar_new ''int'' ''tcp.a'' (\<lambda>s. Inr (length s)) (\<lambda>n. Inr (replicate n CHR ''x'')) 1 ''d'' :: (nat, nat) config_var"
  have valid: "valid_name ''tcp.a''" "valid_name ''tcp''" "valid_name []" by code_simp+
  have vars: "two_vars = [(''tcp.a'', ?v)]" using valid by (simp add: two_vars_def Lookup_default_def Let_def)
  have o: "sl.ordered_map two_vars" and f: "map_find str_less ''tcp.a'' two_vars = Some ?v" unfolding vars by simp_all
  have all: "ListAllMember [] ?root [] = [([], ?root), (''tcp'', YMap [(YScalar ''a'', YScalar ''xyz'')])] @ (''tcp.a'', YScalar ''xyz'') # []"
    using valid by (simp add: child_name_def)
  obtain r R' w' where run: "LoadFromYaml digits_yaml ?root two_vars 0 = (r, R', w')" by (rule prod_cases3)
  have "LookupBase two_vars ''tcp'' = None" by (simp add: vars LookupBase_def)
  then have "load_nodes digits_yaml (ListAllMember [] ?root []) two_vars 0 = load_nodes digits_yaml [(''tcp.a'', YScalar ''xyz'')] two_vars 0"
    unfolding all by (simp add: load_skip valid del: load_nodes.simps(2))
  moreover have "fromString ?v (node_text digits_yaml (YScalar ''xyz'')) 0 = (Inr False, ?v\<lparr>cv_val := length ''xyz''\<rparr>, 0)"
    by (simp add: fromString_def setVal_def node_text_def ConfigVar_new_def)
  ultimately have "r = None" using run f load_step [OF valid(1), of two_vars ?v]
    by (simp add: LoadFromYaml_def LookupBase_def del: load_nodes.simps(2))
  with run have run: "LoadFromYaml digits_yaml ?root two_vars 0 = (None, R', w')" by simp
  note yaml_loaded [OF o run, THEN conjunct2, THEN conjunct1, rule_format, OF all _ _ _ f]
  then have "map_find str_less ''tcp.a'' R' = Some (?v\<lparr>cv_val := length ''xyz''\<rparr>)"
    by (simp add: ConfigVar_new_def node_text_def)
  then show ?thesis using run f by simp
qed

end
