(* ===== verification/Log_Config.thy ===== *)
theory Log_Config
  imports Logging Config
begin

text \<open>
  windgent/log.cc, third part: the log as a client of the configuration. The casts between \<open>LogDefine\<close> and YAML text, the
  YAML text of appenders, loggers and the manager, the variable \<open>logs\<close> with its listener, and what a document that
  lists loggers does to the state of the log. The record \<open>yaml_nodes\<close> is what the casts use of yaml-cpp beyond
  loading and printing; \<open>node_api\<close> is what its documentation promises for maps, sequences and scalars.
\<close>

section \<open>Nodes\<close>

text \<open>
  \<open>n[key]\<close>, where \<open>None\<close> is a node that is not \<open>IsDefined\<close>; \<open>n[i]\<close>; and \<open>as<std::string>()\<close>. An access to a
  node of another kind may throw.
\<close>

record yaml_nodes =
  yn_field :: "yaml \<Rightarrow> string \<Rightarrow> yaml option result"
  yn_at :: "yaml \<Rightarrow> nat \<Rightarrow> yaml"
  yn_string :: "yaml \<Rightarrow> string result"

definition field :: "string \<Rightarrow> string \<Rightarrow> yaml \<times> yaml" where
  "field key s = (YScalar key, YScalar s)"

text \<open>\<open>n[key].IsDefined() ? n[key].as<std::string>() : ""\<close>.\<close>

definition opt_string :: "yaml_nodes \<Rightarrow> yaml \<Rightarrow> string \<Rightarrow> string result" where
  "opt_string N n key = rbind (yn_field N n key) (\<lambda>x. case x of None \<Rightarrow> Inr [] | Some x \<Rightarrow> yn_string N x)"

section \<open>Casts of a definition\<close>

text \<open>One round of the loop over the appenders; \<open>None\<close> is \<open>continue\<close>.\<close>

definition appender_from :: "yaml_nodes \<Rightarrow> yaml \<Rightarrow> appender_define option result" where
  "appender_from N a =
     rbind (yn_field N a ''type'') (\<lambda>t. case t of None \<Rightarrow> Inr None | Some t \<Rightarrow>
     rbind (yn_string N t) (\<lambda>type.
       if type = ''FileLogAppender'' then
         rbind (yn_field N a ''file'') (\<lambda>f. case f of None \<Rightarrow> Inr None | Some f \<Rightarrow>
         rbind (yn_string N f) (\<lambda>file.
         rbind (opt_string N a ''formatter'') (\<lambda>fmt.
           Inr (Some \<lparr>ad_type = 1, ad_level = UNKNOWN, ad_formatter = fmt, ad_file = file\<rparr>))))
       else if type = ''StdoutLogAppender'' then
         rbind (opt_string N a ''formatter'') (\<lambda>fmt.
           Inr (Some \<lparr>ad_type = 2, ad_level = UNKNOWN, ad_formatter = fmt, ad_file = []\<rparr>))
       else Inr None))"

definition log_define_from :: "yaml_api \<Rightarrow> yaml_nodes \<Rightarrow> string \<Rightarrow> log_define result" where
  "log_define_from Y N v =
     rbind (ya_load Y v) (\<lambda>n.
     rbind (yn_field N n ''name'') (\<lambda>x. case x of None \<Rightarrow> Inl Logic_error | Some x \<Rightarrow>
     rbind (yn_string N x) (\<lambda>name.
     rbind (opt_string N n ''level'') (\<lambda>level.
     rbind (opt_string N n ''formatter'') (\<lambda>fmt.
     rbind (yn_field N n ''appenders'') (\<lambda>as.
     rbind (case as of None \<Rightarrow> Inr [] | Some as \<Rightarrow> each (\<lambda>j. appender_from N (yn_at N as j)) [0 ..< y_size as]) (\<lambda>ads.
       Inr \<lparr>ld_name = name, ld_level = level_FromString level, ld_formatter = fmt, ld_appenders = List.map_filter id ads\<rparr>)))))))"

definition level_field :: "log_level \<Rightarrow> (yaml \<times> yaml) list" where
  "level_field level = (if level \<noteq> UNKNOWN then [field ''level'' (level_ToString level)] else [])"

definition formatter_field :: "string \<Rightarrow> (yaml \<times> yaml) list" where
  "formatter_field fmt = (if fmt \<noteq> [] then [field ''formatter'' fmt] else [])"

definition appenders_field :: "yaml list \<Rightarrow> (yaml \<times> yaml) list" where
  "appenders_field ns = (if ns \<noteq> [] then [(YScalar ''appenders'', YSeq ns)] else [])"

definition appender_node :: "appender_define \<Rightarrow> yaml" where
  "appender_node a =
     map_node ((if ad_type a = 1 then [field ''type'' ''FileLogAppender'', field ''file'' (ad_file a)]
                else if ad_type a = 2 then [field ''type'' ''StdoutLogAppender''] else [])
               @ level_field (ad_level a) @ formatter_field (ad_formatter a))"

definition log_define_node :: "log_define \<Rightarrow> yaml" where
  "log_define_node v =
     YMap (field ''name'' (ld_name v) # level_field (ld_level v) @ formatter_field (ld_formatter v)
           @ appenders_field (map appender_node (ld_appenders v)))"

definition log_define_to :: "yaml_api \<Rightarrow> log_define \<Rightarrow> string result" where
  "log_define_to Y v = Inr (ya_dump Y (log_define_node v))"

section \<open>The YAML text of the log\<close>

definition own_format :: "bool \<Rightarrow> formatter option \<Rightarrow> (yaml \<times> yaml) list" where
  "own_format has f = (case f of Some f \<Rightarrow> if has then [field ''formatter'' (f_pattern f)] else [] | None \<Rightarrow> [])"

fun kind_fields :: "appender_kind \<Rightarrow> (yaml \<times> yaml) list" where
  "kind_fields StdoutLogAppender = [field ''type'' ''StdoutLogAppender'']"
| "kind_fields (FileLogAppender filename t) = [field ''type'' ''FileLogAppender'', field ''file'' filename]"

definition appender_toYamlString :: "yaml_api \<Rightarrow> appender \<Rightarrow> string" where
  "appender_toYamlString Y p =
     ya_dump Y (YMap (kind_fields (ap_kind p) @ level_field (ap_level p) @ own_format (m_hasFormatter p) (ap_formatter p)))"

definition Logger_toYamlString :: "yaml_api \<Rightarrow> log_state \<Rightarrow> nat \<Rightarrow> string result" where
  "Logger_toYamlString Y S l =
     rbind (get_logger S l) (\<lambda>g.
     rbind (each (\<lambda>a. rbind (get_appender S a) (\<lambda>p. ya_load Y (appender_toYamlString Y p))) (lg_appenders g)) (\<lambda>ns.
       Inr (ya_dump Y (YMap (field ''name'' (lg_name g) # level_field (lg_level g) @ own_format True (lg_formatter g) @ appenders_field ns)))))"

definition LoggerManager_toYamlString :: "yaml_api \<Rightarrow> log_state \<Rightarrow> string result" where
  "LoggerManager_toYamlString Y S =
     rbind (each (\<lambda>(name, l). rbind (Logger_toYamlString Y S l) (ya_load Y)) (ls_table S)) (\<lambda>ns. Inr (ya_dump Y (seq_node ns)))"

section \<open>The variable \<open>logs\<close>\<close>

type_synonym log_registry = "(log_define list, log_state) registry"

definition g_log_defines ::
  "yaml_api \<Rightarrow> yaml_nodes \<Rightarrow> log_registry \<Rightarrow> (log_define list, log_state) config_var option result \<times> log_registry" where
  "g_log_defines Y N R =
     Lookup_default R ''std::set<LogDefine>'' (set_from Y define_less (log_define_from Y N)) (set_to Y (log_define_to Y)) ''logs'' [] ''logs config''"

text \<open>A listener that meets a null pointer ends the program: what it did before is not observed.\<close>

definition logs_listener :: "(string \<Rightarrow> bool) \<Rightarrow> (log_define list, log_state) listener" where
  "logs_listener openable old_val new_val S =
     (case on_logger_conf_changed openable old_val new_val S of Inl e \<Rightarrow> (Some e, S) | Inr S' \<Rightarrow> (None, S'))"

definition LogIniter :: "(string \<Rightarrow> bool) \<Rightarrow> u64 \<Rightarrow> (log_define list, log_state) config_var \<Rightarrow> u64 \<times> (log_define list, log_state) config_var" where
  "LogIniter openable s_func_id v = addListener s_func_id v (logs_listener openable)"

section \<open>Reading what was written\<close>

text \<open>
  What yaml-cpp promises: a key of a map finds its value or a node that is not defined, a null node has no fields, an index
  inside a sequence finds its element, a scalar is converted to its text.
\<close>

definition node_api :: "yaml_nodes \<Rightarrow> bool" where
  "node_api N \<longleftrightarrow>
     (\<forall>kvs k. list_all (\<lambda>(x, y). y_IsScalar x) kvs \<longrightarrow> yn_field N (YMap kvs) k = Inr (map_of (map (\<lambda>(x, y). (y_Scalar x, y)) kvs) k))
     \<and> (\<forall>k. yn_field N YNull k = Inr None) \<and> (\<forall>ns i. i < length ns \<longrightarrow> yn_at N (YSeq ns) i = ns ! i)
     \<and> (\<forall>s. yn_string N (YScalar s) = Inr s)"

definition restores :: "yaml_api \<Rightarrow> yaml \<Rightarrow> bool" where
  "restores Y n \<longleftrightarrow> ya_load Y (ya_dump Y n) = Inr n"

text \<open>What is left of a definition after writing and reading it.\<close>

definition kept_appender :: "appender_define \<Rightarrow> appender_define" where
  "kept_appender a = a\<lparr>ad_level := UNKNOWN, ad_file := (if ad_type a = 1 then ad_file a else [])\<rparr>"

definition known_type :: "appender_define \<Rightarrow> bool" where
  "known_type a \<longleftrightarrow> ad_type a = 1 \<or> ad_type a = 2"

definition read_back :: "log_define \<Rightarrow> log_define" where
  "read_back d = d\<lparr>ld_appenders := map kept_appender (filter known_type (ld_appenders d))\<rparr>"

lemmas field_defs = field_def level_field_def formatter_field_def appenders_field_def

lemma yn_laws:
  assumes "node_api N"
  shows "list_all (\<lambda>(x, y). y_IsScalar x) kvs \<Longrightarrow> yn_field N (YMap kvs) k = Inr (map_of (map (\<lambda>(x, y). (y_Scalar x, y)) kvs) k)"
    "yn_field N YNull k = Inr None" "i < length ns \<Longrightarrow> yn_at N (YSeq ns) i = ns ! i" "yn_string N (YScalar s) = Inr s"
  using assms by (simp_all add: node_api_def)

lemma appender_from_node:
  assumes "node_api N"
  shows "appender_from N (appender_node a) = Inr (if known_type a then Some (kept_appender a) else None)"
proof -
  note simps = appender_from_def appender_node_def opt_string_def map_node_def field_defs yn_laws [OF assms]
  consider "ad_type a = 1" | "ad_type a = 2" | "\<not> known_type a" by (auto simp: known_type_def)
  then show ?thesis
    by cases (simp_all add: simps known_type_def kept_appender_def)
qed

lemma each_nodes:
  assumes "node_api N" "\<And>a. a \<in> set as \<Longrightarrow> appender_from N (f a) = Inr (g a)"
  shows "each (\<lambda>j. appender_from N (yn_at N (YSeq (map f as)) j)) [0 ..< length as] = Inr (map g as)"
proof -
  have "each (\<lambda>j. appender_from N (yn_at N (YSeq (map f as)) j)) [0 ..< length as] =
      each (\<lambda>j. appender_from N (map f as ! j)) [0 ..< length (map f as)]"
    using yn_laws(3) [OF assms(1)] by (auto intro!: each_cong)
  also have "\<dots> = each (appender_from N) (map f as)" by (rule each_upt)
  also have "\<dots> = each (\<lambda>a. appender_from N (f a)) as" by (induction "as") simp_all
  finally show ?thesis using each_map [of "as" "\<lambda>a. appender_from N (f a)" g] assms(2) by simp
qed

text \<open>Reading any map with the fields of a logger.\<close>

lemma log_define_from_fields:
  assumes "node_api N" "restores Y n" "n = YMap (field ''name'' name # level_field level @ fmts @ appenders_field (map f as))"
    and "fmts = [] \<and> pat = [] \<or> fmts = [field ''formatter'' pat]" "\<And>a. a \<in> set as \<Longrightarrow> appender_from N (f a) = Inr (g a)"
  shows "log_define_from Y N (ya_dump Y n) =
    Inr \<lparr>ld_name = name, ld_level = level, ld_formatter = pat, ld_appenders = List.map_filter g as\<rparr>"
proof -
  note node = field_defs yn_laws [OF assms(1)] opt_string_def assms(3)
  have "yn_field N n ''name'' = Inr (Some (YScalar name))"
    using assms(4) by (elim disjE) (simp_all add: node)
  moreover have "opt_string N n ''level'' = Inr (if level = UNKNOWN then [] else level_ToString level)"
    using assms(4) by (elim disjE) (simp_all add: node)
  moreover have "opt_string N n ''formatter'' = Inr pat"
    using assms(4) by (elim disjE) (simp_all add: node)
  moreover have "yn_field N n ''appenders'' = Inr (if as = [] then None else Some (YSeq (map f as)))"
    using assms(4) by (elim disjE) (simp_all add: node)
  moreover have "level_FromString (if level = UNKNOWN then [] else level_ToString level) = level"
    by (cases "level = UNKNOWN") (simp_all add: level_roundtrip level_FromString_def [of "[]"])
  moreover have "List.map_filter id (map g as) = List.map_filter g as" by (simp add: map_filter_def filter_map comp_def)
  moreover have "each (\<lambda>j. appender_from N (yn_at N (YSeq (map f as)) j)) [0 ..< length as] = Inr (map g as)"
    using each_nodes [OF assms(1), of "as" f g] assms(5) by blast
  ultimately show ?thesis
    using assms(2) by (simp add: log_define_from_def restores_def yn_laws [OF assms(1)] map_filter_simps)
qed

lemma log_define_from_node:
  assumes "node_api N" "restores Y (log_define_node d)"
  shows "log_define_from Y N (ya_dump Y (log_define_node d)) = Inr (read_back d)"
proof -
  have "List.map_filter (\<lambda>a. if known_type a then Some (kept_appender a) else None) as = map kept_appender (filter known_type as)" for as
    by (induction "as") (simp_all add: map_filter_simps)
  with log_define_from_fields [OF assms log_define_node_def _ appender_from_node [OF assms(1)], of "ld_formatter d"] show ?thesis
    by (simp add: read_back_def formatter_field_def)
qed

section \<open>Describing the log\<close>

text \<open>The definitions that the text of the manager stands for.\<close>

definition describe_appender :: "appender \<Rightarrow> appender_define" where
  "describe_appender p =
     \<lparr>ad_type = (case ap_kind p of StdoutLogAppender \<Rightarrow> 2 | _ \<Rightarrow> 1), ad_level = ap_level p,
      ad_formatter = (case ap_formatter p of Some f \<Rightarrow> if m_hasFormatter p then f_pattern f else [] | None \<Rightarrow> []),
      ad_file = (case ap_kind p of FileLogAppender filename t \<Rightarrow> filename | _ \<Rightarrow> [])\<rparr>"

definition describe :: "log_state \<Rightarrow> logger \<Rightarrow> log_define" where
  "describe S g =
     \<lparr>ld_name = lg_name g, ld_level = lg_level g, ld_formatter = (case lg_formatter g of Some f \<Rightarrow> f_pattern f | None \<Rightarrow> []),
      ld_appenders = map (\<lambda>a. describe_appender (the (ls_appenders S a))) (lg_appenders g)\<rparr>"

definition appender_yaml :: "appender \<Rightarrow> yaml" where
  "appender_yaml p = YMap (kind_fields (ap_kind p) @ level_field (ap_level p) @ own_format (m_hasFormatter p) (ap_formatter p))"

definition logger_yaml :: "log_state \<Rightarrow> logger \<Rightarrow> yaml" where
  "logger_yaml S g = YMap (field ''name'' (lg_name g) # level_field (lg_level g) @ own_format True (lg_formatter g)
     @ appenders_field (map (\<lambda>a. appender_yaml (the (ls_appenders S a))) (lg_appenders g)))"

definition table_yaml :: "log_state \<Rightarrow> yaml" where
  "table_yaml S = seq_node (map (\<lambda>(n, l). logger_yaml S (the (ls_loggers S l))) (ls_table S))"

lemma appender_from_yaml:
  assumes "node_api N"
  shows "appender_from N (appender_yaml p) = Inr (Some (kept_appender (describe_appender p)))"
proof -
  note simps = appender_from_def appender_yaml_def opt_string_def field_defs own_format_def yn_laws [OF assms]
  show ?thesis
    by (cases "ap_kind p"; cases "ap_formatter p") (simp_all add: simps describe_appender_def kept_appender_def)
qed

lemma describe_known: "known_type (describe_appender p)"
  by (simp add: known_type_def describe_appender_def split: appender_kind.split)

lemma log_define_from_yaml:
  assumes "node_api N" "restores Y (logger_yaml S g)"
  shows "log_define_from Y N (ya_dump Y (logger_yaml S g)) = Inr (read_back (describe S g))"
proof -
  have "List.map_filter (\<lambda>a. Some (f a)) as = map f as" for f :: "nat \<Rightarrow> appender_define" and "as"
    by (induction "as") (simp_all add: map_filter_simps)
  with log_define_from_fields [OF assms logger_yaml_def _ appender_from_yaml [OF assms(1)], of "ld_formatter (describe S g)"] show ?thesis
    by (simp add: read_back_def describe_def own_format_def filter_True describe_known comp_def split: option.splits)
qed

section \<open>Applying a configuration\<close>

interpretation ld: strict_weak define_less
  by unfold_locales (auto simp: define_less_def dest: sl.asym sl.lt_not_trans)

lemma ld_equiv: "ld.equiv a b \<longleftrightarrow> ld_name a = ld_name b"
  using sl.total by (auto simp: ld.equiv_def define_less_def)

text \<open>
  A logger that is as its definition says: the level, the format, and appenders of its own, one for each
  definition, with their levels, formats and files. \<open>logger_of\<close> is the logger of a name.
\<close>

definition logger_of :: "log_state \<Rightarrow> string \<Rightarrow> logger option" where
  "logger_of S name = Option.bind (map_find str_less name (ls_table S)) (ls_loggers S)"

definition configured :: "(string \<Rightarrow> bool) \<Rightarrow> log_state \<Rightarrow> log_define \<Rightarrow> bool" where
  "configured openable S d \<longleftrightarrow>
     (\<exists>l g. map_find str_less (ld_name d) (ls_table S) = Some l \<and> ls_loggers S l = Some g \<and> lg_level g = ld_level d
      \<and> (ld_formatter d \<noteq> [] \<longrightarrow> \<not> f_error (LogFormatter_new (ld_formatter d)) \<longrightarrow> lg_formatter g = Some (LogFormatter_new (ld_formatter d)))
      \<and> map (ls_appenders S) (lg_appenders g) = map (\<lambda>a. Some (defined_appender openable (lg_formatter g) a)) (ld_appenders d)
      \<and> (\<forall>k. k \<noteq> l \<longrightarrow> owned S k \<inter> owned S l = {}))"

definition silenced :: "log_state \<Rightarrow> string \<Rightarrow> bool" where
  "silenced S name \<longleftrightarrow> (\<exists>g. logger_of S name = Some g \<and> lg_level g = UNKNOWN \<and> lg_appenders g = [])"

lemma owned_bound: "log_ok S \<Longrightarrow> a \<in> owned S k \<Longrightarrow> a < ls_next S"
  by (auto simp: owned_def log_ok_def logger_ok_def has_fmt_def split: option.splits) (metis not_le option.distinct(1))

lemma table_inj:
  assumes "log_ok S" "map_find str_less m (ls_table S) = Some l" "map_find str_less n (ls_table S) = Some l"
  shows "m = n"
proof -
  have "\<forall>(n, l) \<in> set (ls_table S). \<exists>g. ls_loggers S l = Some g \<and> lg_name g = n" using assms(1) by (simp add: log_ok_def)
  from bspec [OF this map_find_str [OF assms(2)]] bspec [OF this map_find_str [OF assms(3)]] show ?thesis by auto
qed

lemma framed_owned: "framed S name l S' \<Longrightarrow> k \<noteq> l \<Longrightarrow> owned S' k = owned S k"
  by (simp add: framed_def owned_def)

lemma framed_logger:
  assumes "framed S name l S'" "log_ok S'" "map_find str_less name (ls_table S') = Some l" "n \<noteq> name"
  shows "logger_of S' n = logger_of S n"
proof (cases "map_find str_less n (ls_table S')")
  case (Some k)
  then have "k \<noteq> l" using table_inj [OF assms(2)] assms(3,4) by blast
  with Some assms(1,4) show ?thesis by (auto simp: framed_def logger_of_def)
qed (use assms(1,4) in \<open>simp add: framed_def logger_of_def\<close>)

lemma configured_kept:
  assumes "configured openable S d" "log_ok S" "framed S name l S'" "log_ok S'" "map_find str_less name (ls_table S') = Some l"
    and "\<And>a. a \<in> owned S' l \<Longrightarrow> ls_next S \<le> a" "ld_name d \<noteq> name"
  shows "configured openable S' d"
proof -
  from assms(1) obtain k g where k: "map_find str_less (ld_name d) (ls_table S) = Some k" "ls_loggers S k = Some g" "lg_level g = ld_level d"
      "ld_formatter d \<noteq> [] \<longrightarrow> \<not> f_error (LogFormatter_new (ld_formatter d)) \<longrightarrow> lg_formatter g = Some (LogFormatter_new (ld_formatter d))"
      "map (ls_appenders S) (lg_appenders g) = map (\<lambda>a. Some (defined_appender openable (lg_formatter g) a)) (ld_appenders d)"
      "\<forall>j. j \<noteq> k \<longrightarrow> owned S j \<inter> owned S k = {}"
    unfolding configured_def by blast
  have k': "map_find str_less (ld_name d) (ls_table S') = Some k" using assms(3,7) k(1) by (simp add: framed_def)
  then have ne: "k \<noteq> l" using table_inj [OF assms(4) _ assms(5)] assms(7) by blast
  then have g: "ls_loggers S' k = Some g" "owned S' k = owned S k" using assms(3) k(2) framed_owned by (auto simp: framed_def)
  have own: "set (lg_appenders g) = owned S k" using k(2) by (simp add: owned_def)
  have same: "ls_appenders S' a = ls_appenders S a" if "a \<in> set (lg_appenders g)" for a
  proof -
    have "a \<in> owned S k" using that own by simp
    moreover have "owned S l \<inter> owned S k = {}" using k(6) ne by metis
    ultimately show ?thesis using owned_bound [OF assms(2)] assms(3) unfolding framed_def by blast
  qed
  then have "map (ls_appenders S') (lg_appenders g) = map (ls_appenders S) (lg_appenders g)" by simp
  moreover have "owned S' j \<inter> owned S' k = {}" if "j \<noteq> k" for j
  proof (cases "j = l")
    case True
    have "a \<notin> owned S k" if "a \<in> owned S' l" for a
      using assms(6) [OF that] owned_bound [OF assms(2), of a k] by auto
    then show ?thesis using True g(2) by auto
  next
    case False
    then show ?thesis using framed_owned [OF assms(3)] g(2) k(6) that by simp
  qed
  ultimately show ?thesis using k k' g(1) unfolding configured_def by auto
qed

lemma configure_step:
  assumes "log_ok S" "list_all known_type (ld_appenders i)"
  obtains S' l where "configure openable i S = Inr S'" "log_ok S'" "configured openable S' i" "framed S (ld_name i) l S'"
    "map_find str_less (ld_name i) (ls_table S') = Some l" "\<And>a. a \<in> owned S' l \<Longrightarrow> ls_next S \<le> a"
proof -
  have types: "list_all (\<lambda>d. ad_type d = 1 \<or> ad_type d = 2) (ld_appenders i)"
    using assms(2) unfolding known_type_def [abs_def] .
  from configure_total [OF assms(1) types, of openable] obtain S' l g
    where c: "configure openable i S = Inr S'" "map_find str_less (ld_name i) (ls_table S') = Some l" "ls_loggers S' l = Some g"
      and d: "lg_level g = ld_level i"
      "ld_formatter i \<noteq> [] \<longrightarrow> \<not> f_error (LogFormatter_new (ld_formatter i)) \<longrightarrow> lg_formatter g = Some (LogFormatter_new (ld_formatter i))"
      "map (ls_appenders S') (lg_appenders g) = map (\<lambda>d. Some (defined_appender openable (lg_formatter g) d)) (ld_appenders i)"
      and fresh: "\<forall>a \<in> set (lg_appenders g). ls_next S \<le> a" and f: "framed S (ld_name i) l S'" by blast
  have own: "owned S' l = set (lg_appenders g)" by (simp add: owned_def c(3))
  have "owned S' k \<inter> owned S' l = {}" if "k \<noteq> l" for k
    using framed_owned [OF f that] fresh owned_bound [OF assms(1), of _ k] unfolding own by fastforce
  then have "configured openable S' i" using c(2,3) d unfolding configured_def by blast
  then show thesis using that [OF c(1) keepsD [OF keeps_configure assms(1) c(1)] _ f c(2)] fresh own by blast
qed

lemma remove_step:
  assumes "log_ok S"
  obtains S' l where "remove_logger name S = Inr S'" "log_ok S'" "silenced S' name" "framed S name l S'"
    "map_find str_less name (ls_table S') = Some l" "owned S' l = {}"
proof -
  from remove_total [OF assms, of name] obtain S' l g where r: "remove_logger name S = Inr S'" "map_find str_less name (ls_table S') = Some l"
      "ls_loggers S' l = Some g" "lg_level g = UNKNOWN" "lg_appenders g = []" "framed S name l S'" by blast
  then have "silenced S' name" "owned S' l = {}" by (simp_all add: silenced_def logger_of_def owned_def)
  then show thesis using that [OF r(1) keepsD [OF keeps_remove assms r(1)] _ r(6) r(2)] by blast
qed

text \<open>What a change of the configuration leaves alone: loggers of other names, and definitions that were applied.\<close>

definition untouched :: "(string \<Rightarrow> bool) \<Rightarrow> string set \<Rightarrow> log_state \<Rightarrow> log_state \<Rightarrow> bool" where
  "untouched openable names S S' \<longleftrightarrow> (\<forall>n. n \<notin> names \<longrightarrow> logger_of S' n = logger_of S n)
     \<and> (\<forall>d. configured openable S d \<longrightarrow> ld_name d \<notin> names \<longrightarrow> configured openable S' d)"

lemma untouched_refl: "untouched openable names S S"
  by (simp add: untouched_def)

lemma untouched_trans: "untouched openable A S T \<Longrightarrow> untouched openable B T U \<Longrightarrow> A \<subseteq> C \<Longrightarrow> B \<subseteq> C \<Longrightarrow> untouched openable C S U"
  unfolding untouched_def by (metis subsetD)

lemma untouched_framed:
  assumes "log_ok S" "framed S name l S'" "log_ok S'" "map_find str_less name (ls_table S') = Some l" "\<And>a. a \<in> owned S' l \<Longrightarrow> ls_next S \<le> a"
  shows "untouched openable {name} S S'"
  using framed_logger [OF assms(2-4)] configured_kept [OF _ assms] by (simp add: untouched_def)

lemma changed_applied:
  assumes "ld.ordered old"
  shows "log_ok S \<Longrightarrow> list_all (\<lambda>i. list_all known_type (ld_appenders i)) new \<Longrightarrow> distinct (map ld_name new) \<Longrightarrow>
    \<exists>S'. configure_changed openable old new S = Inr S' \<and> log_ok S' \<and> untouched openable (ld_name ` (set new - set old)) S S'
      \<and> (\<forall>d \<in> set new - set old. configured openable S' d)"
proof (induction new arbitrary: S)
  case Nil
  then show ?case by (simp add: untouched_refl)
next
  case (Cons i new)
  show ?case
  proof (cases "i \<in> set old")
    case True
    then have "configure_changed openable old (i # new) S = configure_changed openable old new S"
      using ld.find_mem [OF assms, of i] by (simp add: Let_def)
    moreover have "set (i # new) - set old = set new - set old" using True by auto
    ultimately show ?thesis using Cons.IH [OF Cons.prems(1)] Cons.prems(2,3) by simp
  next
    case False
    obtain T l where T: "configure openable i S = Inr T" "log_ok T" "configured openable T i" "framed S (ld_name i) l T"
        "map_find str_less (ld_name i) (ls_table T) = Some l" "\<And>a. a \<in> owned T l \<Longrightarrow> ls_next S \<le> a"
      using configure_step [OF Cons.prems(1), of i openable] Cons.prems(2) by auto
    have first: "untouched openable {ld_name i} S T" by (rule untouched_framed [OF Cons.prems(1) T(4,2,5,6)])
    from Cons.IH [OF T(2)] Cons.prems(2,3) obtain S' where S': "configure_changed openable old new T = Inr S'" "log_ok S'"
        "untouched openable (ld_name ` (set new - set old)) T S'" "\<forall>d \<in> set new - set old. configured openable S' d" by auto
    have "ld_name i \<notin> ld_name ` (set new - set old)" using Cons.prems(3) by auto
    then have "configured openable S' i" using S'(3) T(3) by (simp add: untouched_def)
    moreover have "configure_changed openable old (i # new) S = Inr S'"
      using False ld.find_mem [OF assms, of i] T(1) S'(1) by (auto simp: Let_def)
    moreover have "untouched openable (ld_name ` (set (i # new) - set old)) S S'"
      by (rule untouched_trans [OF first S'(3)]) (use False in auto)
    ultimately show ?thesis using S'(2,4) by auto
  qed
qed

lemma missing_applied:
  assumes "ld.ordered new"
  shows "log_ok S \<Longrightarrow>
    \<exists>S'. remove_missing new old S = Inr S' \<and> untouched openable (ld_name ` set old - ld_name ` set new) S S'
      \<and> (\<forall>n \<in> ld_name ` set old - ld_name ` set new. silenced S' n)
      \<and> (\<forall>n. silenced S n \<longrightarrow> silenced S' n)"
proof (induction old arbitrary: S)
  case Nil
  then show ?case by (simp add: untouched_refl)
next
  case (Cons i old)
  have missing: "set_find define_less i new = length new \<longleftrightarrow> ld_name i \<notin> ld_name ` set new"
  proof -
    have "set_find define_less i new = length new \<longleftrightarrow> \<not> set_find define_less i new < length new"
      using ld.set_find_le [of i new] by linarith
    then show ?thesis using ld.set_find_some [OF assms, of i] by (auto simp: ld_equiv image_iff)
  qed
  show ?case
  proof (cases "ld_name i \<in> ld_name ` set new")
    case True
    then have "ld_name ` set (i # old) - ld_name ` set new = ld_name ` set old - ld_name ` set new" by auto
    with True missing Cons.IH [OF Cons.prems] show ?thesis by simp
  next
    case False
    obtain T l where T: "remove_logger (ld_name i) S = Inr T" "log_ok T" "silenced T (ld_name i)" "framed S (ld_name i) l T"
        "map_find str_less (ld_name i) (ls_table T) = Some l" "owned T l = {}"
      using remove_step [OF Cons.prems] by blast
    have first: "untouched openable {ld_name i} S T" using untouched_framed [OF Cons.prems T(4,2,5)] T(6) by simp
    from Cons.IH [OF T(2)] obtain S' where S': "remove_missing new old T = Inr S'"
        "untouched openable (ld_name ` set old - ld_name ` set new) T S'" "\<forall>n \<in> ld_name ` set old - ld_name ` set new. silenced S' n"
        "\<forall>n. silenced T n \<longrightarrow> silenced S' n" by blast
    have "silenced S' n" if "silenced S n" for n
      using that S'(4) T(3) first by (cases "n = ld_name i") (auto simp: silenced_def untouched_def)
    moreover have "untouched openable (ld_name ` set (i # old) - ld_name ` set new) S S'"
      by (rule untouched_trans [OF first S'(2)]) (use False in auto)
    ultimately show ?thesis using S' T False missing by auto
  qed
qed

lemma ld_distinct: "ld.ordered xs \<Longrightarrow> distinct (map ld_name xs)"
  by (induction xs) (auto simp: define_less_def)

lemma conf_applied:
  assumes "log_ok S" "ld.ordered old" "ld.ordered new" "list_all (\<lambda>i. list_all known_type (ld_appenders i)) new"
  shows "\<exists>S'. on_logger_conf_changed openable old new S = Inr S' \<and> (\<forall>d \<in> set new - set old. configured openable S' d)
    \<and> (\<forall>n \<in> ld_name ` set old - ld_name ` set new. silenced S' n)
    \<and> (\<forall>n. n \<notin> ld_name ` (set new - set old) \<longrightarrow> n \<notin> ld_name ` set old - ld_name ` set new \<longrightarrow> logger_of S' n = logger_of S n)"
proof -
  obtain T where T: "configure_changed openable old new S = Inr T" "log_ok T" "untouched openable (ld_name ` (set new - set old)) S T"
      "\<forall>d \<in> set new - set old. configured openable T d"
    using changed_applied [OF assms(2,1,4) ld_distinct [OF assms(3)]] by blast
  obtain S' where S': "remove_missing new old T = Inr S'" "untouched openable (ld_name ` set old - ld_name ` set new) T S'"
      "\<forall>n \<in> ld_name ` set old - ld_name ` set new. silenced S' n"
    using missing_applied [OF assms(3) T(2)] by blast
  have "\<forall>d \<in> set new - set old. configured openable S' d" using T(4) S'(2) by (auto simp: untouched_def)
  then show ?thesis using T(1,3) S' by (auto simp: on_logger_conf_changed_def untouched_def)
qed

text \<open>Reading a sequence of definitions with different names.\<close>

lemma read_back_name [simp]: "ld_name (read_back d) = ld_name d"
  by (simp add: read_back_def)

lemma read_back_known: "list_all known_type (ld_appenders (read_back d))"
  by (simp add: read_back_def list_all_iff kept_appender_def known_type_def)

lemma logs_from:
  assumes "node_api N" "restores Y (seq_node (map log_define_node ds))" "\<And>d. d \<in> set ds \<Longrightarrow> restores Y (log_define_node d)" "distinct (map ld_name ds)"
  obtains new where "set_from Y define_less (log_define_from Y N) (ya_dump Y (seq_node (map log_define_node ds))) = Inr new"
    "ld.ordered new" "set new = read_back ` set ds"
proof -
  have "sorted_wrt (\<lambda>x y. \<not> ld.equiv x y) (map read_back ds)"
    using assms(4) by (induction ds) (auto simp: ld_equiv)
  then have "ld.ordered (foldl (\<lambda>st x. fst (set_insert define_less x st)) [] (map read_back ds))
      \<and> set (foldl (\<lambda>st x. fst (set_insert define_less x st)) [] (map read_back ds)) = read_back ` set ds"
    using ld.insert_all_fresh [of "[]" "map read_back ds"] by simp
  moreover have "set_from Y define_less (log_define_from Y N) (ya_dump Y (seq_node (map log_define_node ds))) =
      Inr (foldl (\<lambda>st x. fst (set_insert define_less x st)) [] (map read_back ds))"
    using assms(2) read_nodes [of ds "log_define_from Y N" Y log_define_node read_back] log_define_from_node [OF assms(1) assms(3)]
    by (simp add: set_from_def restores_def)
  ultimately show thesis using that by blast
qed

text \<open>The variable as the program registers it, with any value it may have taken since.\<close>

definition logs_var :: "yaml_api \<Rightarrow> yaml_nodes \<Rightarrow> (string \<Rightarrow> bool) \<Rightarrow> (log_define list, log_state) config_var \<Rightarrow> bool" where
  "logs_var Y N openable v \<longleftrightarrow> cv_from v = set_from Y define_less (log_define_from Y N)
     \<and> (\<exists>i. cv_cbs v = [(i, logs_listener openable)]) \<and> ld.ordered (cv_val v)"

definition logs_registry :: "yaml_api \<Rightarrow> yaml_nodes \<Rightarrow> (string \<Rightarrow> bool) \<Rightarrow> log_registry" where
  "logs_registry Y N openable =
     (case g_log_defines Y N [] of
        (Inr (Some v), R) \<Rightarrow> map_put str_less ''logs'' (snd (LogIniter openable 0 v)) R
      | (r, R) \<Rightarrow> R)"

lemma logs_valid: "valid_name ''logs''" "valid_name []"
  by code_simp+

lemma logs_registry_var:
  "sl.ordered_map (logs_registry Y N openable) \<and>
   (\<exists>v. map_find str_less ''logs'' (logs_registry Y N openable) = Some v \<and> logs_var Y N openable v \<and> cv_val v = [])"
  using logs_valid(1)
  by (simp add: logs_registry_def g_log_defines_def Lookup_default_def LogIniter_def addListener_def ConfigVar_new_def logs_var_def Let_def)

lemma table_logger:
  assumes "log_ok S" "(n, l) \<in> set (ls_table S)"
  shows "ls_loggers S l = Some (the (ls_loggers S l)) \<and> lg_name (the (ls_loggers S l)) = n"
proof -
  have "\<forall>(n, l) \<in> set (ls_table S). \<exists>g. ls_loggers S l = Some g \<and> lg_name g = n" using assms(1) by (simp add: log_ok_def)
  from bspec [OF this assms(2)] show ?thesis by auto
qed

lemma appender_text:
  assumes "log_ok S" "ls_loggers S l = Some g" "a \<in> set (lg_appenders g)" "\<And>a p. ls_appenders S a = Some p \<Longrightarrow> restores Y (appender_yaml p)"
  shows "rbind (get_appender S a) (\<lambda>p. ya_load Y (appender_toYamlString Y p)) = Inr (appender_yaml (the (ls_appenders S a)))"
proof -
  obtain p where p: "ls_appenders S a = Some p" using log_ok_logger [OF assms(1,2)] assms(3) by (auto simp: logger_ok_def has_fmt_def)
  then show ?thesis using assms(4) [OF p] by (simp add: get_appender_def appender_toYamlString_def appender_yaml_def restores_def)
qed

lemma manager_text:
  assumes "log_ok S" "\<And>a p. ls_appenders S a = Some p \<Longrightarrow> restores Y (appender_yaml p)"
    and "\<And>l g. ls_loggers S l = Some g \<Longrightarrow> restores Y (logger_yaml S g)"
  shows "LoggerManager_toYamlString Y S = Inr (ya_dump Y (table_yaml S))"
proof -
  have "each (\<lambda>a. rbind (get_appender S a) (\<lambda>p. ya_load Y (appender_toYamlString Y p))) (lg_appenders g) =
      Inr (map (\<lambda>a. appender_yaml (the (ls_appenders S a))) (lg_appenders g))" if "ls_loggers S l = Some g" for l g
    by (intro each_map appender_text [OF assms(1) that]) (auto intro: assms(2))
  then have "Logger_toYamlString Y S l = Inr (ya_dump Y (logger_yaml S g))" if "ls_loggers S l = Some g" for l g
    using that by (simp add: Logger_toYamlString_def get_logger_def logger_yaml_def)
  then have "rbind (Logger_toYamlString Y S l) (ya_load Y) = Inr (logger_yaml S (the (ls_loggers S l)))" if "(n, l) \<in> set (ls_table S)" for n l
    using table_logger [OF assms(1) that] assms(3) by (metis rbind_simps(2) restores_def)
  then have "each (\<lambda>(n, l). rbind (Logger_toYamlString Y S l) (ya_load Y)) (ls_table S) =
      Inr (map (\<lambda>(n, l). logger_yaml S (the (ls_loggers S l))) (ls_table S))"
    by (intro each_map) auto
  then show ?thesis by (simp add: LoggerManager_toYamlString_def table_yaml_def)
qed

section \<open>Properties\<close>


text \<open>
  \<^bold>\<open>C40\<close>. The text of the manager. In every state of the log, \<open>LoggerManager::toYamlString\<close> returns a text which
  the cast of the variable \<open>logs\<close> reads back as one definition for each logger, in the order of their names: the name, the level,
  the pattern, and for each appender its type, its file and its own pattern; only the levels of the appenders are lost.
\<close>

theorem log_yaml_describes:
  assumes "log_run tmf S" "\<And>f t. length (tmf f t) < 32" "node_api N"
    and "\<And>a p. ls_appenders S a = Some p \<Longrightarrow> restores Y (appender_yaml p)"
    and "\<And>l g. ls_loggers S l = Some g \<Longrightarrow> restores Y (logger_yaml S g)" "restores Y (table_yaml S)"
  shows "rbind (LoggerManager_toYamlString Y S) (set_from Y define_less (log_define_from Y N)) =
      Inr (map (\<lambda>(n, l). read_back (describe S (the (ls_loggers S l)))) (ls_table S))
    \<and> (\<forall>(n, l) \<in> set (ls_table S). \<exists>g. ls_loggers S l = Some g \<and> ld_name (describe S g) = n)"
proof -
  have ok: "log_ok S" by (rule log_run_ok [OF assms(2,1)])
  note table = table_logger [OF ok] and printed = manager_text [OF ok assms(4,5)]
  let ?val = "\<lambda>(n :: string, l). read_back (describe S (the (ls_loggers S l)))"
  have "(log_define_from Y N) (ya_dump Y (case e of (n, l) \<Rightarrow> logger_yaml S (the (ls_loggers S l)))) = Inr (?val e)" if "e \<in> set (ls_table S)" for e
  proof -
    obtain n l where e: "e = (n, l)" by force
    then have "ls_loggers S l = Some (the (ls_loggers S l))" using that table by blast
    from log_define_from_yaml [OF assms(3) assms(5) [OF this]] show ?thesis by (simp add: e)
  qed
  note read = read_nodes [of "ls_table S" "log_define_from Y N" Y "\<lambda>(n, l). logger_yaml S (the (ls_loggers S l))" ?val, OF this]
  have "sl.ordered_map (ls_table S)" using ok by (simp add: log_ok_def)
  then have "sorted_wrt (\<lambda>x y. define_less (?val x) (?val y)) (ls_table S)"
    by (rule sorted_wrt_mono_rel [rotated]) (auto simp: define_less_def describe_def dest!: table)
  then have "ld.ordered (map ?val (ls_table S))" by (simp add: sorted_wrt_map)
  then have "foldl (\<lambda>st x. fst (set_insert define_less x st)) [] (map ?val (ls_table S)) = map ?val (ls_table S)"
    using ld.insert_all [of "[]"] by simp
  then show ?thesis
    using assms(6) read table by (auto simp: printed set_from_def restores_def table_yaml_def describe_def)
qed

section \<open>Examples\<close>

text \<open>A YAML library that knows finitely many documents, and the accesses to nodes as documented.\<close>

definition book :: "(string \<times> yaml) list \<Rightarrow> yaml_api" where
  "book es = \<lparr>ya_load = (\<lambda>s. case map_of es s of Some n \<Rightarrow> Inr n | None \<Rightarrow> Inl Yaml_error),
     ya_dump = (\<lambda>n. case find (\<lambda>e. snd e = n) es of Some e \<Rightarrow> fst e | None \<Rightarrow> []), ya_odd = (\<lambda>n i. [])\<rparr>"

lemma book_restores:
  assumes "distinct (map fst es)" "n \<in> snd ` set es"
  shows "restores (book es) n"
proof -
  obtain e where e: "find (\<lambda>e. snd e = n) es = Some e" using assms(2) by (cases "find (\<lambda>e. snd e = n) es") (auto simp: find_None_iff)
  then have "e \<in> set es" "snd e = n" by (auto simp: find_Some_iff)
  with e show ?thesis using map_of_is_SomeI [OF assms(1), of "fst e" n] by (auto simp: restores_def book_def)
qed

definition plain_nodes :: yaml_nodes where
  "plain_nodes = \<lparr>yn_field = (\<lambda>n k. Inr (map_of (map (\<lambda>(x, y). (y_Scalar x, y)) (y_pairs n)) k)),
     yn_at = (\<lambda>n i. case n of YSeq ns \<Rightarrow> ns ! i | _ \<Rightarrow> YNull), yn_string = (\<lambda>n. Inr (y_Scalar n))\<rparr>"

lemma plain_nodes_ok: "node_api plain_nodes"
  by (simp add: node_api_def plain_nodes_def)

definition system_book :: yaml_api where
  "system_book = book [(''S'', seq_node [log_define_node demo_define]), (''D'', log_define_node demo_define)]"


definition start_book :: yaml_api where
  "start_book = book [(''T'', table_yaml LoggerManager_new), (''L'', logger_yaml LoggerManager_new (the (ls_loggers LoggerManager_new 0))),
     (''A'', appender_yaml (the (ls_appenders LoggerManager_new 1)))]"

theorem log_yaml_describes_witness:
  "rbind (LoggerManager_toYamlString start_book LoggerManager_new) (set_from start_book define_less (log_define_from start_book plain_nodes)) =
   Inr [\<lparr>ld_name = ''root'', ld_level = DEBUG, ld_formatter = default_format,
      ld_appenders = [\<lparr>ad_type = 2, ad_level = UNKNOWN, ad_formatter = [], ad_file = []\<rparr>]\<rparr>]"
proof -
  let ?S = LoggerManager_new
  have a: "restores start_book (appender_yaml p)" if "ls_appenders ?S a = Some p" for a p
  proof -
    have "p = the (ls_appenders ?S 1)" using that by (simp add: LoggerManager_new_def split: if_splits)
    then show ?thesis by (auto simp: start_book_def intro!: book_restores)
  qed
  have l: "restores start_book (logger_yaml ?S g)" if "ls_loggers ?S l = Some g" for l g
  proof -
    have "g = the (ls_loggers ?S 0)" using that by (simp add: LoggerManager_new_def split: if_splits)
    then show ?thesis by (auto simp: start_book_def intro!: book_restores)
  qed
  have t: "restores start_book (table_yaml ?S)" "\<And>f t. length ((\<lambda>_ _. ''now'') f t) < 32" by (auto simp: start_book_def intro!: book_restores)
  have "f_pattern (LogFormatter_new default_format) = default_format" by (simp add: LogFormatter_new_def split: prod.split)
  then have "map (\<lambda>(n, l). read_back (describe ?S (the (ls_loggers ?S l)))) (ls_table ?S) =
      [\<lparr>ld_name = ''root'', ld_level = DEBUG, ld_formatter = default_format,
        ld_appenders = [\<lparr>ad_type = 2, ad_level = UNKNOWN, ad_formatter = [], ad_file = []\<rparr>]\<rparr>]"
    by (simp add: LoggerManager_new_def describe_def describe_appender_def read_back_def Logger_new_def LogAppender_new_def known_type_def kept_appender_def)
  with log_yaml_describes [OF run_start t(2) plain_nodes_ok a l t(1)] show ?thesis by simp
qed

end
