(* ===== verification/Hook.thy ===== *)
theory Hook
  imports Socket Fiber Config
begin

text \<open>
  windgent/hook.h and windgent/hook.cc: the calls of the C library that are replaced so that a fiber that
  would block its thread waits in the I/O manager instead. A hooked call that has to wait is split at
  \<open>YieldToHold\<close>: \<open>do_io\<close> returns \<open>Waiting\<close> with the variables that are live across the switch, and \<open>do_io_resume\<close>
  is the code after it. The state puts together the models of the components the file calls: the
  descriptor table, the timers, the I/O manager of the calling thread and its fibers. The original
  functions (\<open>read_f\<close> and the others) are arguments: functions on the state of the kernel that give a result
  and the error number for a result of -1. Addresses of new objects, the time, and whether \<open>epoll_ctl\<close>
  succeeds are the record \<open>call_env\<close>.
\<close>

section \<open>State\<close>

text \<open>The closures handed to timers: the one of \<open>do_io\<close> and \<open>connect_with_timeout\<close>, and the one of the sleeps.\<close>

datatype closure = Cancel_io nat int u32 | Wake nat

text \<open>
  \<open>h_conds\<close> are the \<open>timer_cond\<close> objects that are alive, with the value of \<open>cancelled\<close>; \<open>h_calls\<close> the closures behind the
  numbers of the timer callbacks; \<open>h_front\<close> counts the calls of \<open>onTimerInsertedAtFront\<close>.
\<close>

record 'w hook =
  h_fds :: fd_manager
  h_timers :: timer_manager
  h_iom :: iomanager
  h_thread :: fiber_thread
  h_conds :: "nat \<rightharpoonup> int"
  h_calls :: "nat \<rightharpoonup> closure"
  h_front :: nat
  h_errno :: int
  t_hook_enable :: bool
  s_connect_timeout :: u64
  h_os :: 'w

record call_env =
  ce_now :: u64
  ce_timer :: nat
  ce_call :: nat
  ce_cond :: nat
  ce_ctx :: nat
  ce_main :: nat
  ce_ctl :: bool
  ce_ctl_errno :: int
  ce_iom :: "nat option"

type_synonym 'w sysc = "kernel \<times> 'w \<Rightarrow> int \<times> int \<times> kernel \<times> 'w"

abbreviation EINTR :: int where "EINTR \<equiv> 4"
abbreviation EBADF :: int where "EBADF \<equiv> 9"
abbreviation EAGAIN :: int where "EAGAIN \<equiv> 11"
abbreviation ETIMEDOUT :: int where "ETIMEDOUT \<equiv> 110"
abbreviation EINPROGRESS :: int where "EINPROGRESS \<equiv> 115"

definition syscall :: "'w sysc \<Rightarrow> 'w hook \<Rightarrow> int \<times> 'w hook" where
  "syscall f h =
     (let (n, e, k, w) = f (fm_kernel (h_fds h), h_os h) in
      (n, h\<lparr>h_fds := (h_fds h)\<lparr>fm_kernel := k\<rparr>, h_os := w, h_errno := (if n = - 1 then e else h_errno h)\<rparr>))"

text \<open>\<open>FdMgr::GetInstance()->get(fd)\<close>, and assignments through the pointer.\<close>

definition ctx_at :: "'w hook \<Rightarrow> int \<Rightarrow> (nat \<times> fd_ctx) option result" where
  "ctx_at h fd =
     rbind (fm_get 0 (h_fds h) fd False) (\<lambda>(r, _).
       case r of
         None \<Rightarrow> Inr None
       | Some p \<Rightarrow> (case fm_heap (h_fds h) p of None \<Rightarrow> Inl Null_deref | Some c \<Rightarrow> Inr (Some (p, c))))"

definition put_ctx :: "'w hook \<Rightarrow> nat \<Rightarrow> fd_ctx \<Rightarrow> 'w hook" where
  "put_ctx h p c = h\<lparr>h_fds := (h_fds h)\<lparr>fm_heap := (fm_heap (h_fds h))(p \<mapsto> c)\<rparr>\<rparr>"

section \<open>Initialisation\<close>

text \<open>\<open>_HOOKIniter\<close>: an \<open>int\<close> is converted to \<open>uint64_t\<close>, at the start and by the listener.\<close>

definition on_connect_timeout :: "(i32, 'w hook) listener" where
  "on_connect_timeout old_val new_val h = (None, h\<lparr>s_connect_timeout := scast new_val\<rparr>)"

definition HOOKIniter :: "u64 \<Rightarrow> (i32, 'w hook) config_var \<Rightarrow> 'w hook \<Rightarrow> (i32, 'w hook) config_var \<times> 'w hook" where
  "HOOKIniter s_func_id v h =
     (snd (addListener s_func_id v on_connect_timeout), h\<lparr>s_connect_timeout := scast (cv_val v)\<rparr>)"

definition set_hook_enable :: "bool \<Rightarrow> 'w hook \<Rightarrow> 'w hook" where
  "set_hook_enable flag h = h\<lparr>t_hook_enable := flag\<rparr>"

section \<open>Waiting for a descriptor\<close>

text \<open>The condition timer, armed unless the timeout is -1, and its cancellation.\<close>

definition arm :: "call_env \<Rightarrow> u64 \<Rightarrow> nat \<Rightarrow> int \<Rightarrow> u32 \<Rightarrow> 'w hook \<Rightarrow> nat option \<times> 'w hook" where
  "arm env to cond fd event h =
     (if to = - 1 then (None, h)
      else
        let (front, tm) = addCondTimer (ce_now env) (ce_timer env) (h_timers h) to (Callback (ce_call env)) cond False in
        (Some (ce_timer env), h\<lparr>h_timers := tm, h_calls := (h_calls h)(ce_call env \<mapsto> Cancel_io cond fd event),
           h_front := h_front h + (if front then 1 else 0)\<rparr>))"

definition disarm :: "nat option \<Rightarrow> 'w hook \<Rightarrow> 'w hook result" where
  "disarm timer h =
     (case timer of
        None \<Rightarrow> Inr h
      | Some p \<Rightarrow> rbind (cancel (h_timers h) p) (\<lambda>(_, tm). Inr (h\<lparr>h_timers := tm\<rparr>)))"

text \<open>\<open>iom->addEvent(fd, event)\<close> without a callback: the current fiber is registered.\<close>

definition watch :: "call_env \<Rightarrow> int \<Rightarrow> u32 \<Rightarrow> 'w hook \<Rightarrow> (int \<times> 'w hook) result" where
  "watch env fd event h =
     (let (fib, th) = GetThis (ce_main env) (h_thread h) in
      rbind (addEvent (ce_iom env) fib (m_state (the_fiber th fib)) (ce_ctl env) (h_iom h) fd event None) (\<lambda>(ret, m).
        Inr (ret, if ret = 0 then h\<lparr>h_iom := m, h_thread := th\<rparr> else h\<lparr>h_iom := m, h_errno := ce_ctl_errno env\<rparr>)))"

definition yield_hold :: "call_env \<Rightarrow> 'w hook \<Rightarrow> 'w hook result" where
  "yield_hold env h = rbind (YieldToHold (ce_main env) (h_thread h)) (\<lambda>th. Inr (h\<lparr>h_thread := th\<rparr>))"

text \<open>The closure of the timer; \<open>ok\<close> says whether \<open>epoll_ctl\<close> succeeds.\<close>

definition io_timeout :: "bool \<Rightarrow> nat \<Rightarrow> int \<Rightarrow> u32 \<Rightarrow> 'w hook \<Rightarrow> 'w hook result" where
  "io_timeout ok cond fd event h =
     (case h_conds h cond of
        None \<Rightarrow> Inr h
      | Some cancelled \<Rightarrow>
          if cancelled \<noteq> 0 then Inr h
          else rbind (cancelEvent ok (h_iom h) fd event) (\<lambda>(_, m).
            Inr (h\<lparr>h_conds := (h_conds h)(cond \<mapsto> ETIMEDOUT), h_iom := m\<rparr>)))"

text \<open>
  The callback of an expired timer: \<open>Ontimer\<close> runs what it wraps if the condition is alive; \<open>Wake\<close> is
  \<open>schedule(fiber, -1)\<close> on the scheduler \<open>iom\<close>.
\<close>

definition run_closure :: "nat \<Rightarrow> bool \<Rightarrow> closure \<Rightarrow> 'w hook \<Rightarrow> 'w hook result" where
  "run_closure iom ok c h =
     (case c of
        Cancel_io cond fd event \<Rightarrow> io_timeout ok cond fd event h
      | Wake fib \<Rightarrow> Inr (h\<lparr>h_iom := (h_iom h)\<lparr>scheduled := scheduled (h_iom h) @ [(iom, fiber_task fib (- 1))]\<rparr>\<rparr>))"

fun run_timer_cb :: "nat \<Rightarrow> bool \<Rightarrow> callback \<Rightarrow> 'w hook \<Rightarrow> 'w hook result" where
  "run_timer_cb iom ok (Callback n) h = (case h_calls h n of None \<Rightarrow> Inr h | Some c \<Rightarrow> run_closure iom ok c h)"
| "run_timer_cb iom ok (Ontimer cond cb) h = (if h_conds h cond \<noteq> None then run_timer_cb iom ok cb h else Inr h)"

section \<open>do\_io\<close>

record io_call =
  ioc_fd :: int
  ioc_event :: u32
  ioc_to :: u64
  ioc_cond :: nat
  ioc_timer :: "nat option"

datatype io_next = Returned int | Waiting io_call

text \<open>The call and the loop that repeats it while it is interrupted.\<close>

partial_function (option) uninterrupted :: "'w sysc \<Rightarrow> 'w hook \<Rightarrow> (int \<times> 'w hook) option" where
  "uninterrupted f h =
     (let (n, h) = syscall f h in if n = - 1 \<and> h_errno h = EINTR then uninterrupted f h else Some (n, h))"

text \<open>\<open>tcond\<close> dies with the call.\<close>

definition returned :: "nat \<Rightarrow> int \<Rightarrow> 'w hook \<Rightarrow> io_next \<times> 'w hook" where
  "returned cond n h = (Returned n, h\<lparr>h_conds := (h_conds h)(cond := None)\<rparr>)"

definition io_wait :: "call_env \<Rightarrow> io_call \<Rightarrow> 'w hook \<Rightarrow> (io_next \<times> 'w hook) result" where
  "io_wait env c h =
     (if ce_iom env = None then Inl Null_deref
      else
        let (timer, h) = arm env (ioc_to c) (ioc_cond c) (ioc_fd c) (ioc_event c) h in
        rbind (watch env (ioc_fd c) (ioc_event c) h) (\<lambda>(ret, h).
          if ret \<noteq> 0 then rbind (disarm timer h) (\<lambda>h. Inr (returned (ioc_cond c) (- 1) h))
          else rbind (yield_hold env h) (\<lambda>h. Inr (Waiting (c\<lparr>ioc_timer := timer\<rparr>), h))))"

text \<open>From the label \<open>retry\<close> to the switch or the return.\<close>

definition io_try :: "call_env \<Rightarrow> 'w sysc \<Rightarrow> io_call \<Rightarrow> 'w hook \<Rightarrow> (io_next \<times> 'w hook) result option" where
  "io_try env f c h =
     (case uninterrupted f h of
        None \<Rightarrow> None
      | Some (n, h) \<Rightarrow>
          Some (if n = - 1 \<and> h_errno h = EAGAIN then io_wait env c h else Inr (returned (ioc_cond c) n h)))"

definition pass :: "'w sysc \<Rightarrow> 'w hook \<Rightarrow> (io_next \<times> 'w hook) result option" where
  "pass f h = (let (n, h) = syscall f h in Some (Inr (Returned n, h)))"

definition do_io :: "call_env \<Rightarrow> int \<Rightarrow> 'w sysc \<Rightarrow> u32 \<Rightarrow> bool \<Rightarrow> 'w hook \<Rightarrow> (io_next \<times> 'w hook) result option" where
  "do_io env fd f event rcv h =
     (if \<not> t_hook_enable h then pass f h
      else obind (Some (ctx_at h fd)) (\<lambda>ctx.
        case ctx of
          None \<Rightarrow> pass f h
        | Some (p, c) \<Rightarrow>
            if m_isClosed c then Some (Inr (Returned (- 1), h\<lparr>h_errno := EBADF\<rparr>))
            else if \<not> m_isSocket c \<or> m_userNonblock c then pass f h
            else io_try env f
              \<lparr>ioc_fd = fd, ioc_event = event, ioc_to = getTimeout c rcv, ioc_cond = ce_cond env, ioc_timer = None\<rparr>
              (h\<lparr>h_conds := (h_conds h)(ce_cond env \<mapsto> 0)\<rparr>)))"

text \<open>After the switch: the fiber executes again.\<close>

definition do_io_resume :: "call_env \<Rightarrow> 'w sysc \<Rightarrow> io_call \<Rightarrow> 'w hook \<Rightarrow> (io_next \<times> 'w hook) result option" where
  "do_io_resume env f c h =
     obind (Some (disarm (ioc_timer c) h)) (\<lambda>h.
       case h_conds h (ioc_cond c) of
         None \<Rightarrow> Some (Inl Null_deref)
       | Some cancelled \<Rightarrow>
           if cancelled \<noteq> 0 then Some (Inr (returned (ioc_cond c) (- 1) (h\<lparr>h_errno := cancelled\<rparr>)))
           else io_try env f c h)"

section \<open>Sleeping\<close>

text \<open>The part the three sleeps share: a timer that schedules the fiber, and the switch.\<close>

definition sleep_for :: "call_env \<Rightarrow> u64 \<Rightarrow> 'w hook \<Rightarrow> 'w hook result" where
  "sleep_for env ms h =
     (let (fib, th) = GetThis (ce_main env) (h_thread h) in
      if ce_iom env = None then Inl Null_deref
      else
        let (front, tm) = addTimer (ce_now env) (ce_timer env) (h_timers h) ms (Some (Callback (ce_call env))) False in
        yield_hold env (h\<lparr>h_thread := th, h_timers := tm, h_calls := (h_calls h)(ce_call env \<mapsto> Wake fib),
          h_front := h_front h + (if front then 1 else 0)\<rparr>))"

text \<open>\<open>Some n\<close>: the original function returned \<open>n\<close>; \<open>None\<close>: the fiber sleeps, and the call returns 0 when it is switched in.\<close>

definition hook_sleep :: "call_env \<Rightarrow> 'w sysc \<Rightarrow> u32 \<Rightarrow> 'w hook \<Rightarrow> (int option \<times> 'w hook) result" where
  "hook_sleep env sleep_f seconds h =
     (if \<not> t_hook_enable h then let (n, h) = syscall sleep_f h in Inr (Some n, h)
      else rbind (sleep_for env (ucast (seconds * 1000)) h) (\<lambda>h. Inr (None, h)))"

definition hook_usleep :: "call_env \<Rightarrow> 'w sysc \<Rightarrow> u32 \<Rightarrow> 'w hook \<Rightarrow> (int option \<times> 'w hook) result" where
  "hook_usleep env usleep_f usec h =
     (if \<not> t_hook_enable h then let (n, h) = syscall usleep_f h in Inr (Some n, h)
      else rbind (sleep_for env (ucast (usec div 1000)) h) (\<lambda>h. Inr (None, h)))"

definition c_div :: "int \<Rightarrow> int \<Rightarrow> int" where
  "c_div a b = sgn a * sgn b * (\<bar>a\<bar> div \<bar>b\<bar>)"

definition nanosleep_ms :: "int \<Rightarrow> int \<Rightarrow> u64" where
  "nanosleep_ms tv_sec tv_nsec = scast (word_of_int (tv_sec * 1000 + c_div (c_div tv_nsec 1000) 1000) :: i32)"

definition hook_nanosleep :: "call_env \<Rightarrow> 'w sysc \<Rightarrow> int \<Rightarrow> int \<Rightarrow> 'w hook \<Rightarrow> (int option \<times> 'w hook) result" where
  "hook_nanosleep env nanosleep_f tv_sec tv_nsec h =
     (if \<not> t_hook_enable h then let (n, h) = syscall nanosleep_f h in Inr (Some n, h)
      else rbind (sleep_for env (nanosleep_ms tv_sec tv_nsec) h) (\<lambda>h. Inr (None, h)))"

section \<open>Sockets\<close>

definition hook_socket :: "call_env \<Rightarrow> 'w sysc \<Rightarrow> 'w hook \<Rightarrow> (int \<times> 'w hook) result" where
  "hook_socket env socket_f h =
     (let (fd, h') = syscall socket_f h in
      if \<not> t_hook_enable h \<or> fd = - 1 then Inr (fd, h')
      else rbind (fm_get (ce_ctx env) (h_fds h') fd True) (\<lambda>(_, fds). Inr (fd, h'\<lparr>h_fds := fds\<rparr>)))"

text \<open>\<open>getsockopt\<close> is passed on; its result has the value that is stored through \<open>optval\<close>.\<close>

type_synonym 'w getopt = "int \<Rightarrow> int \<Rightarrow> int \<Rightarrow> kernel \<times> 'w \<Rightarrow> int \<times> int \<times> optval \<times> kernel \<times> 'w"

definition hook_getsockopt :: "'w getopt \<Rightarrow> int \<Rightarrow> int \<Rightarrow> int \<Rightarrow> 'w hook \<Rightarrow> int \<times> optval \<times> 'w hook" where
  "hook_getsockopt getsockopt_f sockfd level optname h =
     (let (n, e, v, k, w) = getsockopt_f sockfd level optname (fm_kernel (h_fds h), h_os h) in
      (n, v, h\<lparr>h_fds := (h_fds h)\<lparr>fm_kernel := k\<rparr>, h_os := w, h_errno := (if n = - 1 then e else h_errno h)\<rparr>))"

text \<open>The end of \<open>connect_with_timeout\<close>: \<open>SO_ERROR\<close> decides.\<close>

definition connect_result :: "'w getopt \<Rightarrow> int \<Rightarrow> nat \<Rightarrow> 'w hook \<Rightarrow> io_next \<times> 'w hook" where
  "connect_result getsockopt_f sockfd cond h =
     (let (n, v, h) = hook_getsockopt getsockopt_f sockfd SOL_SOCKET SO_ERROR h;
          error = (case v of Opt_int e \<Rightarrow> e | _ \<Rightarrow> 0) in
      if n = - 1 then returned cond (- 1) h
      else if error = 0 then returned cond 0 h
      else returned cond (- 1) (h\<lparr>h_errno := error\<rparr>))"

definition connect_wait :: "call_env \<Rightarrow> 'w getopt \<Rightarrow> int \<Rightarrow> u64 \<Rightarrow> 'w hook \<Rightarrow> (io_next \<times> 'w hook) result" where
  "connect_wait env getsockopt_f sockfd timeout_ms h =
     (if ce_iom env = None then Inl Null_deref
      else
        let cond = ce_cond env;
            (timer, h) = arm env timeout_ms cond sockfd WRITE (h\<lparr>h_conds := (h_conds h)(cond \<mapsto> 0)\<rparr>) in
        rbind (watch env sockfd WRITE h) (\<lambda>(ret, h).
          if ret = 0 then
            rbind (yield_hold env h) (\<lambda>h.
              Inr (Waiting \<lparr>ioc_fd = sockfd, ioc_event = WRITE, ioc_to = timeout_ms, ioc_cond = cond, ioc_timer = timer\<rparr>, h))
          else rbind (disarm timer h) (\<lambda>h. Inr (connect_result getsockopt_f sockfd cond h))))"

definition connect_with_timeout ::
  "call_env \<Rightarrow> 'w sysc \<Rightarrow> 'w getopt \<Rightarrow> int \<Rightarrow> u64 \<Rightarrow> 'w hook \<Rightarrow> (io_next \<times> 'w hook) result" where
  "connect_with_timeout env connect_f getsockopt_f sockfd timeout_ms h =
     (let orig = (let (n, h) = syscall connect_f h in Inr (Returned n, h)) in
      if \<not> t_hook_enable h then orig
      else rbind (ctx_at h sockfd) (\<lambda>ctx.
        case ctx of
          None \<Rightarrow> Inr (Returned (- 1), h\<lparr>h_errno := EBADF\<rparr>)
        | Some (p, c) \<Rightarrow>
            if m_isClosed c then Inr (Returned (- 1), h\<lparr>h_errno := EBADF\<rparr>)
            else if \<not> m_isSocket c \<or> m_userNonblock c then orig
            else
              let (n, h) = syscall connect_f h in
              if n = 0 then Inr (Returned 0, h)
              else if n \<noteq> - 1 \<or> h_errno h \<noteq> EINPROGRESS then Inr (Returned n, h)
              else connect_wait env getsockopt_f sockfd timeout_ms h))"

definition connect_resume :: "'w getopt \<Rightarrow> io_call \<Rightarrow> 'w hook \<Rightarrow> (io_next \<times> 'w hook) result" where
  "connect_resume getsockopt_f c h =
     rbind (disarm (ioc_timer c) h) (\<lambda>h.
       case h_conds h (ioc_cond c) of
         None \<Rightarrow> Inl Null_deref
       | Some cancelled \<Rightarrow>
           if cancelled \<noteq> 0 then Inr (returned (ioc_cond c) (- 1) (h\<lparr>h_errno := cancelled\<rparr>))
           else Inr (connect_result getsockopt_f (ioc_fd c) (ioc_cond c) h))"

definition hook_connect :: "call_env \<Rightarrow> 'w sysc \<Rightarrow> 'w getopt \<Rightarrow> int \<Rightarrow> 'w hook \<Rightarrow> (io_next \<times> 'w hook) result" where
  "hook_connect env connect_f getsockopt_f sockfd h =
     connect_with_timeout env connect_f getsockopt_f sockfd (s_connect_timeout h) h"

text \<open>\<open>accept\<close>: the descriptor is an \<open>int\<close>; a new one gets its context, whether the call had to wait or not.\<close>

definition accept_done :: "call_env \<Rightarrow> io_next \<times> 'w hook \<Rightarrow> (io_next \<times> 'w hook) result" where
  "accept_done env r =
     (case r of
        (Waiting c, h) \<Rightarrow> Inr (Waiting c, h)
      | (Returned fd, h) \<Rightarrow>
          if 0 \<le> fd then rbind (fm_get (ce_ctx env) (h_fds h) fd True) (\<lambda>(_, fds). Inr (Returned fd, h\<lparr>h_fds := fds\<rparr>))
          else Inr (Returned fd, h))"

definition hook_accept :: "call_env \<Rightarrow> 'w sysc \<Rightarrow> int \<Rightarrow> 'w hook \<Rightarrow> (io_next \<times> 'w hook) result option" where
  "hook_accept env accept_f sockfd h = obind (do_io env sockfd accept_f READ True h) (\<lambda>r. Some (accept_done env r))"

definition hook_accept_resume :: "call_env \<Rightarrow> 'w sysc \<Rightarrow> io_call \<Rightarrow> 'w hook \<Rightarrow> (io_next \<times> 'w hook) result option" where
  "hook_accept_resume env accept_f c h = obind (do_io_resume env accept_f c h) (\<lambda>r. Some (accept_done env r))"

text \<open>The calls that only differ in the original function, the event and the timeout.\<close>

definition hook_read :: "call_env \<Rightarrow> 'w sysc \<Rightarrow> int \<Rightarrow> 'w hook \<Rightarrow> (io_next \<times> 'w hook) result option" where
  "hook_read env read_f fd h = do_io env fd read_f READ True h"

definition hook_readv :: "call_env \<Rightarrow> 'w sysc \<Rightarrow> int \<Rightarrow> 'w hook \<Rightarrow> (io_next \<times> 'w hook) result option" where
  "hook_readv env readv_f fd h = do_io env fd readv_f READ True h"

definition hook_recv :: "call_env \<Rightarrow> 'w sysc \<Rightarrow> int \<Rightarrow> 'w hook \<Rightarrow> (io_next \<times> 'w hook) result option" where
  "hook_recv env recv_f sockfd h = do_io env sockfd recv_f READ True h"

definition hook_recvfrom :: "call_env \<Rightarrow> 'w sysc \<Rightarrow> int \<Rightarrow> 'w hook \<Rightarrow> (io_next \<times> 'w hook) result option" where
  "hook_recvfrom env recvfrom_f sockfd h = do_io env sockfd recvfrom_f READ True h"

definition hook_recvmsg :: "call_env \<Rightarrow> 'w sysc \<Rightarrow> int \<Rightarrow> 'w hook \<Rightarrow> (io_next \<times> 'w hook) result option" where
  "hook_recvmsg env recvmsg_f sockfd h = do_io env sockfd recvmsg_f READ True h"

definition hook_write :: "call_env \<Rightarrow> 'w sysc \<Rightarrow> int \<Rightarrow> 'w hook \<Rightarrow> (io_next \<times> 'w hook) result option" where
  "hook_write env write_f fd h = do_io env fd write_f WRITE False h"

definition hook_writev :: "call_env \<Rightarrow> 'w sysc \<Rightarrow> int \<Rightarrow> 'w hook \<Rightarrow> (io_next \<times> 'w hook) result option" where
  "hook_writev env writev_f fd h = do_io env fd writev_f WRITE False h"

definition hook_send :: "call_env \<Rightarrow> 'w sysc \<Rightarrow> int \<Rightarrow> 'w hook \<Rightarrow> (io_next \<times> 'w hook) result option" where
  "hook_send env send_f sockfd h = do_io env sockfd send_f WRITE False h"

definition hook_sendto :: "call_env \<Rightarrow> 'w sysc \<Rightarrow> int \<Rightarrow> 'w hook \<Rightarrow> (io_next \<times> 'w hook) result option" where
  "hook_sendto env sendto_f sockfd h = do_io env sockfd sendto_f WRITE False h"

definition hook_sendmsg :: "call_env \<Rightarrow> 'w sysc \<Rightarrow> int \<Rightarrow> 'w hook \<Rightarrow> (io_next \<times> 'w hook) result option" where
  "hook_sendmsg env sendmsg_f sockfd h = do_io env sockfd sendmsg_f WRITE False h"

section \<open>Descriptors\<close>

definition hook_close :: "call_env \<Rightarrow> 'w sysc \<Rightarrow> int \<Rightarrow> 'w hook \<Rightarrow> (int \<times> 'w hook) result" where
  "hook_close env close_f fd h =
     (if \<not> t_hook_enable h then Inr (syscall close_f h)
      else rbind (ctx_at h fd) (\<lambda>ctx.
        if ctx = None then Inr (syscall close_f h)
        else
          rbind (if ce_iom env = None then Inr h
                 else rbind (cancelAll (ce_ctl env) (h_iom h) fd) (\<lambda>(_, m). Inr (h\<lparr>h_iom := m\<rparr>))) (\<lambda>h.
          rbind (fm_del (h_fds h) fd) (\<lambda>fds. Inr (syscall close_f (h\<lparr>h_fds := fds\<rparr>))))))"

text \<open>
  \<open>fcntl\<close> with the argument that \<open>va_arg\<close> reads: none, an \<open>int\<close> or a pointer. Reading an argument of another kind than
  was passed is undefined.
\<close>

datatype fcntl_arg = No_arg | Int_arg i32 | Ptr_arg nat

type_synonym 'w fcntl_fun = "int \<Rightarrow> int \<Rightarrow> fcntl_arg \<Rightarrow> 'w sysc"

definition O_NONBLOCK :: i32 where "O_NONBLOCK = 0x800"

abbreviation F_GETFL :: int where "F_GETFL \<equiv> 3"
abbreviation F_SETFL :: int where "F_SETFL \<equiv> 4"

text \<open>
  The commands of the three groups, with the numbers of Linux: with an \<open>int\<close> argument (\<open>F_DUPFD\<close>, \<open>F_DUPFD_CLOEXEC\<close>,
  \<open>F_SETFD\<close>, \<open>F_SETOWN\<close>, \<open>F_SETSIG\<close>, \<open>F_SETLEASE\<close>, \<open>F_NOTIFY\<close>, \<open>F_SETPIPE_SZ\<close>), without (\<open>F_GETFD\<close>, \<open>F_GETOWN\<close>, \<open>F_GETSIG\<close>, \<open>F_GETLEASE\<close>,
  \<open>F_GETPIPE_SZ\<close>), with a pointer (\<open>F_SETLK\<close>, \<open>F_SETLKW\<close>, \<open>F_GETLK\<close>, \<open>F_GETOWN_EX\<close>, \<open>F_SETOWN_EX\<close>).
\<close>

definition int_cmds :: "int list" where
  "int_cmds = [0, 1030, 2, 8, 10, 1024, 1026, 1031]"

definition plain_cmds :: "int list" where
  "plain_cmds = [1, 9, 11, 1025, 1032]"

definition ptr_cmds :: "int list" where
  "ptr_cmds = [6, 7, 5, 16, 15]"

text \<open>The descriptor is one the hook looks after: a context, not closed, of a socket.\<close>

definition hooked_ctx :: "'w hook \<Rightarrow> int \<Rightarrow> (nat \<times> fd_ctx) option result" where
  "hooked_ctx h fd =
     rbind (ctx_at h fd) (\<lambda>ctx.
       case ctx of None \<Rightarrow> Inr None
       | Some (p, c) \<Rightarrow> Inr (if m_isClosed c \<or> \<not> m_isSocket c then None else Some (p, c)))"

definition fcntl_setfl :: "'w fcntl_fun \<Rightarrow> int \<Rightarrow> i32 \<Rightarrow> 'w hook \<Rightarrow> (int \<times> 'w hook) result" where
  "fcntl_setfl fcntl_f fd arg h =
     rbind (hooked_ctx h fd) (\<lambda>ctx.
       case ctx of
         None \<Rightarrow> Inr (syscall (fcntl_f fd F_SETFL (Int_arg arg)) h)
       | Some (p, c) \<Rightarrow>
           let h = put_ctx h p (c\<lparr>m_userNonblock := (arg AND O_NONBLOCK \<noteq> 0)\<rparr>);
               arg = (if m_sysNonblock c then arg OR O_NONBLOCK else arg AND NOT O_NONBLOCK) in
           Inr (syscall (fcntl_f fd F_SETFL (Int_arg arg)) h))"

definition fcntl_getfl :: "'w fcntl_fun \<Rightarrow> int \<Rightarrow> 'w hook \<Rightarrow> (int \<times> 'w hook) result" where
  "fcntl_getfl fcntl_f fd h =
     (let (n, h) = syscall (fcntl_f fd F_GETFL No_arg) h; arg = word_of_int n :: i32 in
      rbind (hooked_ctx h fd) (\<lambda>ctx.
        case ctx of
          None \<Rightarrow> Inr (n, h)
        | Some (p, c) \<Rightarrow> Inr (sint (if m_userNonblock c then arg OR O_NONBLOCK else arg AND NOT O_NONBLOCK), h)))"

definition hook_fcntl :: "'w fcntl_fun \<Rightarrow> int \<Rightarrow> int \<Rightarrow> fcntl_arg \<Rightarrow> 'w hook \<Rightarrow> (int \<times> 'w hook) result" where
  "hook_fcntl fcntl_f fd cmd arg h =
     (if cmd = F_SETFL then (case arg of Int_arg a \<Rightarrow> fcntl_setfl fcntl_f fd a h | _ \<Rightarrow> Inl Out_of_bounds)
      else if cmd = F_GETFL then fcntl_getfl fcntl_f fd h
      else if cmd \<in> set int_cmds then
        (case arg of Int_arg a \<Rightarrow> Inr (syscall (fcntl_f fd cmd (Int_arg a)) h) | _ \<Rightarrow> Inl Out_of_bounds)
      else if cmd \<in> set plain_cmds then Inr (syscall (fcntl_f fd cmd No_arg) h)
      else if cmd \<in> set ptr_cmds then
        (case arg of Ptr_arg a \<Rightarrow> Inr (syscall (fcntl_f fd cmd (Ptr_arg a)) h) | _ \<Rightarrow> Inl Out_of_bounds)
      else Inr (syscall (fcntl_f fd cmd No_arg) h))"

definition FIONBIO :: int where "FIONBIO = 0x5421"

text \<open>The argument of \<open>ioctl\<close> is the \<open>int\<close> the pointer refers to.\<close>

definition hook_ioctl :: "(int \<Rightarrow> int \<Rightarrow> int \<Rightarrow> 'w sysc) \<Rightarrow> int \<Rightarrow> int \<Rightarrow> int \<Rightarrow> 'w hook \<Rightarrow> (int \<times> 'w hook) result" where
  "hook_ioctl ioctl_f fd request arg h =
     (if request = FIONBIO then
        rbind (hooked_ctx h fd) (\<lambda>ctx.
          case ctx of
            None \<Rightarrow> Inr (syscall (ioctl_f fd request arg) h)
          | Some (p, c) \<Rightarrow> Inr (syscall (ioctl_f fd request arg) (put_ctx h p (c\<lparr>m_userNonblock := (arg \<noteq> 0)\<rparr>))))
      else Inr (syscall (ioctl_f fd request arg) h))"

text \<open>\<open>tv->tv_sec * 1000 + tv->tv_usec / 1000\<close>, converted to \<open>uint64_t\<close>.\<close>

definition timeval_ms :: "optval \<Rightarrow> u64 result" where
  "timeval_ms v = (case v of Opt_timeval sec usec \<Rightarrow> Inr (word_of_int (sec * 1000 + c_div usec 1000)) | _ \<Rightarrow> Inl Out_of_bounds)"

definition hook_setsockopt ::
  "(int \<Rightarrow> int \<Rightarrow> int \<Rightarrow> optval \<Rightarrow> 'w sysc) \<Rightarrow> int \<Rightarrow> int \<Rightarrow> int \<Rightarrow> optval \<Rightarrow> 'w hook \<Rightarrow> (int \<times> 'w hook) result" where
  "hook_setsockopt setsockopt_f sockfd level optname optval h =
     (if t_hook_enable h \<and> level = SOL_SOCKET \<and> (optname = SO_RCVTIMEO \<or> optname = SO_SNDTIMEO) then
        rbind (ctx_at h sockfd) (\<lambda>ctx.
          rbind (case ctx of
                   None \<Rightarrow> Inr h
                 | Some (p, c) \<Rightarrow>
                     rbind (timeval_ms optval) (\<lambda>ms. Inr (put_ctx h p (setTimeout c (optname = SO_RCVTIMEO) ms)))) (\<lambda>h.
            Inr (syscall (setsockopt_f sockfd level optname optval) h)))
      else Inr (syscall (setsockopt_f sockfd level optname optval) h))"

section \<open>The laws of the calls\<close>

text \<open>The lookup reads the vector and the heap only.\<close>

lemma ctx_at_eq:
  "ctx_at h fd =
     (if fd = - 1 \<or> int (length (m_fds (h_fds h))) \<le> fd then Inr None
      else if fd < 0 then Inl Out_of_bounds
      else case m_fds (h_fds h) ! nat fd of
        None \<Rightarrow> Inr None
      | Some p \<Rightarrow> (case fm_heap (h_fds h) p of None \<Rightarrow> Inl Null_deref | Some c \<Rightarrow> Inr (Some (p, c))))"
  by (auto simp: ctx_at_def fm_get_def get_read_def vec_at_def split: option.split)

lemma ctx_at_put:
  "ctx_at h fd = Inr (Some (p, c)) \<Longrightarrow> ctx_at (put_ctx h p c') fd = Inr (Some (p, c'))"
  by (auto simp: ctx_at_eq put_ctx_def split: if_splits option.splits)

lemma syscall_fds: "m_fds (h_fds (snd (syscall f h))) = m_fds (h_fds h)" "fm_heap (h_fds (snd (syscall f h))) = fm_heap (h_fds h)"
  by (simp_all add: syscall_def Let_def split: prod.split)

lemma ctx_at_syscall: "ctx_at (snd (syscall f h)) fd = ctx_at h fd"
  unfolding ctx_at_eq syscall_fds ..

lemma hooked_ctxD: "hooked_ctx h fd = Inr (Some (p, c)) \<Longrightarrow> ctx_at h fd = Inr (Some (p, c)) \<and> \<not> m_isClosed c \<and> m_isSocket c"
  by (auto simp: hooked_ctx_def returns split: option.splits if_splits)

lemma hooked_ctx_put:
  assumes "hooked_ctx h fd = Inr (Some (p, c))" "m_isClosed c' = m_isClosed c" "m_isSocket c' = m_isSocket c"
  shows "hooked_ctx (put_ctx h p c') fd = Inr (Some (p, c'))"
proof -
  note c = hooked_ctxD [OF assms(1)]
  then have "ctx_at (put_ctx h p c') fd = Inr (Some (p, c'))" by (intro ctx_at_put) blast
  with c assms(2,3) show ?thesis by (simp add: hooked_ctx_def)
qed

lemma hooked_ctx_syscall: "hooked_ctx (snd (syscall f h)) fd = hooked_ctx h fd"
  by (simp add: hooked_ctx_def ctx_at_syscall)

lemma nonblock_bit:
  "(a OR O_NONBLOCK) AND O_NONBLOCK \<noteq> 0" "(a AND NOT O_NONBLOCK) AND O_NONBLOCK = 0"
proof -
  have "bit ((a OR O_NONBLOCK) AND O_NONBLOCK) 11" by (simp add: O_NONBLOCK_def bit_simps)
  then show "(a OR O_NONBLOCK) AND O_NONBLOCK \<noteq> 0" by (metis bit_0_eq bot_apply bot_bool_def)
  show "(a AND NOT O_NONBLOCK) AND O_NONBLOCK = 0" by (rule bit_word_eqI) (auto simp: bit_simps)
qed

text \<open>A hooked socket 7 with a receive timeout of 50 ms, in the fiber 2 of a scheduling thread, at time 1000.\<close>

definition demo_kernel :: kernel where
  "demo_kernel = \<lparr>k_stat = \<lambda>_. Some True, k_nonblock = \<lambda>_. True\<rparr>"

definition demo_ctx :: fd_ctx where
  "demo_ctx = \<lparr>m_isInit = True, m_isSocket = True, m_sysNonblock = True, m_userNonblock = False, m_isClosed = False,
     m_fd = 7, m_recvTimeout = 50, m_sendTimeout = - 1\<rparr>"

definition demo_hook :: "nat hook" where
  "demo_hook = \<lparr>h_fds = \<lparr>fm_heap = [3 \<mapsto> demo_ctx], m_fds = (replicate 64 None)[7 := Some 3], fm_kernel = demo_kernel\<rparr>,
     h_timers = TimerManager_new 1000, h_iom = IOManager_new, h_thread = demo_thread, h_conds = Map.empty, h_calls = Map.empty,
     h_front = 0, h_errno = 0, t_hook_enable = True, s_connect_timeout = 5000, h_os = 0\<rparr>"

definition demo_env :: call_env where
  "demo_env = \<lparr>ce_now = 1000, ce_timer = 5, ce_call = 6, ce_cond = 8, ce_ctx = 4, ce_main = 1, ce_ctl = True, ce_ctl_errno = 0, ce_iom = Some 9\<rparr>"

definition no_data :: "'w sysc" where
  "no_data = (\<lambda>(k, w). (- 1, EAGAIN, k, w))"

definition demo_fcntl :: "nat fcntl_fun" where
  "demo_fcntl fd cmd arg = (\<lambda>(k, w).
     case arg of
       Int_arg a \<Rightarrow> (0, 0, k\<lparr>k_nonblock := (k_nonblock k)(fd := (a AND O_NONBLOCK \<noteq> 0))\<rparr>, w)
     | _ \<Rightarrow> (sint (if k_nonblock k fd then O_NONBLOCK else 0), 0, k, w))"

definition demo_ioctl :: "int \<Rightarrow> int \<Rightarrow> int \<Rightarrow> nat sysc" where
  "demo_ioctl fd request v = (\<lambda>(k, w). (0, 0, k\<lparr>k_nonblock := (k_nonblock k)(fd := (v \<noteq> 0))\<rparr>, w))"

text \<open>The calls of a socket, of which \<open>setsockopt\<close> is the hooked one.\<close>

definition demo_hook_sys :: "nat hook sysapi" where
  "demo_hook_sys = \<lparr>y_socket = \<lambda>_ _ _ w. (7, w), y_bind = \<lambda>_ _ _ w. (0, w), y_listen = \<lambda>_ _ w. (0, w), y_connect = \<lambda>_ _ _ w. (0, w),
     y_connect_with_timeout = \<lambda>_ _ _ _ w. (0, w), y_accept = \<lambda>_ w. (8, w), y_close = \<lambda>_ w. w, y_send = \<lambda>_ b _ w. (int (length b), w),
     y_sendto = \<lambda>_ b _ _ _ w. (int (length b), w), y_sendmsg = \<lambda>_ b _ _ _ w. (0, w), y_recv = \<lambda>_ _ _ w. (0, [], w),
     y_recvmsg = \<lambda>_ _ _ w. (0, [], w), y_recvfrom = \<lambda>_ _ _ _ w. (0, [], [], w), y_getsockname = \<lambda>_ _ _ _. None,
     y_getpeername = \<lambda>_ _ _ _. None,
     y_setsockopt = \<lambda>fd level opt v h. case hook_setsockopt (\<lambda>fd level opt v (k, w). (0, 0, k, w)) fd level opt v h of Inr r \<Rightarrow> r | Inl e \<Rightarrow> (- 1, h),
     y_getsockopt = \<lambda>_ _ _ _. None, y_errno = h_errno, y_fds = h_fds\<rparr>"

lemma demo_ctx_at: "ctx_at demo_hook 7 = Inr (Some (3, demo_ctx))"
  by (simp add: ctx_at_def demo_hook_def fm_get_def get_read_def vec_at_def)

lemma demo_hooked: "hooked_ctx demo_hook 7 = Inr (Some (3, demo_ctx))"
  by (simp add: hooked_ctx_def demo_ctx_at) (simp add: demo_ctx_def)

lemma demo_hook_enabled: "t_hook_enable demo_hook"
  by (simp add: demo_hook_def)

lemma demo_running: "running demo_thread = Some 2" "t_scheduler_fiber demo_thread = Some 1"
  by (simp_all add: demo_thread_def thread_start_def Fiber_new_def GetThis_def Fiber_main_def SetThis_def set_state_def)

text \<open>
  \<^bold>\<open>C28\<close>. The two views of \<open>O_NONBLOCK\<close>, for a socket the hook looks after and a kernel whose \<open>F_SETFL\<close>, \<open>F_GETFL\<close> and
  \<open>FIONBIO\<close> do what they are documented to do. Whatever flags the user sets with \<open>fcntl\<close>, the kernel keeps the socket
  non-blocking, \<open>F_GETFL\<close> shows the user his own setting, and with \<open>O_NONBLOCK\<close> set the calls go straight to the
  kernel. \<open>ioctl\<close> breaks this: \<open>FIONBIO\<close> with 0 makes the descriptor blocking in the kernel, while the hook goes on to
  treat it as its own.
\<close>

theorem nonblock_views:
  assumes setfl: "\<And>a k w. \<exists>w'. fcntl_f fd F_SETFL (Int_arg a) (k, w) = (0, 0, k\<lparr>k_nonblock := (k_nonblock k)(fd := (a AND O_NONBLOCK \<noteq> 0))\<rparr>, w')"
    and getfl: "\<And>k w. \<exists>a :: i32. fcntl_f fd F_GETFL No_arg (k, w) = (sint a, 0, k, w)"
    and fionbio: "\<And>v k w. \<exists>w'. ioctl_f fd FIONBIO v (k, w) = (0, 0, k\<lparr>k_nonblock := (k_nonblock k)(fd := (v \<noteq> 0))\<rparr>, w')"
    and ctx: "hooked_ctx h fd = Inr (Some (p, c))" "m_sysNonblock c"
  shows "(\<exists>h1. hook_fcntl fcntl_f fd F_SETFL (Int_arg arg) h = Inr (0, h1) \<and> k_nonblock (fm_kernel (h_fds h1)) fd
      \<and> (\<exists>a h2. hook_fcntl fcntl_f fd F_GETFL No_arg h1 = Inr (sint (a :: i32), h2) \<and> (a AND O_NONBLOCK \<noteq> 0) = (arg AND O_NONBLOCK \<noteq> 0))
      \<and> (arg AND O_NONBLOCK \<noteq> 0 \<longrightarrow> do_io env fd f ev rcv h1 = pass f h1))
    \<and> (\<exists>h1. hook_ioctl ioctl_f fd FIONBIO 0 h = Inr (0, h1) \<and> \<not> k_nonblock (fm_kernel (h_fds h1)) fd
      \<and> hooked_ctx h1 fd = Inr (Some (p, c\<lparr>m_userNonblock := False\<rparr>)))"
proof
  let ?c = "c\<lparr>m_userNonblock := (arg AND O_NONBLOCK \<noteq> 0)\<rparr>"
  let ?r = "syscall (fcntl_f fd F_SETFL (Int_arg (arg OR O_NONBLOCK))) (put_ctx h p ?c)"
  have set: "hook_fcntl fcntl_f fd F_SETFL (Int_arg arg) h = Inr ?r"
    using ctx by (simp add: hook_fcntl_def fcntl_setfl_def)
  have r: "fst ?r = 0" "k_nonblock (fm_kernel (h_fds (snd ?r))) fd"
    using setfl [of "arg OR O_NONBLOCK" "fm_kernel (h_fds (put_ctx h p ?c))" "h_os (put_ctx h p ?c)"] nonblock_bit(1) [of arg]
    by (auto simp: syscall_def)
  have ctx1: "hooked_ctx (snd ?r) fd = Inr (Some (p, ?c))" unfolding hooked_ctx_syscall by (rule hooked_ctx_put [OF ctx(1)]) simp_all
  let ?h = "snd ?r"
  have "\<exists>a :: i32. fst (syscall (fcntl_f fd F_GETFL No_arg) H) = sint a" for H
    using getfl [of "fm_kernel (h_fds H)" "h_os H"] by (auto simp: syscall_def)
  then obtain a :: i32 and h2 where a: "syscall (fcntl_f fd F_GETFL No_arg) ?h = (sint a, h2)" by (metis prod.collapse)
  have "hooked_ctx (snd (syscall (fcntl_f fd F_GETFL No_arg) ?h)) fd = Inr (Some (p, ?c))"
    by (rule trans [OF hooked_ctx_syscall ctx1])
  then have get: "\<exists>a h2. hook_fcntl fcntl_f fd F_GETFL No_arg ?h = Inr (sint (a :: i32), h2) \<and> (a AND O_NONBLOCK \<noteq> 0) = (arg AND O_NONBLOCK \<noteq> 0)"
    unfolding a by (auto simp: hook_fcntl_def fcntl_getfl_def a nonblock_bit)
  have "do_io env fd f ev rcv ?h = pass f ?h" if "arg AND O_NONBLOCK \<noteq> 0"
    using hooked_ctxD [OF ctx1] that by (simp add: do_io_def pass_def)
  with set r get show "\<exists>h1. hook_fcntl fcntl_f fd F_SETFL (Int_arg arg) h = Inr (0, h1) \<and> k_nonblock (fm_kernel (h_fds h1)) fd
      \<and> (\<exists>a h2. hook_fcntl fcntl_f fd F_GETFL No_arg h1 = Inr (sint (a :: i32), h2) \<and> (a AND O_NONBLOCK \<noteq> 0) = (arg AND O_NONBLOCK \<noteq> 0))
      \<and> (arg AND O_NONBLOCK \<noteq> 0 \<longrightarrow> do_io env fd f ev rcv h1 = pass f h1)"
    by (intro exI [of _ ?h]) (metis prod.collapse)
next
  let ?c = "c\<lparr>m_userNonblock := False\<rparr>"
  let ?r = "syscall (ioctl_f fd FIONBIO 0) (put_ctx h p ?c)"
  have "hook_ioctl ioctl_f fd FIONBIO 0 h = Inr ?r" using ctx by (simp add: hook_ioctl_def)
  moreover have "fst ?r = 0" "\<not> k_nonblock (fm_kernel (h_fds (snd ?r))) fd"
    using fionbio [of 0 "fm_kernel (h_fds (put_ctx h p ?c))" "h_os (put_ctx h p ?c)"] by (auto simp: syscall_def)
  moreover have "hooked_ctx (snd ?r) fd = Inr (Some (p, ?c))" unfolding hooked_ctx_syscall by (rule hooked_ctx_put [OF ctx(1)]) simp_all
  ultimately show "\<exists>h1. hook_ioctl ioctl_f fd FIONBIO 0 h = Inr (0, h1) \<and> \<not> k_nonblock (fm_kernel (h_fds h1)) fd
      \<and> hooked_ctx h1 fd = Inr (Some (p, c\<lparr>m_userNonblock := False\<rparr>))"
    by (intro exI [of _ "snd ?r"]) (metis prod.collapse)
qed

theorem nonblock_views_witness:
  "(\<exists>h1. hook_fcntl demo_fcntl 7 F_SETFL (Int_arg 0) demo_hook = Inr (0, h1) \<and> k_nonblock (fm_kernel (h_fds h1)) 7)
   \<and> (\<exists>h1. hook_ioctl demo_ioctl 7 FIONBIO 0 demo_hook = Inr (0, h1) \<and> \<not> k_nonblock (fm_kernel (h_fds h1)) 7)"
  using nonblock_views [where fcntl_f = demo_fcntl and ioctl_f = demo_ioctl and fd = 7 and h = demo_hook and arg = 0 and f = no_data
      and env = demo_env and ev = READ and rcv = True and p = 3 and c = demo_ctx]
  by (auto simp: demo_fcntl_def demo_ioctl_def demo_hooked demo_ctx_def)

lemma timeval_ms_inverse:
  assumes "\<bar>sint val\<bar> < 2147483648000"
  shows "timeval_ms (timeval_of val) = Inr val"
proof -
  let ?v = "sint val"
  let ?q = "sgn ?v * (\<bar>?v\<bar> div 1000)" and ?r = "sgn ?v * (\<bar>?v\<bar> mod 1000)"
  have "\<bar>?v\<bar> div 1000 < 2147483648" using assms by linarith
  then have q: "- 2147483648 \<le> ?q \<and> ?q < 2147483648" by (auto simp: sgn_if)
  have "\<bar>?v\<bar> mod 1000 < 1000" by simp
  then have r: "- 2147483648 \<le> ?r * 1000 \<and> ?r * 1000 < 2147483648" by (auto simp: sgn_if)
  have int: "sint (word_of_int i :: i32) = i" if "- 2147483648 \<le> i \<and> i < 2147483648" for i
    using that by (simp add: signed_of_int signed_take_bit_int_eq_self)
  have "c_div (?r * 1000) 1000 = ?r" by (simp add: c_div_def sgn_if abs_mult)
  moreover have "?q * 1000 + ?r = sgn ?v * (\<bar>?v\<bar> div 1000 * 1000 + \<bar>?v\<bar> mod 1000)" by (simp only: distrib_left mult.assoc)
  then have "?q * 1000 + ?r = ?v" by (simp only: div_mult_mod_eq sgn_mult_abs)
  ultimately have "timeval_ms (timeval_of val) = Inr (word_of_int ?v)"
    by (simp only: timeval_of_def timeval_ms_def Let_def int [OF q] int [OF r] optval.case)
  then show ?thesis by simp
qed

text \<open>
  A timeout set on a \<open>Socket\<close> through the hooked \<open>setsockopt\<close> is the timeout \<open>do_io\<close> will use and the one that is
  read back, to the millisecond, for every value whose seconds fit an \<open>int\<close>; the other direction keeps its own.
\<close>

lemma socket_timeout_roundtrip:
  assumes "t_hook_enable h" "ctx_at h (m_sockfd s) = Inr (Some (p, c))" "\<bar>sint val\<bar> < 2147483648000"
    and "\<And>h. y_fds k h = h_fds h"
    and "\<And>fd level optname v h. y_setsockopt k fd level optname v h =
      (case hook_setsockopt setsockopt_f fd level optname v h of Inr r \<Rightarrow> r | Inl e \<Rightarrow> (- 1, h))"
  shows "getRecvTimeout k s (setRecvTimeout k s val h) = Inr val \<and> getSendTimeout k s (setSendTimeout k s val h) = Inr val
    \<and> getSendTimeout k s (setRecvTimeout k s val h) = getSendTimeout k s h \<and> getRecvTimeout k s (setSendTimeout k s val h) = getRecvTimeout k s h"
proof -
  have look: "fd_ctx_of k (m_sockfd s) h' = Inr (Some c')" if "ctx_at h' (m_sockfd s) = Inr (Some (p, c'))" for h' c'
    using that by (auto simp: fd_ctx_of_def ctx_at_eq get_read_def vec_at_def assms(4) split: if_splits option.splits)
  have set: "\<exists>h'. h' = snd (setSockOpt k s SOL_SOCKET opt (timeval_of val) h) \<and> ctx_at h' (m_sockfd s) = Inr (Some (p, setTimeout c (opt = SO_RCVTIMEO) val))"
    if "opt = SO_RCVTIMEO \<or> opt = SO_SNDTIMEO" for opt
  proof -
    let ?h = "put_ctx h p (setTimeout c (opt = SO_RCVTIMEO) val)"
    have "hook_setsockopt setsockopt_f (m_sockfd s) SOL_SOCKET opt (timeval_of val) h = Inr (syscall (setsockopt_f (m_sockfd s) SOL_SOCKET opt (timeval_of val)) ?h)"
      using that assms(1,2) timeval_ms_inverse [OF assms(3)] by (auto simp: hook_setsockopt_def)
    then have "snd (setSockOpt k s SOL_SOCKET opt (timeval_of val) h) = snd (syscall (setsockopt_f (m_sockfd s) SOL_SOCKET opt (timeval_of val)) ?h)"
      by (simp add: setSockOpt_def assms(5) Let_def split: prod.split)
    moreover have "ctx_at ?h (m_sockfd s) = Inr (Some (p, setTimeout c (opt = SO_RCVTIMEO) val))" by (rule ctx_at_put [OF assms(2)])
    ultimately show ?thesis by (simp add: ctx_at_syscall)
  qed
  show ?thesis using set [of SO_RCVTIMEO] set [of SO_SNDTIMEO] look assms(2)
    by (auto simp: setRecvTimeout_def setSendTimeout_def getRecvTimeout_def getSendTimeout_def getTimeout_def setTimeout_def)
qed



text \<open>
  A connection attempt that cannot be watched is reported as made: \<open>SO_ERROR\<close> is 0 while it is in progress.
\<close>

lemma connect_unwatched_succeeds:
  assumes "iom_inv (h_iom h)" "0 \<le> fd" "registered (h_iom h) fd WRITE = None" "\<not> ce_ctl env" "ce_iom env = Some iom"
    and "t_fiber (h_thread h) = Some fib" "m_state (the_fiber (h_thread h) fib) = EXEC"
    and "t_hook_enable h" "hooked_ctx h fd = Inr (Some (p, c))" "\<not> m_userNonblock c"
    and "\<And>s. connect_f s = (- 1, EINPROGRESS, s)" "\<And>s. getsockopt_f fd SOL_SOCKET SO_ERROR s = (0, 0, Opt_int 0, s)"
  shows "\<exists>h'. connect_with_timeout env connect_f getsockopt_f fd (- 1) h = Inr (Returned 0, h')"
proof -
  let ?h = "snd (syscall connect_f h)"
  have n: "syscall connect_f h = (- 1, h\<lparr>h_errno := EINPROGRESS\<rparr>)" by (simp add: syscall_def assms(11))
  have "\<not> events_of (h_iom h) fd AND WRITE \<noteq> 0" using assms(3) by (simp add: registered_None)
  then obtain m where m: "addEvent (Some iom) fib EXEC False (h_iom h) fd WRITE None = Inr (- 1, m)"
    using addEvent_spec [OF assms(1,2), of WRITE None EXEC iom fib False] by (auto simp: is_event_def)
  have r: "connect_with_timeout env connect_f getsockopt_f fd (- 1) h = connect_wait env getsockopt_f fd (- 1) (h\<lparr>h_errno := EINPROGRESS\<rparr>)"
    using hooked_ctxD [OF assms(9)] assms(8,10) by (simp add: connect_with_timeout_def n)
  show ?thesis unfolding r
    using assms(4-7) m
    by (simp add: connect_wait_def arm_def watch_def GetThis_def disarm_def connect_result_def hook_getsockopt_def
        assms(12) returned_def Let_def)
qed

end
