(* ===== verification/Hook_Wait.thy ===== *)
theory Hook_Wait
  imports Hook
begin

text \<open>
  What happens while a hooked call waits. \<open>io_rest\<close> and \<open>wait_env\<close> are what the rest of the program may do to the I/O manager, the
  timers and the closures between the switch away from a waiting fiber and the switch back: in any order, on any
  thread, with the callbacks of expired timers run at any later time. The registrations and the scheduled tasks
  together are conserved (\<open>owed\<close>), which rules out lost and double wake-ups; \<open>wait_inv\<close> is the invariant of a wait.
  Callbacks are run with an \<open>epoll_ctl\<close> that succeeds.
\<close>

unbundle bit_operations_syntax

section \<open>Wake-ups are conserved\<close>

text \<open>Where a task is registered, how often it was scheduled, and the sum of both.\<close>

definition held :: "nat \<times> task \<Rightarrow> iomanager \<Rightarrow> (int \<times> u32) set" where
  "held t m = {(fd, ev). is_event ev \<and> registered m fd ev = Some t}"

definition wakes :: "nat \<times> task \<Rightarrow> iomanager \<Rightarrow> nat" where
  "wakes t m = count_list (scheduled m) t"

definition owed :: "nat \<times> task \<Rightarrow> iomanager \<Rightarrow> nat" where
  "owed t m = wakes t m + card (held t m)"

lemma held_finite [simp]: "finite (held t m)"
proof -
  have "held t m \<subseteq> {0 ..< int (length (m_fdContexts m))} \<times> {READ, WRITE}"
    by (auto simp: held_def is_event_def registered_def split: if_splits)
  then show ?thesis by (rule finite_subset) simp
qed

lemma count_tasks_of:
  assumes "\<And>ev. is_event ev \<Longrightarrow> msk AND ev \<noteq> 0 \<Longrightarrow> registered m fd ev \<noteq> None"
  shows "count_list (tasks_of m fd msk) t = card (held t m \<inter> {(fd', ev). fd' = fd \<and> msk AND ev \<noteq> 0})"
proof -
  define sel where "sel ev = (if msk AND ev \<noteq> 0 \<and> registered m fd ev = Some t then {(fd, ev)} else {})" for ev
  have "held t m \<inter> {(fd', ev). fd' = fd \<and> msk AND ev \<noteq> 0} = sel READ \<union> sel WRITE"
    by (auto simp: held_def is_event_def sel_def)
  moreover have "card (sel READ \<union> sel WRITE) = card (sel READ) + card (sel WRITE)"
    by (intro card_Un_disjoint) (auto simp: sel_def READ_def WRITE_def)
  moreover have "card (sel ev) = (if msk AND ev \<noteq> 0 \<and> registered m fd ev = Some t then 1 else 0)" for ev
    by (simp add: sel_def)
  moreover have "the (registered m fd ev) = t \<longleftrightarrow> registered m fd ev = Some t" if "is_event ev" "msk AND ev \<noteq> 0" for ev
    using assms [OF that] by auto
  ultimately show ?thesis by (auto simp: tasks_of_def is_event_def)
qed

text \<open>Events that are triggered: what leaves the table is scheduled.\<close>

lemma owed_triggered:
  assumes "scheduled m' = scheduled m @ tasks_of m fd msk"
    and "\<And>ev. is_event ev \<Longrightarrow> msk AND ev \<noteq> 0 \<Longrightarrow> registered m fd ev \<noteq> None"
    and "\<And>fd' ev. is_event ev \<Longrightarrow> registered m' fd' ev = (if fd' = fd \<and> msk AND ev \<noteq> 0 then None else registered m fd' ev)"
  shows "owed t m' = owed t m" "held t m' \<subseteq> held t m"
proof -
  let ?S = "{(fd', ev). fd' = fd \<and> msk AND ev \<noteq> 0}"
  have h: "held t m' = held t m - ?S" using assms(3) by (auto simp: held_def split: if_splits)
  have "card (held t m) = card (held t m - ?S) + card (held t m \<inter> ?S)"
    using card_Diff_subset_Int [of "held t m" ?S] card_mono [of "held t m" "held t m \<inter> ?S"] by simp
  then show "owed t m' = owed t m"
    using count_tasks_of [of msk m fd t, OF assms(2)] by (simp add: owed_def wakes_def assms(1) h)
  show "held t m' \<subseteq> held t m" using h by blast
qed

lemma ready_registered:
  fixes msk ev :: u32
  assumes "core_inv m" "msk AND NOT (events_of m fd) = 0" "msk \<in> {0, 1, 4, 5}" "is_event ev" "msk AND ev \<noteq> 0"
  shows "registered m fd ev \<noteq> None"
  using assms events_bits [OF assms(1), of fd] by (auto simp: registered_None is_event_def READ_def WRITE_def)

lemma owed_cancelEvent:
  assumes "iom_inv m" "0 \<le> fd" "is_event ev" "cancelEvent ok m fd ev = Inr (r, m')"
  shows "iom_inv m'" "owed t m' = owed t m" "held t m' \<subseteq> held t m" "ok \<Longrightarrow> registered m' fd ev = None"
proof -
  have all: "iom_inv m' \<and> owed t m' = owed t m \<and> held t m' \<subseteq> held t m \<and> (ok \<longrightarrow> registered m' fd ev = None)"
  proof (cases "ok \<and> events_of m fd AND ev \<noteq> 0")
    case False
    then show ?thesis using cancelEvent_spec [OF assms(1-3), of ok] assms(1,4) by (auto simp: registered_None)
  next
    case True
    from cancelEvent_spec [OF assms(1-3), of ok] True assms(4) have m': "iom_inv m'"
      "scheduled m' = scheduled m @ [the (registered m fd ev)]"
      "\<forall>fd' ev'. is_event ev' \<longrightarrow> registered m' fd' ev' = (if fd' = fd \<and> ev' = ev then None else registered m fd' ev')" by auto
    have one: "is_event ev' \<Longrightarrow> ev AND ev' \<noteq> 0 \<longleftrightarrow> ev' = ev" for ev'
      using assms(3) by (auto simp: is_event_def READ_def WRITE_def)
    have "tasks_of m fd ev = [the (registered m fd ev)]"
      using assms(3) by (auto simp: tasks_of_def is_event_def READ_def WRITE_def)
    with owed_triggered [of m' m fd ev] m' one True assms(3) show ?thesis by (auto simp: registered_None)
  qed
  then show "iom_inv m'" "owed t m' = owed t m" "held t m' \<subseteq> held t m" "ok \<Longrightarrow> registered m' fd ev = None" by simp_all
qed

lemma owed_cancelAll:
  assumes "iom_inv m" "0 \<le> fd" "cancelAll ok m fd = Inr (r, m')"
  shows "iom_inv m' \<and> owed t m' = owed t m \<and> held t m' \<subseteq> held t m"
proof (cases "ok \<and> events_of m fd \<noteq> 0")
  case False
  then show ?thesis using cancelAll_spec [OF assms(1,2), of ok] assms(1,3) by auto
next
  case True
  let ?e = "events_of m fd"
  from cancelAll_spec [OF assms(1,2), of ok] True assms(3) have m': "iom_inv m'" "scheduled m' = scheduled m @ tasks_of m fd ?e"
    "\<forall>fd' ev'. is_event ev' \<longrightarrow> registered m' fd' ev' = (if fd' = fd then None else registered m fd' ev')" by auto
  have "registered m' fd' ev = (if fd' = fd \<and> ?e AND ev \<noteq> 0 then None else registered m fd' ev)" if "is_event ev" for fd' ev
    using m'(3) that registered_None [of m fd ev] by auto
  moreover have "registered m fd ev \<noteq> None" if "is_event ev" "?e AND ev \<noteq> 0" for ev using that by (simp add: registered_None)
  ultimately show ?thesis using owed_triggered [of m' m fd ?e] m' by blast
qed

lemma owed_idle_event:
  assumes "iom_inv m" "0 \<le> fd" "idle_event ok m fd evs = Inr m'"
  shows "iom_inv m' \<and> owed t m' = owed t m \<and> held t m' \<subseteq> held t m"
proof -
  have lt: "fd < int (length (m_fdContexts m))" using assms(3) by (auto simp: idle_event_def at_fd_def split: if_splits)
  note spec = idle_event_spec [OF assms(1,2) lt, of evs ok]
  show ?thesis
  proof (cases "events_of m fd AND real_events evs = 0 \<or> \<not> ok")
    case True
    then show ?thesis using spec assms(1,3) by auto
  next
    case False
    with spec assms(3) have sub: "real_events evs AND NOT (events_of m fd) = 0" by (auto split: if_splits)
    with False spec assms(3) have m': "iom_inv m'" "scheduled m' = scheduled m @ tasks_of m fd (real_events evs)"
      "\<And>fd' ev'. is_event ev' \<Longrightarrow> registered m' fd' ev' = (if fd' = fd \<and> real_events evs AND ev' \<noteq> 0 then None else registered m fd' ev')"
      by auto
    have "core_inv m" using assms(1) by (simp add: iom_inv_def)
    from ready_registered [OF this sub real_events_bits]
    show ?thesis using owed_triggered [OF m'(2) _ m'(3)] m'(1) by blast
  qed
qed

lemma owed_addEvent:
  assumes "iom_inv m" "0 \<le> fd" "is_event ev" "addEvent (Some sch) fib EXEC ok m fd ev cb = Inr (r, m')"
  shows "iom_inv m' \<and> held t m' = held t m \<union> (if ok \<and> t = (sch, new_task fib cb) then {(fd, ev)} else {}) \<and> wakes t m' = wakes t m
    \<and> registered m fd ev = None \<and> r = (if ok then 0 else - 1)"
proof -
  note spec = addEvent_spec [OF assms(1-3), of cb EXEC sch fib ok]
  have "registered m fd ev = None" using spec assms(4) by (auto simp: registered_None split: if_splits)
  moreover from this have m': "iom_inv m'" "scheduled m' = scheduled m" "r = (if ok then 0 else - 1)"
    "\<And>fd' ev'. is_event ev' \<Longrightarrow> registered m' fd' ev' = (if ok \<and> fd' = fd \<and> ev' = ev then Some (sch, new_task fib cb) else registered m fd' ev')"
    using spec assms(4) by (auto simp: registered_None)
  moreover have "held t m' = held t m \<union> (if ok \<and> t = (sch, new_task fib cb) then {(fd, ev)} else {})"
    using m'(4) calculation(1) assms(3) by (auto simp: held_def split: if_splits)
  ultimately show ?thesis by (simp add: wakes_def)
qed

text \<open>What the rest of the program does with the manager: everything but registering \<open>t\<close> again and deleting its registration.\<close>

inductive io_rest :: "nat \<times> task \<Rightarrow> iomanager \<Rightarrow> iomanager \<Rightarrow> bool" for t where
  rest_add: "0 \<le> fd \<Longrightarrow> is_event ev \<Longrightarrow> (sch, new_task fib cb) \<noteq> t \<Longrightarrow> addEvent (Some sch) fib EXEC ok m fd ev cb = Inr (r, m') \<Longrightarrow> io_rest t m m'"
| rest_del: "0 \<le> fd \<Longrightarrow> is_event ev \<Longrightarrow> registered m fd ev \<noteq> Some t \<Longrightarrow> delEvent ok m fd ev = Inr (r, m') \<Longrightarrow> io_rest t m m'"
| rest_cancel: "0 \<le> fd \<Longrightarrow> is_event ev \<Longrightarrow> cancelEvent ok m fd ev = Inr (r, m') \<Longrightarrow> io_rest t m m'"
| rest_all: "0 \<le> fd \<Longrightarrow> cancelAll ok m fd = Inr (r, m') \<Longrightarrow> io_rest t m m'"
| rest_idle: "0 \<le> fd \<Longrightarrow> idle_event ok m fd evs = Inr m' \<Longrightarrow> io_rest t m m'"

lemma io_rest_owed: "io_rest t m m' \<Longrightarrow> iom_inv m \<Longrightarrow> iom_inv m' \<and> owed t m' = owed t m \<and> held t m' \<subseteq> held t m"
proof (induction rule: io_rest.induct)
  case (rest_add fd ev sch fib cb ok m r m')
  then show ?case using owed_addEvent [OF rest_add(5,1,2,4), of t] by (auto simp: owed_def)
next
  case (rest_del fd ev m ok r m')
  from delEvent_spec [OF rest_del(5,1,2), of ok] rest_del(4) have m': "iom_inv m'" "scheduled m' = scheduled m"
    "\<And>fd' ev'. is_event ev' \<Longrightarrow> registered m' fd' ev' = (if (ok \<and> events_of m fd AND ev \<noteq> 0) \<and> fd' = fd \<and> ev' = ev then None else registered m fd' ev')"
    by auto
  have "held t m' = held t m" using m'(3) rest_del(3) by (auto simp: held_def split: if_splits)
  with m' show ?case by (simp add: owed_def wakes_def)
next
  case (rest_cancel fd ev ok m r m')
  then show ?case using owed_cancelEvent(1-3) [OF rest_cancel(4,1-3)] by simp
next
  case (rest_all fd ok m r m')
  then show ?case using owed_cancelAll [OF rest_all(3,1,2), of t] by simp
next
  case (rest_idle fd ok m evs m')
  then show ?case using owed_idle_event [OF rest_idle(3,1,2), of t] by simp
qed

section \<open>The rest of the program while a call waits\<close>

text \<open>A closure that has nothing to do with the waiting call.\<close>

fun other_closure :: "nat \<Rightarrow> nat \<Rightarrow> closure \<Rightarrow> bool" where
  "other_closure cond fib (Cancel_io cond' fd ev) \<longleftrightarrow> cond' \<noteq> cond \<and> 0 \<le> fd \<and> is_event ev"
| "other_closure cond fib (Wake fib') \<longleftrightarrow> fib' \<noteq> fib"

abbreviation present :: "'a option list \<Rightarrow> 'a list" where
  "present xs \<equiv> concat (map (\<lambda>x. case x of None \<Rightarrow> [] | Some y \<Rightarrow> [y]) xs)"

inductive wait_env ::
  "nat \<Rightarrow> nat \<Rightarrow> io_call \<Rightarrow> 'w hook \<times> callback list \<Rightarrow> 'w hook \<times> callback list \<Rightarrow> bool" for iom fib c where
  we_iom: "io_rest (iom, fiber_task fib (- 1)) (h_iom h) m \<Longrightarrow> wait_env iom fib c (h, P) (h\<lparr>h_iom := m\<rparr>, P)"
| we_cancel: "Some p \<noteq> ioc_timer c \<Longrightarrow> cancel (h_timers h) p = Inr (r, tm) \<Longrightarrow> wait_env iom fib c (h, P) (h\<lparr>h_timers := tm\<rparr>, P)"
| we_refresh: "Some p \<noteq> ioc_timer c \<Longrightarrow> refresh now (h_timers h) p = Inr (r, tm) \<Longrightarrow> wait_env iom fib c (h, P) (h\<lparr>h_timers := tm\<rparr>, P)"
| we_reset: "Some p \<noteq> ioc_timer c \<Longrightarrow> reset now (h_timers h) p ms from_now = Inr (r, f, tm) \<Longrightarrow>
    wait_env iom fib c (h, P) (h\<lparr>h_timers := tm\<rparr>, P)"
| we_add: "p \<notin> dom (tm_heap (h_timers h)) \<Longrightarrow> k \<notin> dom (h_calls h) \<Longrightarrow> other_closure (ioc_cond c) fib cl \<Longrightarrow>
    addTimer now p (h_timers h) ms cb isRecur = (f, tm) \<Longrightarrow>
    wait_env iom fib c (h, P) (h\<lparr>h_timers := tm, h_calls := (h_calls h)(k \<mapsto> cl)\<rparr>, P)"
| we_time: "getTimeOfNextTimer now (h_timers h) = (w, tm) \<Longrightarrow> wait_env iom fib c (h, P) (h\<lparr>h_timers := tm\<rparr>, P)"
| we_expire: "q \<notin> dom (tm_heap (h_timers h)) \<Longrightarrow> listExpiredCbs now q (h_timers h) = (cbs, tm) \<Longrightarrow>
    wait_env iom fib c (h, P) (h\<lparr>h_timers := tm\<rparr>, P @ present cbs)"
| we_run: "run_timer_cb iom' True cb h = Inr h' \<Longrightarrow> wait_env iom fib c (h, P1 @ cb # P2) (h', P1 @ P2)"
| we_conds: "C (ioc_cond c) = h_conds h (ioc_cond c) \<Longrightarrow> wait_env iom fib c (h, P) (h\<lparr>h_conds := C\<rparr>, P)"
| we_rest: "wait_env iom fib c (h, P)
    (h\<lparr>h_fds := F, h_thread := T, h_errno := e, t_hook_enable := b, s_connect_timeout := s, h_front := n, h_os := w\<rparr>, P)"

definition timer_cb :: "io_call \<Rightarrow> nat \<Rightarrow> callback" where
  "timer_cb c k = Ontimer (ioc_cond c) (Callback k)"

definition io_closure :: "io_call \<Rightarrow> closure" where
  "io_closure c = Cancel_io (ioc_cond c) (ioc_fd c) (ioc_event c)"

text \<open>The timer of the call: armed for the deadline, or spent with its callback on the way.\<close>

definition timer_ok :: "io_call \<Rightarrow> nat \<Rightarrow> u64 \<Rightarrow> 'w hook \<times> callback list \<Rightarrow> bool" where
  "timer_ok c k dl = (\<lambda>(h, P). \<forall>p. ioc_timer c = Some p \<longrightarrow> h_calls h k = Some (io_closure c)
     \<and> (\<exists>t. tm_heap (h_timers h) p = Some t \<and> \<not> m_isRecur t \<and> m_next t = dl
          \<and> (timer.m_cb t = Some (timer_cb c k)
             \<or> timer.m_cb t = None \<and> (h_conds h (ioc_cond c) = Some 0 \<longrightarrow> timer_cb c k \<in> set P))))"

definition wait_inv :: "nat \<Rightarrow> nat \<Rightarrow> io_call \<Rightarrow> nat \<Rightarrow> u64 \<Rightarrow> nat \<Rightarrow> 'w hook \<times> callback list \<Rightarrow> bool" where
  "wait_inv iom fib c k dl n = (\<lambda>(h, P). let t = (iom, fiber_task fib (- 1)) in
     iom_inv (h_iom h) \<and> tm_inv (h_timers h)
     \<and> held t (h_iom h) \<subseteq> {(ioc_fd c, ioc_event c)} \<and> owed t (h_iom h) = Suc n
     \<and> (h_conds h (ioc_cond c) = Some 0 \<or> h_conds h (ioc_cond c) = Some ETIMEDOUT \<and> held t (h_iom h) = {})
     \<and> (\<forall>j cl. h_calls h j = Some cl \<longrightarrow> cl = io_closure c \<or> other_closure (ioc_cond c) fib cl)
     \<and> timer_ok c k dl (h, P))"

lemma locked_heap: "addTimer_locked m q = (f, m') \<Longrightarrow> tm_heap m' = tm_heap m"
  using addTimer_locked_fields(1) [of m q] by simp

text \<open>Timers other than the one an operation is called on keep their entry.\<close>

lemma timer_kept:
  assumes "tm_inv m" "p \<noteq> q"
  shows "cancel m q = Inr (r, m') \<Longrightarrow> tm_heap m' p = tm_heap m p"
    "refresh now m q = Inr (r, m') \<Longrightarrow> tm_heap m' p = tm_heap m p"
    "reset now m q ms fn = Inr (r, f, m') \<Longrightarrow> tm_heap m' p = tm_heap m p"
    "addTimer now q m ms cb rec = (f, m') \<Longrightarrow> tm_heap m' p = tm_heap m p"
proof -
  show "cancel m q = Inr (r, m') \<Longrightarrow> tm_heap m' p = tm_heap m p"
    using cancel_eq [OF assms(1), of q] assms(2) by (cases "tm_heap m q") (auto simp: cancel_def split: if_splits)
  show "refresh now m q = Inr (r, m') \<Longrightarrow> tm_heap m' p = tm_heap m p"
    using refresh_eq [OF assms(1), of q _ now] assms(2) by (cases "tm_heap m q") (auto simp: refresh_def split: if_splits)
  show "reset now m q ms fn = Inr (r, f, m') \<Longrightarrow> tm_heap m' p = tm_heap m p"
  proof -
    assume r: "reset now m q ms fn = Inr (r, f, m')"
    then obtain t where t: "tm_heap m q = Some t" by (cases "tm_heap m q") (auto simp: reset_def)
    from r show ?thesis unfolding reset_eq [OF assms(1) t]
      using assms(2) by (auto split: if_splits dest: locked_heap)
  qed
  show "addTimer now q m ms cb rec = (f, m') \<Longrightarrow> tm_heap m' p = tm_heap m p"
    using assms(2) addTimer_locked_fields(1) [of "m\<lparr>tm_heap := (tm_heap m)(q \<mapsto> Timer_new now ms cb rec)\<rparr>" q]
    by (simp add: addTimer_def)
qed

lemma wait_invI:
  assumes "wait_inv iom fib c k dl n (h, P)"
    and "iom_inv (h_iom h')" "owed (iom, fiber_task fib (- 1)) (h_iom h') = owed (iom, fiber_task fib (- 1)) (h_iom h)"
      "held (iom, fiber_task fib (- 1)) (h_iom h') \<subseteq> held (iom, fiber_task fib (- 1)) (h_iom h)"
    and "tm_inv (h_timers h')" "h_conds h' (ioc_cond c) = h_conds h (ioc_cond c)"
    and "\<And>j cl. h_calls h' j = Some cl \<Longrightarrow> h_calls h j = Some cl \<or> other_closure (ioc_cond c) fib cl"
    and "\<And>j cl. h_calls h j = Some cl \<Longrightarrow> h_calls h' j = Some cl"
    and "\<And>p. ioc_timer c = Some p \<Longrightarrow> tm_heap (h_timers h') p = tm_heap (h_timers h) p" "set P \<subseteq> set P'"
  shows "wait_inv iom fib c k dl n (h', P')"
proof -
  have "timer_ok c k dl (h, P)" using assms(1) by (simp add: wait_inv_def Let_def)
  then have "timer_ok c k dl (h', P')" using assms(6,8-10) by (fastforce simp: timer_ok_def)
  moreover have "\<forall>j cl. h_calls h' j = Some cl \<longrightarrow> cl = io_closure c \<or> other_closure (ioc_cond c) fib cl"
    using assms(1,7) by (fastforce simp: wait_inv_def Let_def)
  moreover have "held (iom, fiber_task fib (- 1)) (h_iom h') \<subseteq> {(ioc_fd c, ioc_event c)}"
    "h_conds h' (ioc_cond c) = Some 0 \<or> h_conds h' (ioc_cond c) = Some ETIMEDOUT \<and> held (iom, fiber_task fib (- 1)) (h_iom h') = {}"
    "owed (iom, fiber_task fib (- 1)) (h_iom h') = Suc n"
    using assms(1,3,4,6) by (auto simp: wait_inv_def Let_def)
  ultimately show ?thesis using assms(2,5) by (simp add: wait_inv_def Let_def)
qed

lemma iom_scheduled_simps [simp]:
  "iom_inv (m\<lparr>scheduled := xs\<rparr>) = iom_inv m" "held t (m\<lparr>scheduled := xs\<rparr>) = held t m"
proof -
  have "events_of (m\<lparr>scheduled := xs\<rparr>) = events_of m" by (simp add: events_of_def fun_eq_iff)
  then show "iom_inv (m\<lparr>scheduled := xs\<rparr>) = iom_inv m" by (simp add: iom_inv_def core_inv_def synced_def)
  show "held t (m\<lparr>scheduled := xs\<rparr>) = held t m" by (simp add: held_def registered_def)
qed

lemma run_other:
  assumes "other_closure cond fib cl" "iom_inv (h_iom h)" "run_closure iom' True cl h = Inr h'"
  shows "iom_inv (h_iom h') \<and> owed (iom, fiber_task fib (- 1)) (h_iom h') = owed (iom, fiber_task fib (- 1)) (h_iom h)
    \<and> held (iom, fiber_task fib (- 1)) (h_iom h') \<subseteq> held (iom, fiber_task fib (- 1)) (h_iom h)
    \<and> h_timers h' = h_timers h \<and> h_calls h' = h_calls h \<and> h_conds h' cond = h_conds h cond"
proof (cases cl)
  case (Cancel_io cond' fd ev)
  show ?thesis
  proof (cases "h_conds h cond' = Some 0")
    case False
    then have "h' = h" using assms(3) Cancel_io by (auto simp: run_closure_def io_timeout_def split: option.splits if_splits)
    then show ?thesis using assms(2) by simp
  next
    case True
    then obtain r m where m: "cancelEvent True (h_iom h) fd ev = Inr (r, m)" "h' = h\<lparr>h_conds := (h_conds h)(cond' \<mapsto> ETIMEDOUT), h_iom := m\<rparr>"
      using assms(3) Cancel_io by (auto simp: run_closure_def io_timeout_def returns)
    have c: "cond' \<noteq> cond" "0 \<le> fd" "is_event ev" using assms(1) Cancel_io by auto
    from owed_cancelEvent(1-3) [OF assms(2) c(2,3) m(1)] c(1) show ?thesis by (simp add: m(2))
  qed
next
  case (Wake fib')
  then have "h' = h\<lparr>h_iom := (h_iom h)\<lparr>scheduled := scheduled (h_iom h) @ [(iom', fiber_task fib' (- 1))]\<rparr>\<rparr>" "fib' \<noteq> fib"
    using assms by (auto simp: run_closure_def)
  then show ?thesis using assms(2) by (simp add: owed_def wakes_def fiber_task_def)
qed

text \<open>The closure of the waiting call itself.\<close>

lemma run_own:
  assumes "wait_inv iom fib c k dl n (h, P)" "0 \<le> ioc_fd c" "is_event (ioc_event c)"
  shows "\<exists>h'. run_closure iom' True (io_closure c) h = Inr h' \<and> h_timers h' = h_timers h \<and> h_calls h' = h_calls h
    \<and> h_conds h' (ioc_cond c) = Some ETIMEDOUT \<and> iom_inv (h_iom h')
    \<and> owed (iom, fiber_task fib (- 1)) (h_iom h') = Suc n \<and> held (iom, fiber_task fib (- 1)) (h_iom h') = {}"
proof -
  have inv: "iom_inv (h_iom h)" "owed (iom, fiber_task fib (- 1)) (h_iom h) = Suc n"
    "held (iom, fiber_task fib (- 1)) (h_iom h) \<subseteq> {(ioc_fd c, ioc_event c)}"
    using assms(1) by (simp_all add: wait_inv_def Let_def)
  show ?thesis
  proof (cases "h_conds h (ioc_cond c) = Some 0")
    case False
    then have "h_conds h (ioc_cond c) = Some ETIMEDOUT" "held (iom, fiber_task fib (- 1)) (h_iom h) = {}"
      using assms(1) by (auto simp: wait_inv_def Let_def)
    then show ?thesis using inv by (simp add: run_closure_def io_closure_def io_timeout_def)
  next
    case True
    obtain r m where m: "cancelEvent True (h_iom h) (ioc_fd c) (ioc_event c) = Inr (r, m)"
      using cancelEvent_spec [OF inv(1) assms(2,3), of True] by (auto split: if_splits)
    note m' = owed_cancelEvent [OF inv(1) assms(2,3) m]
    have "held (iom, fiber_task fib (- 1)) m = {}" using m'(3,4) inv(3) by (fastforce simp: held_def)
    then show ?thesis using True m m'(1,2) inv(2) by (simp add: run_closure_def io_closure_def io_timeout_def)
  qed
qed

lemma wait_own:
  assumes "wait_inv iom fib c k dl n (h, P)" "0 \<le> ioc_fd c" "is_event (ioc_event c)" "run_closure iom' True (io_closure c) h = Inr h'"
  shows "wait_inv iom fib c k dl n (h', P')"
  using run_own [OF assms(1-3), of iom'] assms(1,4) by (auto simp: wait_inv_def timer_ok_def Let_def)

lemma run_timer_cases:
  "run_timer_cb iom ok cb h = Inr h' \<Longrightarrow> h' = h \<or> (\<exists>j cl. h_calls h j = Some cl \<and> run_closure iom ok cl h = Inr h')"
  by (induction cb) (auto split: option.splits if_splits)

lemma run_timer_cb_own:
  assumes "timer_ok c k dl (h, P)" "h_conds h (ioc_cond c) \<noteq> None" "ioc_timer c \<noteq> None"
  shows "run_timer_cb iom' True (timer_cb c k) h = run_closure iom' True (io_closure c) h"
  using assms by (auto simp: timer_ok_def timer_cb_def)

lemma present_set: "x \<in> set (present xs) \<longleftrightarrow> Some x \<in> set xs"
  by (auto split: option.splits)

lemma wait_run:
  assumes "wait_inv iom fib c k dl n (h, P1 @ cb # P2)" "0 \<le> ioc_fd c" "is_event (ioc_event c)" "run_timer_cb iom' True cb h = Inr h'"
  shows "wait_inv iom fib c k dl n (h', P1 @ P2)"
proof -
  have calls: "\<And>j cl. h_calls h j = Some cl \<Longrightarrow> cl = io_closure c \<or> other_closure (ioc_cond c) fib cl"
    and ok: "timer_ok c k dl (h, P1 @ cb # P2)" and inv: "iom_inv (h_iom h)" "tm_inv (h_timers h)"
    and cond: "h_conds h (ioc_cond c) \<noteq> None"
    using assms(1) by (auto simp: wait_inv_def Let_def)
  show ?thesis
  proof (cases "run_closure iom' True (io_closure c) h = Inr h' \<and> (\<exists>j. h_calls h j = Some (io_closure c)) \<or> cb = timer_cb c k \<and> ioc_timer c \<noteq> None")
    case True
    then have "run_closure iom' True (io_closure c) h = Inr h'" using run_timer_cb_own [OF ok cond] assms(4) by auto
    from wait_own [OF assms(1-3) this] show ?thesis .
  next
    case False
    then have rest: "h' = h \<or> (\<exists>cl. other_closure (ioc_cond c) fib cl \<and> run_closure iom' True cl h = Inr h')"
      using run_timer_cases [OF assms(4)] calls by blast
    have ok': "timer_ok c k dl (h, P1 @ P2)" using ok False by (auto simp: timer_ok_def)
    then have w: "wait_inv iom fib c k dl n (h, P1 @ P2)" using assms(1) by (simp add: wait_inv_def Let_def)
    from rest show ?thesis
    proof
      assume "\<exists>cl. other_closure (ioc_cond c) fib cl \<and> run_closure iom' True cl h = Inr h'"
      then obtain cl where cl: "other_closure (ioc_cond c) fib cl" "run_closure iom' True cl h = Inr h'" by blast
      from run_other [OF cl(1) inv(1) cl(2), of iom] inv(2) show ?thesis by (intro wait_invI [OF w]) simp_all
    qed (use w in simp)
  qed
qed

lemma wait_expire:
  assumes "wait_inv iom fib c k dl n (h, P)" "q \<notin> dom (tm_heap (h_timers h))" "listExpiredCbs now q (h_timers h) = (cbs, tm)"
  shows "wait_inv iom fib c k dl n (h\<lparr>h_timers := tm\<rparr>, P @ present cbs)"
proof -
  have inv: "tm_inv (h_timers h)" and ok: "timer_ok c k dl (h, P)" using assms(1) by (simp_all add: wait_inv_def Let_def)
  note sp = listExpiredCbs_spec [OF inv assms(2,3)]
  have "timer_ok c k dl (h\<lparr>h_timers := tm\<rparr>, P @ present cbs)"
  proof -
    have "\<exists>t'. tm_heap tm p = Some t' \<and> \<not> m_isRecur t' \<and> m_next t' = dl \<and> (timer.m_cb t' = Some (timer_cb c k)
        \<or> timer.m_cb t' = None \<and> (h_conds h (ioc_cond c) = Some 0 \<longrightarrow> timer_cb c k \<in> set (P @ present cbs)))"
      if p: "ioc_timer c = Some p" for p
    proof -
      obtain t where t: "tm_heap (h_timers h) p = Some t" "\<not> m_isRecur t" "m_next t = dl"
        "timer.m_cb t = Some (timer_cb c k) \<or> timer.m_cb t = None \<and> (h_conds h (ioc_cond c) = Some 0 \<longrightarrow> timer_cb c k \<in> set P)"
        using ok p by (auto simp: timer_ok_def)
      show ?thesis
      proof (cases "p \<in> set (due now (h_timers h))")
        case False
        then show ?thesis using t by (auto simp: sp(2))
      next
        case True
        then have "timer.m_cb t \<in> set cbs" unfolding sp(1) using t(1) by force
        then have "timer.m_cb t = Some (timer_cb c k) \<Longrightarrow> timer_cb c k \<in> set (present cbs)" unfolding present_set by simp
        then show ?thesis using True t by (auto simp: sp(2) expire_def)
      qed
    qed
    then show ?thesis using ok by (auto simp: timer_ok_def)
  qed
  moreover have "tm_inv tm" by (rule tm_inv_listExpiredCbs [OF inv assms(2,3)])
  ultimately show ?thesis using assms(1) by (simp add: wait_inv_def Let_def)
qed

lemma wait_env_step:
  assumes "wait_env iom fib c s s'" "0 \<le> ioc_fd c" "is_event (ioc_event c)" "wait_inv iom fib c k dl n s"
  shows "wait_inv iom fib c k dl n s'"
  using assms
proof (induction rule: wait_env.induct)
  case (we_iom h m P)
  then have inv: "iom_inv (h_iom h)" "tm_inv (h_timers h)" by (simp_all add: wait_inv_def Let_def)
  from io_rest_owed [OF we_iom(1) inv(1)] inv(2) show ?case by (intro wait_invI [OF we_iom(4)]) simp_all
next
  case (we_cancel p h r tm P)
  then have inv: "iom_inv (h_iom h)" "tm_inv (h_timers h)" by (simp_all add: wait_inv_def Let_def)
  show ?case using inv we_cancel(1) tm_inv_cancel [OF inv(2) we_cancel(2)] timer_kept(1) [OF inv(2) _ we_cancel(2)]
    by (intro wait_invI [OF we_cancel(5)]) auto
next
  case (we_refresh p now h r tm P)
  then have inv: "iom_inv (h_iom h)" "tm_inv (h_timers h)" by (simp_all add: wait_inv_def Let_def)
  show ?case using inv we_refresh(1) tm_inv_refresh [OF inv(2) we_refresh(2)] timer_kept(2) [OF inv(2) _ we_refresh(2)]
    by (intro wait_invI [OF we_refresh(5)]) auto
next
  case (we_reset p now h ms fn r f tm P)
  then have inv: "iom_inv (h_iom h)" "tm_inv (h_timers h)" by (simp_all add: wait_inv_def Let_def)
  show ?case using inv we_reset(1) tm_inv_reset [OF inv(2) we_reset(2)] timer_kept(3) [OF inv(2) _ we_reset(2)]
    by (intro wait_invI [OF we_reset(5)]) auto
next
  case (we_add p h j cl now ms cb isRecur f tm P)
  then have inv: "iom_inv (h_iom h)" "tm_inv (h_timers h)" and ok: "timer_ok c k dl (h, P)" by (simp_all add: wait_inv_def Let_def)
  have "tm_inv tm" using tm_inv_addTimer [OF inv(2) we_add(1), of now ms cb isRecur] we_add(4) by simp
  moreover have "tm_heap tm p' = tm_heap (h_timers h) p'" if "ioc_timer c = Some p'" for p'
  proof -
    have "p' \<noteq> p" using ok that we_add(1) by (auto simp: timer_ok_def)
    then show ?thesis by (rule timer_kept(4) [OF inv(2) _ we_add(4)])
  qed
  ultimately show ?case using inv we_add(2,3) by (intro wait_invI [OF we_add(7)]) (auto split: if_splits)
next
  case (we_time now h w tm P)
  then have inv: "iom_inv (h_iom h)" "tm_inv (h_timers h)" by (simp_all add: wait_inv_def Let_def)
  have "tm_inv tm" "tm_heap tm = tm_heap (h_timers h)"
    using tm_inv_getTimeOfNextTimer [OF inv(2), of now] getTimeOfNextTimer_state [of now "h_timers h"] we_time(1) by (auto split: if_splits)
  with inv show ?case by (intro wait_invI [OF we_time(4)]) simp_all
next
  case (we_expire q h now cbs tm P)
  then show ?case by (intro wait_expire)
next
  case (we_run iom' cb h h' P1 P2)
  then show ?case using wait_run by blast
next
  case (we_conds C h P)
  then show ?case by (intro wait_invI [OF we_conds(4)]) (auto simp: wait_inv_def Let_def)
next
  case (we_rest h P F T e b s n' w)
  then show ?case by (intro wait_invI [OF we_rest(3)]) (auto simp: wait_inv_def Let_def)
qed

lemma wait_env_steps:
  assumes "(wait_env iom fib c)\<^sup>*\<^sup>* s s'" "0 \<le> ioc_fd c" "is_event (ioc_event c)" "wait_inv iom fib c k dl n s"
  shows "wait_inv iom fib c k dl n s'"
  using assms by (induction rule: rtranclp_induct) (auto intro: wait_env_step)

section \<open>How a wait begins and ends\<close>

text \<open>What a call needs of the state to wait: the fiber executes on a scheduling thread and is registered nowhere.\<close>

definition ready_to_wait :: "call_env \<Rightarrow> nat \<Rightarrow> nat \<Rightarrow> nat \<Rightarrow> int \<Rightarrow> u32 \<Rightarrow> 'w hook \<Rightarrow> bool" where
  "ready_to_wait env iom fib cond fd ev h \<longleftrightarrow>
     iom_reachable (h_iom h) \<and> tm_reachable (h_timers h) \<and> fiber_reachable (h_thread h)
     \<and> running (h_thread h) = Some fib \<and> t_scheduler_fiber (h_thread h) \<noteq> Some fib
     \<and> 0 \<le> fd \<and> is_event ev \<and> registered (h_iom h) fd ev = None \<and> held (iom, fiber_task fib (- 1)) (h_iom h) = {}
     \<and> (\<forall>j cl. h_calls h j = Some cl \<longrightarrow> other_closure cond fib cl)
     \<and> ce_iom env = Some iom \<and> ce_ctl env \<and> ce_timer env \<notin> dom (tm_heap (h_timers h))"

lemma arm_facts:
  assumes "tm_inv (h_timers h)" "ce_timer env \<notin> dom (tm_heap (h_timers h))" "arm env to cond fd ev h = (timer, h')"
  shows "timer = (if to = - 1 then None else Some (ce_timer env))" "h_iom h' = h_iom h" "h_thread h' = h_thread h"
    "h_conds h' = h_conds h" "tm_inv (h_timers h')"
    "h_calls h' = (if to = - 1 then h_calls h else (h_calls h)(ce_call env \<mapsto> Cancel_io cond fd ev))"
    "to \<noteq> - 1 \<Longrightarrow> tm_heap (h_timers h') (ce_timer env)
       = Some (Timer_new (ce_now env) to (Some (Ontimer cond (Callback (ce_call env)))) False)"
proof -
  let ?r = "addTimer (ce_now env) (ce_timer env) (h_timers h) to (Some (Ontimer cond (Callback (ce_call env)))) False"
  have "tm_inv (snd ?r)" by (rule tm_inv_addTimer [OF assms(1,2)])
  moreover have "tm_heap (snd ?r) (ce_timer env) = Some (Timer_new (ce_now env) to (Some (Ontimer cond (Callback (ce_call env)))) False)"
    by (simp add: addTimer_def addTimer_locked_fields)
  ultimately show "timer = (if to = - 1 then None else Some (ce_timer env))" "h_iom h' = h_iom h" "h_thread h' = h_thread h"
    "h_conds h' = h_conds h" "tm_inv (h_timers h')"
    "h_calls h' = (if to = - 1 then h_calls h else (h_calls h)(ce_call env \<mapsto> Cancel_io cond fd ev))"
    "to \<noteq> - 1 \<Longrightarrow> tm_heap (h_timers h') (ce_timer env)
       = Some (Timer_new (ce_now env) to (Some (Ontimer cond (Callback (ce_call env)))) False)"
    using assms(1,3) by (auto simp: arm_def addCondTimer_def Let_def split: if_splits prod.splits)
qed

lemma hold_ok:
  "fiber_inv s \<Longrightarrow> running s = Some p \<Longrightarrow>
   \<exists>s'. YieldToHold q s = Inr s' \<and> running s' = t_scheduler_fiber s \<and> m_state (the_fiber s' p) = HOLD"
  by (auto simp: fiber_inv_def switch_defs)

lemma io_wait_begins:
  assumes "ready_to_wait env iom fib (ioc_cond c) (ioc_fd c) (ioc_event c) h" "h_conds h (ioc_cond c) = Some 0"
  shows "\<exists>c' h1. io_wait env c h = Inr (Waiting c', h1)
    \<and> c' = c\<lparr>ioc_timer := (if ioc_to c = - 1 then None else Some (ce_timer env))\<rparr>
    \<and> running (h_thread h1) = t_scheduler_fiber (h_thread h) \<and> m_state (the_fiber (h_thread h1) fib) = HOLD
    \<and> wait_inv iom fib c' (ce_call env) (ce_now env + ioc_to c) (wakes (iom, fiber_task fib (- 1)) (h_iom h)) (h1, [])"
proof -
  let ?t = "(iom, fiber_task fib (- 1))" and ?fd = "ioc_fd c" and ?ev = "ioc_event c" and ?to = "ioc_to c"
  note ready = assms(1) [unfolded ready_to_wait_def]
  have inv: "iom_inv (h_iom h)" "tm_inv (h_timers h)" "fiber_inv (h_thread h)"
    using ready iom_reachable_inv tm_reachable_inv fiber_reachable_inv by blast+
  have fib: "GetThis (ce_main env) (h_thread h) = (fib, h_thread h)" "m_state (the_fiber (h_thread h) fib) = EXEC"
    using inv(3) ready by (auto simp: fiber_inv_def GetThis_def)
  obtain timer h2 where arm: "arm env ?to (ioc_cond c) ?fd ?ev h = (timer, h2)" by force
  note a = arm_facts [OF inv(2) _ arm]
  obtain m where m: "addEvent (Some iom) fib EXEC True (h_iom h) ?fd ?ev None = Inr (0, m)"
    using addEvent_spec [OF inv(1), of ?fd ?ev None EXEC iom fib True] ready by (auto simp: registered_None)
  from owed_addEvent [OF inv(1) _ _ m, of ?t] ready
  have m': "iom_inv m" "held ?t m = {(?fd, ?ev)}" "wakes ?t m = wakes ?t (h_iom h)" by (auto simp: new_task_def fiber_task_def)
  obtain th where th: "YieldToHold (ce_main env) (h_thread h) = Inr th" "running th = t_scheduler_fiber (h_thread h)" "m_state (the_fiber th fib) = HOLD"
    using hold_ok [OF inv(3)] ready by blast
  have timer: "ce_timer env \<notin> dom (tm_heap (h_timers h))" using ready by simp
  let ?c = "c\<lparr>ioc_timer := timer\<rparr>" and ?h = "h2\<lparr>h_iom := m, h_thread := th\<rparr>"
  have "io_wait env c h = Inr (Waiting ?c, ?h)"
    using ready m th a(2,3) [OF timer] fib by (simp add: io_wait_def arm watch_def yield_hold_def)
  moreover have "wait_inv iom fib ?c (ce_call env) (ce_now env + ?to) (wakes ?t (h_iom h)) (?h, [])"
    using m' a [OF timer] ready assms(2)
    by (auto simp: wait_inv_def timer_ok_def Let_def owed_def io_closure_def timer_cb_def Timer_new_def split: if_splits)
  ultimately show ?thesis using th a(1) [OF timer] by simp
qed

text \<open>Once the deadline has passed, the next look at the timers leads to a callback that wakes the fiber.\<close>

lemma wait_deadline:
  assumes "wait_inv iom fib c k dl n (h, P)" "0 \<le> ioc_fd c" "is_event (ioc_event c)" "ioc_timer c \<noteq> None"
    "wakes (iom, fiber_task fib (- 1)) (h_iom h) = n" "dl \<le> now" "q \<notin> dom (tm_heap (h_timers h))"
    "listExpiredCbs now q (h_timers h) = (cbs, tm)"
  shows "timer_cb c k \<in> set (P @ present cbs)
    \<and> (\<exists>h'. run_timer_cb iom' True (timer_cb c k) (h\<lparr>h_timers := tm\<rparr>) = Inr h' \<and> wakes (iom, fiber_task fib (- 1)) (h_iom h') = Suc n
          \<and> h_conds h' (ioc_cond c) = Some ETIMEDOUT)"
proof -
  let ?h = "h\<lparr>h_timers := tm\<rparr>" and ?t = "(iom, fiber_task fib (- 1))"
  note w = wait_expire [OF assms(1,7,8)]
  have held: "held ?t (h_iom h) \<noteq> {}" using assms(1,5) by (auto simp: wait_inv_def owed_def Let_def)
  then have zero: "h_conds h (ioc_cond c) = Some 0" using assms(1) by (auto simp: wait_inv_def Let_def)
  have ok: "timer_ok c k dl (h, P)" "timer_ok c k dl (?h, P @ present cbs)" and tm: "tm_inv (h_timers h)"
    using assms(1) w by (simp_all add: wait_inv_def Let_def)
  obtain p t where p: "ioc_timer c = Some p" "tm_heap (h_timers h) p = Some t" "\<not> m_isRecur t" "m_next t = dl"
    "timer.m_cb t = Some (timer_cb c k) \<or> timer_cb c k \<in> set P"
    using ok(1) assms(4) zero by (fastforce simp: timer_ok_def)
  note sp = listExpiredCbs_spec [OF tm assms(7,8)]
  have "timer_cb c k \<in> set (present cbs)" if "timer.m_cb t = Some (timer_cb c k)"
  proof -
    have "p \<in> set (m_timers (h_timers h))" using tm_invD(3) [OF tm p(2)] that by simp
    then have "p \<in> set (due now (h_timers h))" using p(2,4) assms(6) by (simp add: due_def nxt_def)
    then have "timer.m_cb t \<in> set cbs" unfolding sp(1) using p(2) by force
    then show ?thesis unfolding present_set that .
  qed
  moreover obtain h' where "run_closure iom' True (io_closure c) ?h = Inr h'" "owed ?t (h_iom h') = Suc n" "held ?t (h_iom h') = {}" "h_conds h' (ioc_cond c) = Some ETIMEDOUT"
    using run_own [OF w assms(2,3), of iom'] by blast
  moreover have "run_timer_cb iom' True (timer_cb c k) ?h = run_closure iom' True (io_closure c) ?h"
    using zero assms(4) by (intro run_timer_cb_own [OF ok(2)]) simp_all
  ultimately show ?thesis using p(5) by (auto simp: owed_def)
qed

text \<open>Every wait is in one of two states.\<close>

lemma wait_states:
  assumes "wait_inv iom fib c k dl n (h, P)"
  shows "if wakes (iom, fiber_task fib (- 1)) (h_iom h) = n
    then registered (h_iom h) (ioc_fd c) (ioc_event c) = Some (iom, fiber_task fib (- 1)) \<and> h_conds h (ioc_cond c) = Some 0
    else wakes (iom, fiber_task fib (- 1)) (h_iom h) = Suc n \<and> held (iom, fiber_task fib (- 1)) (h_iom h) = {}"
proof -
  let ?t = "(iom, fiber_task fib (- 1))"
  have w: "held ?t (h_iom h) \<subseteq> {(ioc_fd c, ioc_event c)}" "wakes ?t (h_iom h) + card (held ?t (h_iom h)) = Suc n"
    "h_conds h (ioc_cond c) = Some 0 \<or> held ?t (h_iom h) = {}"
    using assms by (auto simp: wait_inv_def owed_def Let_def)
  from w(1) consider "held ?t (h_iom h) = {}" | "held ?t (h_iom h) = {(ioc_fd c, ioc_event c)}" by blast
  then show ?thesis
  proof cases
    case 2
    then have "(ioc_fd c, ioc_event c) \<in> held ?t (h_iom h)" by simp
    then show ?thesis using w 2 by (auto simp: held_def)
  qed (use w in simp)
qed

definition no_callback :: "nat \<Rightarrow> timer_manager \<Rightarrow> bool" where
  "no_callback p m \<longleftrightarrow> (\<exists>t. tm_heap m p = Some t \<and> timer.m_cb t = None)"

lemma wait_ends:
  assumes "wait_inv iom fib c k dl n (h, P)"
  shows "\<exists>h'. disarm (ioc_timer c) h = Inr h' \<and> (\<forall>p. ioc_timer c = Some p \<longrightarrow> no_callback p (h_timers h'))
    \<and> do_io_resume env f c h =
        (if h_conds h (ioc_cond c) = Some ETIMEDOUT then Some (Inr (returned (ioc_cond c) (- 1) (h'\<lparr>h_errno := ETIMEDOUT\<rparr>)))
         else io_try env f c h')"
proof -
  have tm: "tm_inv (h_timers h)" and ok: "timer_ok c k dl (h, P)"
    and cond: "h_conds h (ioc_cond c) = Some 0 \<or> h_conds h (ioc_cond c) = Some ETIMEDOUT"
    using assms by (auto simp: wait_inv_def Let_def)
  have "\<exists>tm'. disarm (ioc_timer c) h = Inr (h\<lparr>h_timers := tm'\<rparr>) \<and> (\<forall>p. ioc_timer c = Some p \<longrightarrow> no_callback p tm')"
  proof (cases "ioc_timer c")
    case None
    then show ?thesis by (intro exI [of _ "h_timers h"]) (simp add: disarm_def)
  next
    case (Some p)
    then obtain t where t: "tm_heap (h_timers h) p = Some t" using ok by (auto simp: timer_ok_def)
    show ?thesis
    proof (cases "timer.m_cb t = None")
      case True
      then show ?thesis using cancel_eq [OF tm t] t Some by (intro exI [of _ "h_timers h"]) (simp add: disarm_def no_callback_def)
    qed (use cancel_eq [OF tm t] Some in \<open>auto simp: disarm_def no_callback_def\<close>)
  qed
  then obtain tm' where d: "disarm (ioc_timer c) h = Inr (h\<lparr>h_timers := tm'\<rparr>)" "\<forall>p. ioc_timer c = Some p \<longrightarrow> no_callback p tm'" by blast
  then show ?thesis using cond by (intro exI [of _ "h\<lparr>h_timers := tm'\<rparr>"]) (auto simp: do_io_resume_def)
qed

lemma do_io_waits:
  assumes "ready_to_wait env iom fib (ce_cond env) fd ev h" "t_hook_enable h"
    and "ctx_at h fd = Inr (Some (p, x))" "\<not> m_isClosed x" "m_isSocket x" "\<not> m_userNonblock x"
    and "f (fm_kernel (h_fds h), h_os h) = (- 1, EAGAIN, k, w)"
  shows "\<exists>c h1. do_io env fd f ev rcv h = Some (Inr (Waiting c, h1)) \<and> running (h_thread h1) = t_scheduler_fiber (h_thread h)
    \<and> ioc_fd c = fd \<and> ioc_event c = ev \<and> 0 \<le> ioc_fd c \<and> is_event (ioc_event c)
    \<and> (getTimeout x rcv \<noteq> - 1 \<longrightarrow> ioc_timer c \<noteq> None)
    \<and> wait_inv iom fib c (ce_call env) (ce_now env + getTimeout x rcv) (wakes (iom, fiber_task fib (- 1)) (h_iom h)) (h1, [])"
proof -
  let ?to = "getTimeout x rcv"
  define c0 where "c0 = \<lparr>ioc_fd = fd, ioc_event = ev, ioc_to = ?to, ioc_cond = ce_cond env, ioc_timer = None\<rparr>"
  define h0 where "h0 = snd (syscall f (h\<lparr>h_conds := (h_conds h)(ce_cond env \<mapsto> 0)\<rparr>))"
  have h0: "h_iom h0 = h_iom h" "h_timers h0 = h_timers h" "h_thread h0 = h_thread h" "h_calls h0 = h_calls h"
    "h_conds h0 (ce_cond env) = Some 0"
    by (simp_all add: h0_def syscall_def assms(7))
  have begins: "do_io env fd f ev rcv h = Some (io_wait env c0 h0)"
    by (simp add: do_io_def assms io_try_def uninterrupted.simps syscall_def Let_def c0_def h0_def)
  have "ready_to_wait env iom fib (ioc_cond c0) (ioc_fd c0) (ioc_event c0) h0"
    using assms(1) h0 by (simp add: ready_to_wait_def c0_def)
  from io_wait_begins [OF this] obtain c h1 where c: "io_wait env c0 h0 = Inr (Waiting c, h1)"
    "c = c0\<lparr>ioc_timer := (if ?to = - 1 then None else Some (ce_timer env))\<rparr>"
    "running (h_thread h1) = t_scheduler_fiber (h_thread h)"
    and w: "wait_inv iom fib c (ce_call env) (ce_now env + ?to) (wakes (iom, fiber_task fib (- 1)) (h_iom h)) (h1, [])"
    using h0 by (auto simp: c0_def)
  have "ioc_fd c = fd" "ioc_event c = ev" "0 \<le> ioc_fd c" "is_event (ioc_event c)" "?to \<noteq> - 1 \<longrightarrow> ioc_timer c \<noteq> None"
    using c(2) assms(1) by (simp_all add: c0_def ready_to_wait_def)
  with begins c(1,3) w show ?thesis by auto
qed

section \<open>Properties\<close>


lemma demo_ready: "ready_to_wait demo_env 9 2 8 7 READ demo_hook"
proof -
  have "registered IOManager_new fd ev = None" for fd ev by (simp add: registered_None events_of_new)
  then show ?thesis
    using demo_thread_reachable iom_new tm_reachable.reach_new [of 1000] demo_running
    by (simp add: ready_to_wait_def demo_hook_def demo_env_def held_def is_event_def) (simp add: TimerManager_new_def)
qed


end
