(* ===== verification/Tcp_Server.thy ===== *)
theory Tcp_Server
  imports Socket
begin

text \<open>
  windgent/tcp\_server.h and windgent/tcp\_server.cc: a server with its listening sockets. The sockets are shared
  pointers that the server, the tasks and the running accept loops hold, so that they live in a heap and everything
  else has addresses. \<open>tcp_tasks\<close> are the functions scheduled on the accepting I/O manager and not begun yet, \<open>tcp_loops\<close> the
  running calls of \<open>handleAccept\<close>, \<open>tcp_clients\<close> the clients for which \<open>handleClient\<close> was scheduled on the worker. Logging
  is left out.
\<close>

datatype accept_task = Accept nat | Shut

record tcp_server =
  tcp_socks :: "nat list"
  tcp_recvTimeout :: u64
  tcp_name :: string
  tcp_isStop :: bool
  tcp_heap :: "nat \<rightharpoonup> sock"
  tcp_tasks :: "accept_task list"
  tcp_loops :: "nat list"
  tcp_clients :: "nat list"

text \<open>\<open>read_timeout\<close> is the value of \<open>tcp_server.read_timeout\<close>.\<close>

definition TcpServer_new :: "u64 \<Rightarrow> tcp_server" where
  "TcpServer_new read_timeout =
     \<lparr>tcp_socks = [], tcp_recvTimeout = read_timeout, tcp_name = ''windgent/1.0.0'', tcp_isStop = True, tcp_heap = Map.empty,
      tcp_tasks = [], tcp_loops = [], tcp_clients = []\<rparr>"

fun close_all :: "'w sysapi \<Rightarrow> nat list \<Rightarrow> tcp_server \<Rightarrow> 'w \<Rightarrow> (tcp_server \<times> 'w) result" where
  "close_all k [] S w = Inr (S, w)"
| "close_all k (p # ps) S w =
     (case tcp_heap S p of
        None \<Rightarrow> Inl Null_deref
      | Some s \<Rightarrow> let (_, s, w) = Socket_close k s w in close_all k ps (S\<lparr>tcp_heap := (tcp_heap S)(p \<mapsto> s)\<rparr>) w)"

definition TcpServer_destroy :: "'w sysapi \<Rightarrow> tcp_server \<Rightarrow> 'w \<Rightarrow> (tcp_server \<times> 'w) result" where
  "TcpServer_destroy k S w = rbind (close_all k (tcp_socks S) S w) (\<lambda>(S, w). Inr (S\<lparr>tcp_socks := []\<rparr>, w))"

text \<open>
  The loop of \<open>bind\<close>; \<open>new\<close> are the addresses of the socket objects. A socket that is not kept is closed by its destructor.
\<close>

fun bind_each :: "endian \<Rightarrow> 'w sysapi \<Rightarrow> int \<Rightarrow> (nat \<times> address) list \<Rightarrow> address list \<Rightarrow> tcp_server \<Rightarrow> 'w
   \<Rightarrow> (address list \<times> tcp_server \<times> 'w) result" where
  "bind_each host k backlog [] fails S w = Inr (fails, S, w)"
| "bind_each host k backlog ((p, addr) # rest) fails S w =
     rbind (Socket_bind host k (createTCP addr) addr w) (\<lambda>(ok, sock, w).
       if \<not> ok then let (_, _, w) = Socket_close k sock w in bind_each host k backlog rest (fails @ [addr]) S w
       else
         let (ok, w) = Socket_listen k sock backlog w in
         if \<not> ok then let (_, _, w) = Socket_close k sock w in bind_each host k backlog rest (fails @ [addr]) S w
         else bind_each host k backlog rest fails (S\<lparr>tcp_socks := tcp_socks S @ [p], tcp_heap := (tcp_heap S)(p \<mapsto> sock)\<rparr>) w)"

text \<open>\<open>m_socks.clear()\<close>: the destructor runs for the sockets nothing else holds.\<close>

definition unheld :: "tcp_server \<Rightarrow> nat \<Rightarrow> bool" where
  "unheld S p \<longleftrightarrow> Accept p \<notin> set (tcp_tasks S) \<and> p \<notin> set (tcp_loops S)"

definition clear_socks :: "'w sysapi \<Rightarrow> tcp_server \<Rightarrow> 'w \<Rightarrow> (tcp_server \<times> 'w) result" where
  "clear_socks k S w =
     rbind (close_all k (filter (unheld S) (tcp_socks S)) S w) (\<lambda>(S, w). Inr (S\<lparr>tcp_socks := []\<rparr>, w))"

text \<open>\<open>addrs\<close> and \<open>fails\<close> are passed by value: the caller's vector of failed addresses stays as it is.\<close>

definition TcpServer_bind ::
  "endian \<Rightarrow> 'w sysapi \<Rightarrow> int \<Rightarrow> (nat \<times> address) list \<Rightarrow> address list \<Rightarrow> tcp_server \<Rightarrow> 'w \<Rightarrow> (bool \<times> tcp_server \<times> 'w) result" where
  "TcpServer_bind host k backlog addrs fails S w =
     rbind (bind_each host k backlog addrs fails S w) (\<lambda>(fails, S, w).
       if fails \<noteq> [] then rbind (clear_socks k S w) (\<lambda>(S, w). Inr (False, S, w)) else Inr (True, S, w))"

definition TcpServer_bind1 :: "endian \<Rightarrow> 'w sysapi \<Rightarrow> int \<Rightarrow> nat \<Rightarrow> address \<Rightarrow> tcp_server \<Rightarrow> 'w \<Rightarrow> (bool \<times> tcp_server \<times> 'w) result" where
  "TcpServer_bind1 host k backlog p addr S w = TcpServer_bind host k backlog [(p, addr)] [] S w"

definition TcpServer_start :: "tcp_server \<Rightarrow> bool \<times> tcp_server" where
  "TcpServer_start S =
     (if \<not> tcp_isStop S then (True, S)
      else (True, S\<lparr>tcp_isStop := False, tcp_tasks := tcp_tasks S @ map Accept (tcp_socks S)\<rparr>))"

definition TcpServer_stop :: "tcp_server \<Rightarrow> tcp_server" where
  "TcpServer_stop S = S\<lparr>tcp_isStop := True, tcp_tasks := tcp_tasks S @ [Shut]\<rparr>"

text \<open>The function that \<open>stop\<close> schedules; \<open>ok\<close> and \<open>m\<close> are as for \<open>Socket::cancelAll\<close>.\<close>

fun shut_each :: "bool \<Rightarrow> 'w sysapi \<Rightarrow> nat list \<Rightarrow> iomanager \<Rightarrow> tcp_server \<Rightarrow> 'w \<Rightarrow> (iomanager \<times> tcp_server \<times> 'w) result" where
  "shut_each ok k [] m S w = Inr (m, S, w)"
| "shut_each ok k (p # ps) m S w =
     (case tcp_heap S p of
        None \<Rightarrow> Inl Null_deref
      | Some s \<Rightarrow>
          rbind (Socket_cancelAll ok m s) (\<lambda>(_, m).
            let (_, s, w) = Socket_close k s w in shut_each ok k ps m (S\<lparr>tcp_heap := (tcp_heap S)(p \<mapsto> s)\<rparr>) w))"

definition run_shut :: "bool \<Rightarrow> 'w sysapi \<Rightarrow> iomanager \<Rightarrow> tcp_server \<Rightarrow> 'w \<Rightarrow> (iomanager \<times> tcp_server \<times> 'w) result" where
  "run_shut ok k m S w = rbind (shut_each ok k (tcp_socks S) m S w) (\<lambda>(m, S, w). Inr (m, S\<lparr>tcp_socks := []\<rparr>, w))"

text \<open>
  The test of the loop of \<open>handleAccept\<close> and one round: \<open>None\<close> when the loop ends. \<open>c\<close> is the address of the client.
\<close>

definition accept_round :: "endian \<Rightarrow> 'w sysapi \<Rightarrow> nat \<Rightarrow> nat \<Rightarrow> tcp_server \<Rightarrow> 'w \<Rightarrow> (tcp_server \<times> 'w) option result" where
  "accept_round host k p c S w =
     (if tcp_isStop S then Inr None
      else case tcp_heap S p of
        None \<Rightarrow> Inl Null_deref
      | Some s \<Rightarrow>
          rbind (Socket_accept host k s w) (\<lambda>(client, w).
            case client of
              None \<Rightarrow> Inr (Some (S, w))
            | Some cl \<Rightarrow>
                let w = setRecvTimeout k cl (tcp_recvTimeout S) w in
                Inr (Some (S\<lparr>tcp_heap := (tcp_heap S)(c \<mapsto> cl), tcp_clients := tcp_clients S @ [c]\<rparr>, w))))"

section \<open>The operations\<close>

definition closed :: "sock \<Rightarrow> bool" where
  "closed s \<longleftrightarrow> \<not> isValid s \<and> \<not> m_isConnected s"

lemma close_closed: "Socket_close k s w = (r, s', w') \<Longrightarrow> closed s'"
  using close_outcome [of k s w r s' w'] by (simp add: closed_def isValid_def)

text \<open>The sockets \<open>ps\<close> have been closed and all others left alone.\<close>

definition closes :: "nat list \<Rightarrow> (nat \<rightharpoonup> sock) \<Rightarrow> (nat \<rightharpoonup> sock) \<Rightarrow> bool" where
  "closes ps h h' \<longleftrightarrow> (\<forall>p. if p \<in> set ps then \<exists>s. h' p = Some s \<and> closed s else h' p = h p)"

lemma closes_Cons: "closes ps (h(p \<mapsto> s)) h' \<Longrightarrow> closed s \<Longrightarrow> closes (p # ps) h h'"
  by (auto simp: closes_def split: if_splits)

lemma closesD:
  "closes ps h h' \<Longrightarrow> p \<in> set ps \<Longrightarrow> \<exists>s. h' p = Some s \<and> closed s"
  "closes ps h h' \<Longrightarrow> p \<notin> set ps \<Longrightarrow> h' p = h p"
  unfolding closes_def by presburger+

lemma close_all_spec:
  "set ps \<subseteq> dom (tcp_heap S) \<Longrightarrow> \<exists>h w'. close_all k ps S w = Inr (S\<lparr>tcp_heap := h\<rparr>, w') \<and> closes ps (tcp_heap S) h"
proof (induction ps arbitrary: S w)
  case Nil
  show ?case by (intro exI [of _ "tcp_heap S"]) (simp add: closes_def)
next
  case (Cons p ps)
  then obtain s where s: "tcp_heap S p = Some s" by auto
  obtain r s' w' where c: "Socket_close k s w = (r, s', w')" by (rule prod_cases3)
  let ?S = "S\<lparr>tcp_heap := (tcp_heap S)(p \<mapsto> s')\<rparr>"
  have "set ps \<subseteq> dom (tcp_heap ?S)" using Cons.prems by auto
  from Cons.IH [OF this, of w'] obtain h w'' where h: "close_all k ps ?S w' = Inr (?S\<lparr>tcp_heap := h\<rparr>, w'')"
    "closes ps (tcp_heap ?S) h" by blast
  have "closes (p # ps) (tcp_heap S) h" using h(2) by (intro closes_Cons [OF _ close_closed [OF c]]) simp
  moreover have "close_all k (p # ps) S w = Inr (S\<lparr>tcp_heap := h\<rparr>, w'')" using h(1) by (simp add: s c)
  ultimately show ?case by blast
qed

lemma shut_each_spec:
  "shut_each ok k ps m S w = Inr (m', S', w') \<Longrightarrow> \<exists>h. S' = S\<lparr>tcp_heap := h\<rparr> \<and> closes ps (tcp_heap S) h"
proof (induction ps arbitrary: m S w)
  case Nil
  then show ?case by (intro exI [of _ "tcp_heap S"]) (simp add: closes_def)
next
  case (Cons p ps)
  then obtain s where s: "tcp_heap S p = Some s" by (auto split: option.splits)
  obtain r s' w1 where c: "Socket_close k s w = (r, s', w1)" by (rule prod_cases3)
  let ?S = "S\<lparr>tcp_heap := (tcp_heap S)(p \<mapsto> s')\<rparr>"
  obtain m1 where "shut_each ok k ps m1 ?S w1 = Inr (m', S', w')" using Cons.prems by (auto simp: s c returns)
  from Cons.IH [OF this] obtain h where h: "S' = ?S\<lparr>tcp_heap := h\<rparr>" "closes ps (tcp_heap ?S) h" by blast
  have "closes (p # ps) (tcp_heap S) h" using h(2) by (intro closes_Cons [OF _ close_closed [OF c]]) simp
  with h(1) show ?case by auto
qed

lemma listen_valid: "Socket_listen k s b w = (True, w') \<Longrightarrow> isValid s"
  by (auto simp: Socket_listen_def split: if_splits)

text \<open>The loop of \<open>bind\<close>: the sockets that listen are appended, the addresses of the others are collected.\<close>

definition listening :: "nat \<times> address \<Rightarrow> (nat \<rightharpoonup> sock) \<Rightarrow> bool" where
  "listening e h \<longleftrightarrow> (\<exists>s. h (fst e) = Some s \<and> isValid s \<and> m_family s = uint (getFamily (snd e)))"

lemma bind_each_spec:
  assumes "bind_each host k b addrs fails S w = Inr (fails', S', w')" "distinct (map fst addrs)"
    "set (map fst addrs) \<inter> dom (tcp_heap S) = {}"
  shows "\<exists>good bad h. set addrs = set good \<union> set bad \<and> fails' = fails @ map snd bad \<and> (bad = [] \<longrightarrow> good = addrs)
    \<and> S' = S\<lparr>tcp_socks := tcp_socks S @ map fst good, tcp_heap := h\<rparr> \<and> (\<forall>e \<in> set good. listening e h)
    \<and> (\<forall>q. q \<notin> fst ` set good \<longrightarrow> h q = tcp_heap S q)"
  using assms
proof (induction addrs arbitrary: fails S w)
  case Nil
  then show ?case by (intro exI [of _ "[]"] exI [of _ "tcp_heap S"]) simp
next
  case (Cons e addrs)
  obtain p a where e: "e = (p, a)" by force
  obtain ok s w1 where b: "Socket_bind host k (createTCP a) a w = Inr (ok, s, w1)"
    using Cons.prems(1) by (auto simp: e returns)
  obtain ok' w2 where l: "Socket_listen k s b w1 = (ok', w2)" by force
  show ?case
  proof (cases "ok \<and> ok'")
    case False
    then obtain w3 where "bind_each host k b addrs (fails @ [a]) S w3 = Inr (fails', S', w')"
      using Cons.prems(1) by (auto simp: e b l split: prod.splits if_splits)
    from Cons.IH [OF this] Cons.prems(2,3) obtain good bad h where g: "set addrs = set good \<union> set bad" "fails' = (fails @ [a]) @ map snd bad"
      "S' = S\<lparr>tcp_socks := tcp_socks S @ map fst good, tcp_heap := h\<rparr>" "\<forall>e \<in> set good. listening e h"
      "\<forall>q. q \<notin> fst ` set good \<longrightarrow> h q = tcp_heap S q" by auto
    then show ?thesis by (intro exI [of _ good] exI [of _ "e # bad"] exI [of _ h]) (simp add: e)
  next
    case True
    let ?S = "S\<lparr>tcp_socks := tcp_socks S @ [p], tcp_heap := (tcp_heap S)(p \<mapsto> s)\<rparr>"
    have r: "bind_each host k b addrs fails ?S w2 = Inr (fails', S', w')" using Cons.prems(1) True by (simp add: e b l)
    have "set (map fst addrs) \<inter> dom (tcp_heap ?S) = {}" using Cons.prems(2,3) by (auto simp: e)
    from Cons.IH [OF r _ this] Cons.prems(2) obtain good bad h where g: "set addrs = set good \<union> set bad" "fails' = fails @ map snd bad"
      "bad = [] \<longrightarrow> good = addrs" "S' = ?S\<lparr>tcp_socks := tcp_socks ?S @ map fst good, tcp_heap := h\<rparr>" "\<forall>e \<in> set good. listening e h"
      "\<forall>q. q \<notin> fst ` set good \<longrightarrow> h q = tcp_heap ?S q" by auto
    have "set good \<subseteq> set addrs" using g(1) by blast
    then have "p \<notin> fst ` set good" using Cons.prems(2) by (auto simp: e)
    then have "h p = Some s" using g(6) by simp
    moreover have "isValid s" "m_family s = uint (getFamily a)"
      using listen_valid [of k s b w1 w2] l bind_outcome [of host k "createTCP a" a w ok s w1] b True by (auto simp: createTCP_def Socket_new_def)
    ultimately have "listening e h" by (simp add: listening_def e)
    with g show ?thesis by (intro exI [of _ "e # good"] exI [of _ bad] exI [of _ h]) (auto simp: e)
  qed
qed

lemma shut_each_total:
  assumes "iom_inv m" "distinct ps" "\<forall>p \<in> set ps. \<exists>s. tcp_heap S p = Some s \<and> 0 \<le> m_sockfd s"
  shows "\<exists>m' S' w'. shut_each ok k ps m S w = Inr (m', S', w')"
  using assms
proof (induction ps arbitrary: m S w)
  case (Cons p ps)
  then obtain s where s: "tcp_heap S p = Some s" "0 \<le> m_sockfd s" by auto
  obtain r m1 where m1: "Socket_cancelAll ok m s = Inr (r, m1)" "iom_inv m1"
    using cancelAll_spec [OF Cons.prems(1) s(2), of ok] Cons.prems(1) by (auto simp: Socket_cancelAll_def split: if_splits)
  obtain r' s' w1 where c: "Socket_close k s w = (r', s', w1)" by (rule prod_cases3)
  have "\<forall>q \<in> set ps. \<exists>s. tcp_heap (S\<lparr>tcp_heap := (tcp_heap S)(p \<mapsto> s')\<rparr>) q = Some s \<and> 0 \<le> m_sockfd s" using Cons.prems(2,3) by auto
  from Cons.IH [OF m1(2) _ this] Cons.prems(2) show ?case by (simp add: s m1 c)
qed simp

section \<open>Properties\<close>




text \<open>A server with one listening socket that is stopped and started again.\<close>

definition restarted :: tcp_server where
  "restarted = snd (TcpServer_start (TcpServer_stop ((TcpServer_new 0)\<lparr>tcp_socks := [1], tcp_heap := [1 \<mapsto> (Socket_new 2 1 0)\<lparr>m_sockfd := 5\<rparr>]\<rparr>)))"


end
