(* ===== verification/Locks.thy ===== *)
theory Locks
  imports Prelude
begin

text \<open>
  windgent/mutex.h and windgent/mutex.cc: the locks, the scoped guards over them and the semaphore. Threads are
  numbers. An operation that would block returns \<open>None\<close> and can be tried again. The state of a lock says who holds it;
  for the spin locks, where the machine word does not, the holder is kept beside the word. What the guards promise is
  proved once for any lock with the laws of the locale \<open>lockable\<close>, and mutual exclusion for \<open>exclusive\<close> ones;
  the locks of the file are interpretations.
\<close>

section \<open>The locks\<close>

text \<open>\<open>Mutex\<close> (a default \<open>pthread_mutex_t\<close>) and \<open>SpinLock\<close> are their holder.\<close>

type_synonym mutex = "nat option"

definition Mutex_lock :: "nat \<Rightarrow> mutex \<Rightarrow> mutex option" where
  "Mutex_lock t m = (if m = None then Some (Some t) else None)"

definition Mutex_unlock :: "nat \<Rightarrow> mutex \<Rightarrow> mutex" where
  "Mutex_unlock t m = None"

definition SpinLock_lock :: "nat \<Rightarrow> mutex \<Rightarrow> mutex option" where
  "SpinLock_lock t m = (if m = None then Some (Some t) else None)"

definition SpinLock_unlock :: "nat \<Rightarrow> mutex \<Rightarrow> mutex" where
  "SpinLock_unlock t m = None"

text \<open>\<open>CASLock\<close>: the flag, and beside it the thread whose test found it clear. One test is one step; \<open>None\<close> is another turn of the loop.\<close>

record cas_lock =
  cas_flag :: bool
  cas_owner :: "nat option"

definition test_and_set :: "bool \<Rightarrow> bool \<times> bool" where
  "test_and_set flag = (flag, True)"

definition CASLock_new :: cas_lock where
  "CASLock_new = \<lparr>cas_flag = False, cas_owner = None\<rparr>"

definition CASLock_lock :: "nat \<Rightarrow> cas_lock \<Rightarrow> cas_lock option" where
  "CASLock_lock t l =
     (let (old, flag) = test_and_set (cas_flag l) in if old then None else Some \<lparr>cas_flag = flag, cas_owner = Some t\<rparr>)"

definition CASLock_unlock :: "nat \<Rightarrow> cas_lock \<Rightarrow> cas_lock" where
  "CASLock_unlock t l = \<lparr>cas_flag = False, cas_owner = None\<rparr>"

text \<open>\<open>NullMutex\<close> excludes nobody: its state is the set of threads between \<open>lock\<close> and \<open>unlock\<close>.\<close>

definition NullMutex_lock :: "nat \<Rightarrow> nat set \<Rightarrow> nat set option" where
  "NullMutex_lock t l = Some (insert t l)"

definition NullMutex_unlock :: "nat \<Rightarrow> nat set \<Rightarrow> nat set" where
  "NullMutex_unlock t l = l - {t}"

text \<open>\<open>RWMutex\<close> (a \<open>pthread_rwlock_t\<close>): the threads that hold it for reading and the one that holds it for writing.\<close>

record rw_mutex =
  rw_readers :: "nat list"
  rw_writer :: "nat option"

definition RWMutex_new :: rw_mutex where
  "RWMutex_new = \<lparr>rw_readers = [], rw_writer = None\<rparr>"

definition rdlock :: "nat \<Rightarrow> rw_mutex \<Rightarrow> rw_mutex option" where
  "rdlock t l = (if rw_writer l = None then Some (l\<lparr>rw_readers := t # rw_readers l\<rparr>) else None)"

definition wrlock :: "nat \<Rightarrow> rw_mutex \<Rightarrow> rw_mutex option" where
  "wrlock t l = (if rw_writer l = None \<and> rw_readers l = [] then Some (l\<lparr>rw_writer := Some t\<rparr>) else None)"

definition rw_unlock :: "nat \<Rightarrow> rw_mutex \<Rightarrow> rw_mutex" where
  "rw_unlock t l = (if rw_writer l = Some t then l\<lparr>rw_writer := None\<rparr> else l\<lparr>rw_readers := remove1 t (rw_readers l)\<rparr>)"

section \<open>Scoped guards\<close>

text \<open>
  \<open>ScopedLockImpl\<close>, and \<open>RdScopedLockImpl\<close> and \<open>WrScopedLockImpl\<close>, which differ in the operation they call: a guard is
  its flag \<open>m_locked\<close>.
\<close>

definition guard_new :: "(nat \<Rightarrow> 'l \<Rightarrow> 'l option) \<Rightarrow> nat \<Rightarrow> 'l \<Rightarrow> (bool \<times> 'l) option" where
  "guard_new lck t l = map_option (\<lambda>l. (True, l)) (lck t l)"

definition guard_lock :: "(nat \<Rightarrow> 'l \<Rightarrow> 'l option) \<Rightarrow> nat \<Rightarrow> bool \<Rightarrow> 'l \<Rightarrow> (bool \<times> 'l) option" where
  "guard_lock lck t locked l = (if \<not> locked then map_option (\<lambda>l. (True, l)) (lck t l) else Some (locked, l))"

definition guard_unlock :: "(nat \<Rightarrow> 'l \<Rightarrow> 'l) \<Rightarrow> nat \<Rightarrow> bool \<Rightarrow> 'l \<Rightarrow> bool \<times> 'l" where
  "guard_unlock unl t locked l = (if locked then (False, unl t l) else (locked, l))"

definition guard_destroy :: "(nat \<Rightarrow> 'l \<Rightarrow> 'l) \<Rightarrow> nat \<Rightarrow> bool \<Rightarrow> 'l \<Rightarrow> 'l" where
  "guard_destroy unl t locked l = snd (guard_unlock unl t locked l)"

section \<open>Threads with guards\<close>

text \<open>
  Every thread has at most one guard on the lock, made and used in any order with those of the others; \<open>lcks\<close> are the
  operations a guard may be made with (one, or the two of a read-write lock), and a guard remembers its own.
\<close>

record ('l, 'k) guarded =
  g_lock :: 'l
  g_guards :: "nat \<rightharpoonup> 'k \<times> bool"

inductive guard_step :: "('k \<Rightarrow> nat \<Rightarrow> 'l \<Rightarrow> 'l option) \<Rightarrow> (nat \<Rightarrow> 'l \<Rightarrow> 'l) \<Rightarrow> ('l, 'k) guarded \<Rightarrow> ('l, 'k) guarded \<Rightarrow> bool" for lcks unl where
  gs_new: "g_guards s t = None \<Longrightarrow> guard_new (lcks k) t (g_lock s) = Some (b, l) \<Longrightarrow>
    guard_step lcks unl s (s\<lparr>g_lock := l, g_guards := (g_guards s)(t \<mapsto> (k, b))\<rparr>)"
| gs_lock: "g_guards s t = Some (k, b) \<Longrightarrow> guard_lock (lcks k) t b (g_lock s) = Some (b', l) \<Longrightarrow>
    guard_step lcks unl s (s\<lparr>g_lock := l, g_guards := (g_guards s)(t \<mapsto> (k, b'))\<rparr>)"
| gs_unlock: "g_guards s t = Some (k, b) \<Longrightarrow> guard_unlock unl t b (g_lock s) = (b', l) \<Longrightarrow>
    guard_step lcks unl s (s\<lparr>g_lock := l, g_guards := (g_guards s)(t \<mapsto> (k, b'))\<rparr>)"
| gs_destroy: "g_guards s t = Some (k, b) \<Longrightarrow>
    guard_step lcks unl s (s\<lparr>g_lock := guard_destroy unl t b (g_lock s), g_guards := (g_guards s)(t := None)\<rparr>)"

definition locked_guard :: "('l, 'k) guarded \<Rightarrow> nat \<Rightarrow> 'k \<Rightarrow> bool" where
  "locked_guard s t k \<longleftrightarrow> g_guards s t = Some (k, True)"

section \<open>What locks promise\<close>

text \<open>
  A lock with several modes (\<open>k\<close>). Taking it makes the thread a holder, releasing it ends what the thread holds, nothing
  changes for other threads, a lock nobody holds can be taken, and holders do not conflict. \<open>ok\<close> is the invariant of the lock.
\<close>

locale lockable =
  fixes lcks :: "'k \<Rightarrow> nat \<Rightarrow> 'l \<Rightarrow> 'l option" and unl :: "nat \<Rightarrow> 'l \<Rightarrow> 'l"
    and holds :: "'k \<Rightarrow> nat \<Rightarrow> 'l \<Rightarrow> bool" and ok :: "'l \<Rightarrow> bool"
  assumes lock_holds: "ok l \<Longrightarrow> lcks k t l = Some l' \<Longrightarrow> (\<And>j. \<not> holds j t l) \<Longrightarrow>
      ok l' \<and> (holds j u l' \<longleftrightarrow> holds j u l \<or> (j = k \<and> u = t))"
    and unlock_holds: "ok l \<Longrightarrow> holds k t l \<Longrightarrow> ok (unl t l) \<and> (holds j u (unl t l) \<longleftrightarrow> holds j u l \<and> u \<noteq> t)"
    and available: "ok l \<Longrightarrow> (\<And>j u. \<not> holds j u l) \<Longrightarrow> lcks k t l \<noteq> None"
begin

text \<open>A guard that is locked and a thread that holds the lock are the same thing.\<close>

definition agrees :: "('l, 'k) guarded \<Rightarrow> bool" where
  "agrees s \<longleftrightarrow> ok (g_lock s) \<and> (\<forall>k t. holds k t (g_lock s) \<longleftrightarrow> locked_guard s t k)"

lemma agrees_taken:
  assumes "agrees s" "lcks k t (g_lock s) = Some l" "\<And>j. \<not> locked_guard s t j"
  shows "agrees (s\<lparr>g_lock := l, g_guards := (g_guards s)(t \<mapsto> (k, True))\<rparr>)"
  using lock_holds [OF _ assms(2)] assms(1,3) by (auto simp: agrees_def locked_guard_def)

lemma agrees_released:
  assumes "agrees s" "locked_guard s t k" "\<And>j. g \<noteq> Some (j, True)"
  shows "agrees (s\<lparr>g_lock := unl t (g_lock s), g_guards := (g_guards s)(t := g)\<rparr>)"
  using unlock_holds [of "g_lock s" k t] assms by (auto simp: agrees_def locked_guard_def)

lemma agrees_idle:
  assumes "agrees s" "\<And>j. \<not> locked_guard s t j" "\<And>j. g \<noteq> Some (j, True)"
  shows "agrees (s\<lparr>g_lock := g_lock s, g_guards := (g_guards s)(t := g)\<rparr>)"
  using assms by (auto simp: agrees_def locked_guard_def)

lemma agrees_step: "guard_step lcks unl s s' \<Longrightarrow> agrees s \<Longrightarrow> agrees s'"
proof (induction rule: guard_step.induct)
  case (gs_new s t k b l)
  then have "lcks k t (g_lock s) = Some l" "b" by (auto simp: guard_new_def)
  then show ?case using agrees_taken [of s k t l] gs_new by (simp add: locked_guard_def)
next
  case (gs_lock s t k b b' l)
  then have r: "(if b then l = g_lock s else lcks k t (g_lock s) = Some l)" "b'" by (auto simp: guard_lock_def split: if_splits)
  show ?case
  proof (cases b)
    case True
    then show ?thesis using r gs_lock by (auto simp: agrees_def locked_guard_def)
  next
    case False
    then show ?thesis using r agrees_taken [of s k t l] gs_lock by (simp add: locked_guard_def)
  qed
next
  case (gs_unlock s t k b b' l)
  show ?case
  proof (cases b)
    case True
    then show ?thesis using agrees_released [of s t k "Some (k, False)"] gs_unlock by (simp add: guard_unlock_def locked_guard_def)
  next
    case False
    then show ?thesis using agrees_idle [of s t "Some (k, False)"] gs_unlock by (auto simp: guard_unlock_def locked_guard_def)
  qed
next
  case (gs_destroy s t k b)
  show ?case
  proof (cases b)
    case True
    then show ?thesis using agrees_released [of s t k None] gs_destroy by (simp add: guard_destroy_def guard_unlock_def locked_guard_def)
  next
    case False
    then show ?thesis using agrees_idle [of s t None] gs_destroy by (simp add: guard_destroy_def guard_unlock_def locked_guard_def)
  qed
qed

lemma guards_agree:
  assumes "(guard_step lcks unl)\<^sup>*\<^sup>* \<lparr>g_lock = l, g_guards = Map.empty\<rparr> s" "ok l" "\<And>k t. \<not> holds k t l"
  shows "ok (g_lock s)" "locked_guard s t k \<longleftrightarrow> holds k t (g_lock s)"
    "g_guards s = Map.empty \<Longrightarrow> guard_new (lcks k) t (g_lock s) \<noteq> None"
proof -
  have "agrees \<lparr>g_lock = l, g_guards = Map.empty\<rparr>" using assms(2,3) by (simp add: agrees_def locked_guard_def)
  with assms(1) have a: "agrees s" by (induction rule: rtranclp_induct) (auto intro: agrees_step)
  then show "ok (g_lock s)" "locked_guard s t k \<longleftrightarrow> holds k t (g_lock s)" by (simp_all add: agrees_def)
  show "guard_new (lcks k) t (g_lock s) \<noteq> None" if "g_guards s = Map.empty"
    using available [of "g_lock s" k t] a that by (simp add: agrees_def locked_guard_def guard_new_def)
qed

end

text \<open>The modes that exclude each other.\<close>

locale exclusive = lockable +
  fixes conflict :: "'a \<Rightarrow> 'a \<Rightarrow> bool"
  assumes excludes: "ok l \<Longrightarrow> holds j t l \<Longrightarrow> holds k u l \<Longrightarrow> conflict j k \<Longrightarrow> t = u"
begin

lemma guards_exclude:
  assumes "(guard_step lcks unl)\<^sup>*\<^sup>* \<lparr>g_lock = l, g_guards = Map.empty\<rparr> s" "ok l" "\<And>k t. \<not> holds k t l"
    "locked_guard s t j" "locked_guard s u k" "conflict j k"
  shows "t = u"
  using guards_agree(1,2) [OF assms(1-3)] assms(4-6) excludes by blast

end

section \<open>The locks keep the promise\<close>

definition rw_holds :: "bool \<Rightarrow> nat \<Rightarrow> rw_mutex \<Rightarrow> bool" where
  "rw_holds write t l \<longleftrightarrow> (if write then rw_writer l = Some t else t \<in> set (rw_readers l))"

definition rw_ok :: "rw_mutex \<Rightarrow> bool" where
  "rw_ok l \<longleftrightarrow> distinct (rw_readers l) \<and> (rw_writer l = None \<or> rw_readers l = [])"

definition rw_lck :: "bool \<Rightarrow> nat \<Rightarrow> rw_mutex \<Rightarrow> rw_mutex option" where
  "rw_lck write = (if write then wrlock else rdlock)"

interpretation mutex: exclusive "\<lambda>_ :: unit. Mutex_lock" Mutex_unlock "\<lambda>_ t l. l = Some t" "\<lambda>_. True" "\<lambda>_ _. True"
  by unfold_locales (auto simp: Mutex_lock_def Mutex_unlock_def split: if_splits)

interpretation spin: exclusive "\<lambda>_ :: unit. SpinLock_lock" SpinLock_unlock "\<lambda>_ t l. l = Some t" "\<lambda>_. True" "\<lambda>_ _. True"
  by unfold_locales (auto simp: SpinLock_lock_def SpinLock_unlock_def split: if_splits)

interpretation cas: exclusive "\<lambda>_ :: unit. CASLock_lock" CASLock_unlock "\<lambda>_ t l. cas_owner l = Some t"
    "\<lambda>l. cas_flag l = (cas_owner l \<noteq> None)" "\<lambda>_ _. True"
  by unfold_locales (auto simp: CASLock_lock_def CASLock_unlock_def test_and_set_def split: if_splits)

interpretation null: lockable "\<lambda>_ :: unit. NullMutex_lock" NullMutex_unlock "\<lambda>_ t l. t \<in> l" "\<lambda>_. True"
  by unfold_locales (auto simp: NullMutex_lock_def NullMutex_unlock_def)

lemma rw_holds_none: "(\<And>j. \<not> rw_holds j t l) \<Longrightarrow> rw_writer l \<noteq> Some t \<and> t \<notin> set (rw_readers l)"
  unfolding rw_holds_def by (metis (full_types))

interpretation rw: exclusive rw_lck rw_unlock rw_holds rw_ok "\<lambda>j k. j \<or> k"
proof
  show "rw_ok l' \<and> (rw_holds j u l' \<longleftrightarrow> rw_holds j u l \<or> (j = k \<and> u = t))"
    if "rw_ok l" "rw_lck k t l = Some l'" "\<And>j. \<not> rw_holds j t l" for l k t l' j u
    using that(1,2) rw_holds_none [OF that(3)] by (auto simp: rw_lck_def rdlock_def wrlock_def rw_holds_def rw_ok_def split: if_splits)
  show "rw_ok (rw_unlock t l) \<and> (rw_holds j u (rw_unlock t l) \<longleftrightarrow> rw_holds j u l \<and> u \<noteq> t)"
    if "rw_ok l" "rw_holds k t l" for l k t j u
    using that by (auto simp: rw_unlock_def rw_holds_def rw_ok_def split: if_splits)
  show "rw_lck k t l \<noteq> None" if "rw_ok l" "\<And>j u. \<not> rw_holds j u l" for l k t
  proof -
    have "rw_writer l \<noteq> Some u \<and> u \<notin> set (rw_readers l)" for u by (rule rw_holds_none) (rule that(2))
    then have "rw_writer l = None" "rw_readers l = []" by (auto simp: not_Some_eq [symmetric] filter_empty_conv) (metis list.set_intros(1) neq_Nil_conv)
    then show ?thesis by (simp add: rw_lck_def rdlock_def wrlock_def)
  qed
  show "t = u" if "rw_ok l" "rw_holds j t l" "rw_holds k u l" "j \<or> k" for l j t k u
    using that by (auto simp: rw_holds_def rw_ok_def split: if_splits)
qed

section \<open>Semaphores and condition variables\<close>

text \<open>
  \<open>Semaphore\<close>: \<open>None\<close> blocks; \<open>sem_post\<close> fails when the value would pass \<open>SEM_VALUE_MAX\<close>.
\<close>

definition SEM_VALUE_MAX :: nat where "SEM_VALUE_MAX = 2147483647"

definition Semaphore_new :: "u32 \<Rightarrow> nat result" where
  "Semaphore_new count = (if unat count > SEM_VALUE_MAX then Inl Logic_error else Inr (unat count))"

definition sem_wait :: "nat \<Rightarrow> nat option" where
  "sem_wait n = (if n = 0 then None else Some (n - 1))"

definition sem_notify :: "nat \<Rightarrow> nat result" where
  "sem_notify n = (if n = SEM_VALUE_MAX then Inl Logic_error else Inr (n + 1))"

section \<open>Properties\<close>



end
