(* ===== verification/Threads.thy ===== *)
theory Threads
  imports Locks Strings
begin

text \<open>
  windgent/thread.h and windgent/thread.cc: a thread object, the thread-local variables of the thread it starts, and
  the hand-over between the constructor and \<open>Thread::run\<close> through the semaphore \<open>m_sem\<close>; and the clock and backtrace
  helpers of windgent/util.cc. The function of a thread is a number, its thread id and what \<open>pthread_create\<close> returns are
  arguments.
\<close>

record thread_obj =
  m_thread_id :: int
  m_threadId :: nat
  m_thread_cb :: "nat option"
  m_name :: string
  m_sem :: nat

record thread_local =
  t_thread :: bool
  t_thread_name :: string
  t_os_name :: string

definition thread_local_new :: thread_local where
  "thread_local_new = \<lparr>t_thread = False, t_thread_name = ''UNKNOWN'', t_os_name = []\<rparr>"

text \<open>The part of the constructor before and after \<open>pthread_create\<close>, which gives the handle or fails.\<close>

definition Thread_init :: "nat option \<Rightarrow> string \<Rightarrow> thread_obj" where
  "Thread_init cb name =
     \<lparr>m_thread_id = - 1, m_threadId = 0, m_thread_cb = cb, m_name = (if name = [] then ''UNKNOWN'' else name), m_sem = 0\<rparr>"

definition Thread_create :: "nat option \<Rightarrow> thread_obj \<Rightarrow> thread_obj result" where
  "Thread_create handle o1 = (case handle of None \<Rightarrow> Inl Logic_error | Some h \<Rightarrow> Inr (o1\<lparr>m_threadId := h\<rparr>))"

text \<open>\<open>run\<close> up to the notification; the function is taken out of the object and called afterwards.\<close>

definition Thread_run :: "int \<Rightarrow> thread_obj \<Rightarrow> thread_local \<Rightarrow> nat option \<times> thread_obj \<times> thread_local" where
  "Thread_run tid o1 l =
     (m_thread_cb o1, o1\<lparr>m_thread_id := tid, m_thread_cb := None\<rparr>,
      l\<lparr>t_thread := True, t_thread_name := m_name o1, t_os_name := take 15 (m_name o1)\<rparr>)"

definition Thread_SetName :: "string \<Rightarrow> thread_obj \<Rightarrow> thread_local \<Rightarrow> thread_obj \<times> thread_local" where
  "Thread_SetName name o1 l = (if t_thread l then o1\<lparr>m_name := name\<rparr> else o1, l\<lparr>t_thread_name := name\<rparr>)"

definition Thread_GetName :: "thread_local \<Rightarrow> string" where
  "Thread_GetName l = t_thread_name l"

text \<open>\<open>ret\<close> is what \<open>pthread_join\<close> returns. The destructor detaches, which the flag of the result says.\<close>

definition Thread_join :: "int \<Rightarrow> thread_obj \<Rightarrow> thread_obj result" where
  "Thread_join ret o1 = (if m_threadId o1 \<noteq> 0 \<and> ret \<noteq> 0 then Inl Logic_error else Inr (o1\<lparr>m_threadId := 0\<rparr>))"

definition Thread_destroy :: "thread_obj \<Rightarrow> bool" where
  "Thread_destroy o1 \<longleftrightarrow> m_threadId o1 \<noteq> 0"

section \<open>The hand-over\<close>

text \<open>Where the constructor and the new thread are; the third component of \<open>Called\<close> is the function that is called.\<close>

datatype ctor_pc = Creating | Waiting | Built | Failed

datatype run_pc = Unborn | Born | Prepared "nat option" | Called "nat option"

record starting =
  s_ctor :: ctor_pc
  s_run :: run_pc
  s_obj :: thread_obj
  s_local :: thread_local

inductive start_step :: "int \<Rightarrow> starting \<Rightarrow> starting \<Rightarrow> bool" for tid where
  st_create: "s_ctor s = Creating \<Longrightarrow> Thread_create (Some h) (s_obj s) = Inr ob \<Longrightarrow>
    start_step tid s (s\<lparr>s_ctor := Waiting, s_run := Born, s_obj := ob\<rparr>)"
| st_fail: "s_ctor s = Creating \<Longrightarrow> Thread_create None (s_obj s) = Inl e \<Longrightarrow> start_step tid s (s\<lparr>s_ctor := Failed\<rparr>)"
| st_run: "s_run s = Born \<Longrightarrow> Thread_run tid (s_obj s) (s_local s) = (cb, ob, l) \<Longrightarrow>
    start_step tid s (s\<lparr>s_run := Prepared cb, s_obj := ob, s_local := l\<rparr>)"
| st_notify: "s_run s = Prepared cb \<Longrightarrow> sem_notify (m_sem (s_obj s)) = Inr n \<Longrightarrow>
    start_step tid s (s\<lparr>s_run := Called cb, s_obj := (s_obj s)\<lparr>m_sem := n\<rparr>\<rparr>)"
| st_wait: "s_ctor s = Waiting \<Longrightarrow> sem_wait (m_sem (s_obj s)) = Some n \<Longrightarrow>
    start_step tid s (s\<lparr>s_ctor := Built, s_obj := (s_obj s)\<lparr>m_sem := n\<rparr>\<rparr>)"

definition start_state :: "nat option \<Rightarrow> string \<Rightarrow> starting" where
  "start_state cb name = \<lparr>s_ctor = Creating, s_run = Unborn, s_obj = Thread_init cb name, s_local = thread_local_new\<rparr>"

text \<open>The value of the semaphore says how far both are.\<close>

definition start_inv :: "int \<Rightarrow> nat option \<Rightarrow> string \<Rightarrow> starting \<Rightarrow> bool" where
  "start_inv tid cb name s \<longleftrightarrow>
     (let nm = (if name = [] then ''UNKNOWN'' else name) in
      m_name (s_obj s) = nm
      \<and> (case s_run s of
           Unborn \<Rightarrow> s_ctor s \<in> {Creating, Failed} \<and> m_sem (s_obj s) = 0 \<and> m_thread_cb (s_obj s) = cb
         | Born \<Rightarrow> s_ctor s = Waiting \<and> m_sem (s_obj s) = 0 \<and> m_thread_cb (s_obj s) = cb
         | Prepared f \<Rightarrow> s_ctor s = Waiting \<and> m_sem (s_obj s) = 0 \<and> f = cb \<and> m_thread_id (s_obj s) = tid
             \<and> m_thread_cb (s_obj s) = None \<and> t_thread_name (s_local s) = nm \<and> t_os_name (s_local s) = take 15 nm
         | Called f \<Rightarrow> (s_ctor s = Waiting \<and> m_sem (s_obj s) = 1 \<or> s_ctor s = Built \<and> m_sem (s_obj s) = 0) \<and> f = cb
             \<and> m_thread_id (s_obj s) = tid \<and> m_thread_cb (s_obj s) = None \<and> t_thread_name (s_local s) = nm
             \<and> t_os_name (s_local s) = take 15 nm))"

lemma start_inv_step: "start_step tid s s' \<Longrightarrow> start_inv tid cb name s \<Longrightarrow> start_inv tid cb name s'"
  by (induction rule: start_step.induct)
    (auto simp: start_inv_def Thread_create_def Thread_run_def sem_notify_def sem_wait_def SEM_VALUE_MAX_def Let_def split: run_pc.splits if_splits)

lemma start_inv_reach: "(start_step tid)\<^sup>*\<^sup>* (start_state cb name) s \<Longrightarrow> start_inv tid cb name s"
proof (induction rule: rtranclp_induct)
  case base
  show ?case by (simp add: start_inv_def start_state_def Thread_init_def)
qed (auto intro: start_inv_step)

text \<open>As long as the constructor has not returned, one of the two can go on.\<close>

lemma start_progress:
  assumes "start_inv tid cb name s" "s_ctor s = Creating \<or> s_ctor s = Waiting"
  shows "\<exists>s'. start_step tid s s'"
proof (cases "s_run s")
  case Unborn
  then have "s_ctor s = Creating" using assms by (auto simp: start_inv_def Let_def)
  from st_create [OF this, of 1] show ?thesis by (simp add: Thread_create_def) blast
next
  case Born
  from st_run [OF this, of tid] show ?thesis by (simp add: Thread_run_def) blast
next
  case (Prepared f)
  then have "sem_notify (m_sem (s_obj s)) = Inr 1" using assms(1) by (simp add: start_inv_def Let_def sem_notify_def SEM_VALUE_MAX_def)
  from st_notify [OF Prepared this] show ?thesis by blast
next
  case (Called f)
  then have "s_ctor s = Waiting" "sem_wait (m_sem (s_obj s)) = Some 0" using assms by (auto simp: start_inv_def Let_def sem_wait_def)
  from st_wait [OF this] show ?thesis by blast
qed

text \<open>
  \<^bold>\<open>C39\<close>. The hand-over between the constructor of a thread and the thread it starts, in every interleaving. When the
  constructor has returned, the thread id is set, the function has been taken out of the object and the new thread
  carries the name of the object, cut to 15 characters for the system. Until then one of the two can always go on,
  unless \<open>pthread_create\<close> failed, which makes the constructor throw: neither waits for the other for ever.
\<close>

theorem thread_handover:
  assumes "(start_step tid)\<^sup>*\<^sup>* (start_state cb name) s"
  shows "(s_ctor s = Built \<longrightarrow> m_thread_id (s_obj s) = tid \<and> s_run s = Called cb \<and> m_thread_cb (s_obj s) = None
      \<and> t_thread_name (s_local s) = m_name (s_obj s) \<and> t_os_name (s_local s) = take 15 (m_name (s_obj s)))
    \<and> (s_ctor s \<in> {Creating, Waiting} \<longrightarrow> (\<exists>s'. start_step tid s s'))"
proof -
  note inv = start_inv_reach [OF assms]
  then have "s_ctor s = Built \<longrightarrow> m_thread_id (s_obj s) = tid \<and> s_run s = Called cb \<and> m_thread_cb (s_obj s) = None
      \<and> t_thread_name (s_local s) = m_name (s_obj s) \<and> t_os_name (s_local s) = take 15 (m_name (s_obj s))"
    by (auto simp: start_inv_def Let_def split: run_pc.splits)
  with start_progress [OF inv] show ?thesis by simp
qed

theorem thread_handover_witness:
  "\<exists>s. (start_step 77)\<^sup>*\<^sup>* (start_state (Some 3) ''net'') s \<and> s_ctor s = Built \<and> m_thread_id (s_obj s) = 77"
proof -
  let ?s0 = "start_state (Some 3) ''net''"
  define s1 where "s1 = ?s0\<lparr>s_ctor := Waiting, s_run := Born, s_obj := (s_obj ?s0)\<lparr>m_threadId := 9\<rparr>\<rparr>"
  define s2 where "s2 = (let (cb, ob, l) = Thread_run 77 (s_obj s1) (s_local s1) in s1\<lparr>s_run := Prepared cb, s_obj := ob, s_local := l\<rparr>)"
  define s3 where "s3 = s2\<lparr>s_run := Called (Some 3), s_obj := (s_obj s2)\<lparr>m_sem := 1\<rparr>\<rparr>"
  define s4 where "s4 = s3\<lparr>s_ctor := Built, s_obj := (s_obj s3)\<lparr>m_sem := 0\<rparr>\<rparr>"
  note defs = s1_def s2_def s3_def s4_def start_state_def Thread_init_def Thread_create_def Thread_run_def sem_notify_def sem_wait_def SEM_VALUE_MAX_def
  have "start_step 77 ?s0 s1" unfolding s1_def by (rule st_create [where h = 9]) (simp_all add: defs)
  moreover have "start_step 77 s1 s2" unfolding s2_def by (simp add: Thread_run_def) (rule st_run, simp_all add: defs)
  moreover have "start_step 77 s2 s3" unfolding s3_def by (rule st_notify) (simp_all add: defs)
  moreover have "start_step 77 s3 s4" unfolding s4_def by (rule st_wait) (simp_all add: defs)
  ultimately have run: "(start_step 77)\<^sup>*\<^sup>* ?s0 s4" by (meson converse_rtranclp_into_rtranclp rtranclp.rtrancl_refl)
  have "s_ctor s4 = Built" by (simp add: s4_def)
  with thread_handover [OF run] run show ?thesis by blast
qed

section \<open>Clock and backtraces\<close>

text \<open>\<open>tv\<close> is what \<open>gettimeofday\<close> gives, \<open>strings\<close> what \<open>backtrace_symbols\<close> gives.\<close>

definition GetCurrentMS :: "int \<times> int \<Rightarrow> u64" where
  "GetCurrentMS tv = word_of_int (fst tv) * 1000 + word_of_int (snd tv div 1000)"

definition GetCurrentUS :: "int \<times> int \<Rightarrow> u64" where
  "GetCurrentUS tv = word_of_int (fst tv * 1000) * 1000 + word_of_int (snd tv)"

definition Backtrace :: "string list option \<Rightarrow> int \<Rightarrow> string list \<Rightarrow> string list" where
  "Backtrace strings skip bt =
     (case strings of None \<Rightarrow> bt | Some ss \<Rightarrow> bt @ (if skip < 0 then [] else drop (nat skip) ss))"

definition BacktraceToString :: "string list option \<Rightarrow> int \<Rightarrow> string \<Rightarrow> string" where
  "BacktraceToString strings skip prefix =
     concat (map (\<lambda>b. prefix @ b @ [char_of (10 :: nat)]) (Backtrace strings skip []))"

text \<open>The two clocks agree, and milliseconds grow with the time of day.\<close>

lemma clocks_agree:
  assumes "0 \<le> sec" "sec < 2 ^ 40" "0 \<le> usec" "usec < 1000000"
  shows "uint (GetCurrentMS (sec, usec)) = (sec * 1000000 + usec) div 1000"
    and "uint (GetCurrentUS (sec, usec)) = sec * 1000000 + usec"
proof -
  have "(sec * 1000000 + usec) div 1000 = sec * 1000 + usec div 1000" by simp
  moreover have "GetCurrentMS (sec, usec) = word_of_int (sec * 1000 + usec div 1000)" by (simp add: GetCurrentMS_def)
  moreover have "0 \<le> usec div 1000" "usec div 1000 < 1000" using assms by auto
  ultimately show "uint (GetCurrentMS (sec, usec)) = (sec * 1000000 + usec) div 1000"
    using assms by (simp add: unsigned_of_int take_bit_int_eq_self del: of_int_add of_int_mult)
  have "GetCurrentUS (sec, usec) = word_of_int (sec * 1000000 + usec)" by (simp add: GetCurrentUS_def)
  then show "uint (GetCurrentUS (sec, usec)) = sec * 1000000 + usec"
    using assms by (simp add: unsigned_of_int take_bit_int_eq_self del: of_int_add of_int_mult)
qed

end
