(* ===== verification/Spec2Isabelle.thy ===== *)
theory Spec2Isabelle
  imports ByteArray_Codec Event_Loop Fd_Manager Http_Connection Log_Config Hook_Wait Tcp_Server Threads
begin

text \<open>
  \<^bold>\<open>A verification development for windgent, a C++ server framework (src/windgent).\<close>

  \<^bold>\<open>The program.\<close> A program that uses windgent starts an \<open>IOManager\<close>: a \<open>Scheduler\<close> whose threads take
  fibers from a queue, with an epoll instance for descriptors and a set of timers. The calls of the C library that
  would block are hooked: a fiber that finds no data registers itself with the I/O manager, arms a timer for the
  timeout of its socket and yields; the I/O manager schedules it again. Above the hooks, sockets, streams, a TCP
  server, HTTP sessions, servlets and a client with a connection pool are written as plain blocking code. Byte
  buffers, addresses, the log, the configuration, locks and threads serve all of them. The theories follow these
  layers; each opens with what it models, from which files, and which arguments stand for what is outside.

  \<^bold>\<open>Conventions.\<close> A class is a record or a datatype, a shared pointer an address into a heap that is part of
  the state, a null pointer \<open>None\<close>. An operation is a function from a state to a result and a new state. Exceptions,
  failed assertions and undefined behaviour a run can meet are values of \<open>cpp_error\<close> (Prelude): a call that returns
  gives \<open>Inr\<close>. Machine integers are words where the width matters, sizes of objects in memory are \<open>nat\<close>.
  Loops that end for every input are \<open>fun\<close> or \<open>function\<close> with a termination proof; loops whose end depends on the
  peer, the kernel or a callback are \<open>partial_function (option)\<close>, where \<open>None\<close> is a run without end, so no fuel is
  chosen anywhere. Concurrency is a step relation over the critical sections of the code.

  \<^bold>\<open>Theories, and what they show.\<close>

  \<^item> Prelude, Strings, Ordered: machine types, errors and sequencing (the collection \<open>returns\<close> takes apart a run that returned); C strings and decimal text; \<open>std::set\<close> and
    \<open>std::map\<close> over a comparator. The locales \<open>strict_weak\<close> and \<open>strict_total\<close> are what the library asks of a
    comparator; they are interpreted for the comparators of the sources: timers (\<open>ts\<close>), strings (\<open>sl\<close>), listener ids
    (\<open>ul\<close>), header names (\<open>hm\<close>) and log definitions (\<open>ld\<close>).

  \<^item> Endian, Byte\_Store, ByteArray, ByteArray\_Codec (endian.h, bytearray.h, bytearray.cc): the chain of blocks with its
    cursor. The cursor invariant holds in every reachable state; \<open>write\<close> and \<open>read\<close> implement the operations on one flat
    sequence of bytes. The locale \<open>byte_store\<close> is that contract, interpreted for the block chain (\<open>ba\<close>); on top of it
    every sequence of typed writes is read back, also on a host of the other byte order.

  \<^item> Timer\_Manager (timer.h, timer.cc): the set stays sorted, expired callbacks are exactly the due ones, a cancelled timer
    never comes back, the reported waiting time is exact.

  \<^item> Fiber, Scheduler (fiber.h, fiber.cc, scheduler.h, scheduler.cc): the states of the fibers of one thread, and the run
    loop of many threads in every interleaving; the counters are exact, and stopping means that nothing is queued or
    executing. A thread takes the first task it may execute.

  \<^item> IO\_Manager, Event\_Loop (iomanager.h, iomanager.cc): registration, removal, cancellation and triggering of events refine a
    map from descriptor and direction to the waiting task; the pending counter and the interest given to epoll agree with
    it. A round of the event loop, over timers, events and the queue together, has exactly one of three outcomes.

  \<^item> Fd\_Manager, Hook, Hook\_Wait (fd\_manager.h, fd\_manager.cc, hook.h, hook.cc): the table of descriptors refines a
    map; all hooked calls; a call that waits holds its fiber and is woken exactly once, at the latest by its
    timer, whatever the rest of the program does in the meantime.

  \<^item> Address, Socket, Streams, Tcp\_Server (address, socket, stream, socket\_stream and tcp\_server, each with a .h and a .cc file): addresses as
    memory and as text, the life cycle of a socket, fixed size transfers (locale \<open>delivering\<close>, interpreted for reading as
    \<open>rd\<close> and for writing as \<open>wr\<close>), binding, starting and stopping a server.

  \<^item> Http, Http\_Parser, Servlet, Http\_Session, Http\_Connection (the files of http/ and the accessors of uri.h and uri.rl): messages and their framing, the callbacks of the
    parsers, dispatch to servlets, serving a client, requests of a client with chunked bodies, the connection pool.

  \<^item> Log\_Format, Logging, Log\_Config (log.h, log.cc) and Config (config.h, config.cc): patterns, loggers and appenders, who
    gets a message, the registry of variables, loading YAML, and, across these, that a document which lists loggers leaves
    exactly these loggers configured, and that the text of the manager describes the loggers.

  \<^item> Locks, Threads (mutex.h, mutex.cc, thread.h, thread.cc, util.cc): the guards of any lock that satisfies the locales
    \<open>lockable\<close> and \<open>exclusive\<close>, interpreted for every lock of the file (\<open>mutex\<close>, \<open>spin\<close>, \<open>cas\<close>, \<open>null\<close>, \<open>rw\<close>);
    the hand-over between the constructor of a thread and the thread.

  \<^bold>\<open>What is outside.\<close> Code that is not under src/ is an argument of the definitions that use it: the system calls
  (\<open>sysapi\<close> of Socket, the original functions and \<open>call_env\<close> of Hook, \<open>kernel\<close> of Fd\_Manager, the results of
  \<open>epoll_ctl\<close>), \<open>getaddrinfo\<close>, \<open>getifaddrs\<close> and \<open>inet_pton\<close>, \<open>fnmatch\<close>, \<open>strftime\<close>, yaml-cpp (\<open>yaml_api\<close>,
  \<open>yaml_nodes\<close>), the casts of boost, and the parsers that ragel generates at build time (\<open>machine\<close>, \<open>e_uri\<close>). Where a
  theorem relies on what such code documents, it is a named hypothesis, and a witness instantiates it.

  \<^bold>\<open>Not modelled.\<close> The ragel grammars http11\_parser.rl, httpclient\_parser.rl and uri.rl describe state machines whose
  code exists only after the build; the C++ around them is modelled, the generated tables are parameters. The class
  \<open>Cond\<close> has no user and waits on a mutex that no method locks, which POSIX leaves undefined. singleton.h, noncopyable.h,
  macro.h and windgent.h hold a static object, deleted copy operations, macros and includes. \<open>hook_init\<close> is a sequence of
  \<open>dlsym\<close> calls. Messages the modules write to the log about themselves are left out everywhere. tests, examples and
  samples are programs that use the library.
\<close>

end
